(* ===== verification/Amplifier_Prelude.thy ===== *)
theory Amplifier_Prelude
  imports Main "HOL-Library.Word" "HOL-Library.Code_Target_Numeral" "HOL-Library.Char_ord" "HOL-Library.List_Lexorder"
begin

text \<open>
  Shared vocabulary of the development: the widths of the machine integers the contracts use, results
  of fallible code (\<open>Inl\<close> is the error of a Rust \<open>Err\<close> or panic, \<open>Inr\<close> the value), checked and
  saturating arithmetic, the try-map of \<open>axelar_wasm_std::utils\<close>, ordered maps (\<open>BTreeMap\<close>) with the
  interface their clients rely on, and the generic invariant argument over the runs of a contract.
\<close>

section \<open>Types\<close>

type_synonym u8 = "8 word"
type_synonym u16 = "16 word"
type_synonym u32 = "32 word"
type_synonym u64 = "64 word"
type_synonym u128 = "128 word"
type_synonym u256 = "256 word"
type_synonym bytes = "u8 list"
type_synonym addr = string
type_synonym ('k, 'v) btree_map = "('k \<times> 'v) list"

named_theorems result_simps \<open>inversion of results: when does a fallible computation succeed\<close>
named_theorems checked_simps \<open>the value and the success condition of the checked operations\<close>

section \<open>Results\<close>

definition rbind :: "'e + 'a \<Rightarrow> ('a \<Rightarrow> 'e + 'b) \<Rightarrow> 'e + 'b" where
  "rbind m f = (case m of Inl e \<Rightarrow> Inl e | Inr x \<Rightarrow> f x)"

definition ok_or :: "'e \<Rightarrow> 'a option \<Rightarrow> 'e + 'a" where
  "ok_or e m = (case m of None \<Rightarrow> Inl e | Some x \<Rightarrow> Inr x)"

definition map_err :: "('e \<Rightarrow> 'f) \<Rightarrow> 'e + 'a \<Rightarrow> 'f + 'a" where
  "map_err f m = (case m of Inl e \<Rightarrow> Inl (f e) | Inr x \<Rightarrow> Inr x)"

definition ensure :: "bool \<Rightarrow> 'e \<Rightarrow> 'e + unit" where
  "ensure b e = (if b then Inr () else Inl e)"

text \<open>\<open>Vec::try_map\<close>: the first error stops the map.\<close>

fun try_map :: "('a \<Rightarrow> 'e + 'b) \<Rightarrow> 'a list \<Rightarrow> 'e + 'b list" where
  "try_map f [] = Inr []"
| "try_map f (x # xs) = rbind (f x) (\<lambda>y. rbind (try_map f xs) (\<lambda>ys. Inr (y # ys)))"

text \<open>A \<open>for\<close> loop whose body updates a state and may return early with an error.\<close>

fun try_fold :: "('s \<Rightarrow> 'a \<Rightarrow> 'e + 's) \<Rightarrow> 's \<Rightarrow> 'a list \<Rightarrow> 'e + 's" where
  "try_fold f s [] = Inr s"
| "try_fold f s (x # xs) = rbind (f s x) (\<lambda>s'. try_fold f s' xs)"

lemma rbind_simps [simp]:
  "rbind (Inl e) f = Inl e" "rbind (Inr x) f = f x"
  by (simp_all add: rbind_def)

lemma rbind_right_unit [simp]: "rbind m Inr = m"
  by (cases m) (simp_all add: rbind_def)

lemma rbind_assoc: "rbind (rbind m f) g = rbind m (\<lambda>x. rbind (f x) g)"
  by (cases m) (simp_all add: rbind_def)

lemma rbind_Inr_iff [result_simps]: "rbind m f = Inr y \<longleftrightarrow> (\<exists>x. m = Inr x \<and> f x = Inr y)"
  by (cases m) auto

lemma ok_or_simps [simp]:
  "ok_or e None = Inl e" "ok_or e (Some x) = Inr x"
  by (simp_all add: ok_or_def)

lemma ok_or_Inr_iff [result_simps]: "ok_or e m = Inr x \<longleftrightarrow> m = Some x"
  by (cases m) auto

lemma map_err_simps [simp]:
  "map_err f (Inl e) = Inl (f e)" "map_err f (Inr x) = Inr x"
  by (simp_all add: map_err_def)

lemma map_err_Inr_iff [result_simps]: "map_err f m = Inr x \<longleftrightarrow> m = Inr x"
  by (cases m) auto

lemma ensure_simps [simp]:
  "ensure True e = Inr ()" "ensure False e = Inl e"
  by (simp_all add: ensure_def)

lemma ensure_Inr_iff [result_simps]: "ensure b e = Inr u \<longleftrightarrow> b"
  by (simp add: ensure_def)

lemma if_Inr_iff [result_simps]:
  "(if b then Inl e else m) = Inr x \<longleftrightarrow> \<not> b \<and> m = Inr x"
  "(if b then m else Inl e) = Inr x \<longleftrightarrow> b \<and> m = Inr x"
  by auto

lemma case_Inr_iff: "(case m of Inl _ \<Rightarrow> False | Inr x \<Rightarrow> P x) \<longleftrightarrow> (\<exists>x. m = Inr x \<and> P x)"
  by (cases m) auto

lemma if_None_Some_iff: "(if b then None else Some x) = Some y \<longleftrightarrow> \<not> b \<and> x = y"
  by simp

lemma not_Inr_iff: "(\<forall>x. m \<noteq> Inr x) \<longleftrightarrow> (\<exists>e. m = Inl e)"
  by (cases m) auto

lemma try_map_Inr_iff: "try_map f xs = Inr ys \<longleftrightarrow> list_all2 (\<lambda>x y. f x = Inr y) xs ys"
  by (induction xs arbitrary: ys) (auto simp: rbind_Inr_iff list_all2_Cons1)

lemma try_map_length: "try_map f xs = Inr ys \<Longrightarrow> length ys = length xs"
  by (auto simp: try_map_Inr_iff dest: list_all2_lengthD)

lemma try_map_nth: "try_map f xs = Inr ys \<Longrightarrow> i < length xs \<Longrightarrow> f (xs ! i) = Inr (ys ! i)"
  by (auto simp: try_map_Inr_iff dest: list_all2_nthD)

lemma try_map_total:
  assumes "\<And>x. x \<in> set xs \<Longrightarrow> f x = Inr (g x)"
  shows "try_map f xs = Inr (map g xs)"
  using assms by (induction xs) auto

lemma try_fold_append:
  "try_fold f s (xs @ ys) = rbind (try_fold f s xs) (\<lambda>s'. try_fold f s' ys)"
  by (induction xs arbitrary: s) (auto simp: rbind_def split: sum.splits)

lemma try_fold_invariant:
  assumes "try_fold f s xs = Inr s'" and "P s"
    and "\<And>s x s'. x \<in> set xs \<Longrightarrow> P s \<Longrightarrow> f s x = Inr s' \<Longrightarrow> P s'"
  shows "P s'"
  using assms
proof (induction xs arbitrary: s)
  case (Cons x xs)
  from Cons.prems(1) obtain t where t: "f s x = Inr t" "try_fold f t xs = Inr s'"
    by (auto simp: rbind_Inr_iff)
  moreover have "P t"
    using Cons.prems(2,3) t(1) by auto
  ultimately show ?case
    using Cons.IH [OF t(2)] Cons.prems(3) by (meson list.set_intros(2))
qed simp

section \<open>Text\<close>

text \<open>\<open>to_string\<close> of an unsigned integer, and \<open>parse\<close> back: an optional plus sign and at least one digit.\<close>

fun show_nat :: "nat \<Rightarrow> string" where
  "show_nat n = (if n < 10 then [char_of (48 + n)] else show_nat (n div 10) @ [char_of (48 + n mod 10)])"

declare show_nat.simps [simp del]

fun read_digits :: "nat \<Rightarrow> string \<Rightarrow> nat option" where
  "read_digits acc [] = Some acc"
| "read_digits acc (c # cs) =
     (let d = of_char c :: nat in if 48 \<le> d \<and> d \<le> 57 then read_digits (10 * acc + (d - 48)) cs else None)"

definition read_nat :: "string \<Rightarrow> nat option" where
  "read_nat cs =
     (let ds = (case cs of c # cs' \<Rightarrow> if c = CHR ''+'' then cs' else cs | [] \<Rightarrow> [])
      in if ds = [] then None else read_digits 0 ds)"

lemma read_digits_append:
  "read_digits acc (xs @ ys) = Option.bind (read_digits acc xs) (\<lambda>n. read_digits n ys)"
  by (induction xs arbitrary: acc) (auto simp: Let_def)

lemma read_digits_show: "read_digits 0 (show_nat n) = Some n"
proof (induction n rule: show_nat.induct)
  case (1 n)
  show ?case
  proof (cases "n < 10")
    case True
    then show ?thesis by (simp add: show_nat.simps [of n])
  next
    case False
    then have "read_digits 0 (show_nat (n div 10)) = Some (n div 10)" using 1 by simp
    then show ?thesis using False by (simp add: show_nat.simps [of n] read_digits_append)
  qed
qed

lemma show_nat_digits: "c \<in> set (show_nat n) \<Longrightarrow> 48 \<le> (of_char c :: nat) \<and> (of_char c :: nat) \<le> 57"
proof (induction n rule: show_nat.induct)
  case (1 n)
  show ?case
  proof (cases "n < 10")
    case True
    then show ?thesis using 1(2) by (simp add: show_nat.simps [of n])
  next
    case False
    then show ?thesis using 1 by (auto simp: show_nat.simps [of n])
  qed
qed

lemma show_nat_nonempty: "show_nat n \<noteq> []"
  by (simp add: show_nat.simps [of n])

lemma read_show_nat: "read_nat (show_nat n) = Some n"
proof (cases "show_nat n")
  case (Cons c cs)
  then have "c \<noteq> CHR ''+''" using show_nat_digits [of c n] by auto
  then show ?thesis using Cons read_digits_show [of n] by (simp add: read_nat_def)
qed (simp add: show_nat_nonempty)

lemma show_nat_inj: "show_nat m = show_nat n \<Longrightarrow> m = n"
  using read_show_nat by (metis option.inject)

section \<open>Checked and saturating arithmetic\<close>

definition checked_add :: "'a::len word \<Rightarrow> 'a word \<Rightarrow> 'a word option" where
  "checked_add a b = (if unat a + unat b < 2 ^ LENGTH('a) then Some (a + b) else None)"

definition checked_sub :: "'a::len word \<Rightarrow> 'a word \<Rightarrow> 'a word option" where
  "checked_sub a b = (if b \<le> a then Some (a - b) else None)"

definition checked_mul :: "'a::len word \<Rightarrow> 'a word \<Rightarrow> 'a word option" where
  "checked_mul a b = (if unat a * unat b < 2 ^ LENGTH('a) then Some (a * b) else None)"

definition checked_div :: "'a::len word \<Rightarrow> 'a word \<Rightarrow> 'a word option" where
  "checked_div a b = (if b = 0 then None else Some (a div b))"

definition checked_rem :: "'a::len word \<Rightarrow> 'a word \<Rightarrow> 'a word option" where
  "checked_rem a b = (if b = 0 then None else Some (a mod b))"

definition saturating_add :: "'a::len word \<Rightarrow> 'a word \<Rightarrow> 'a word" where
  "saturating_add a b = (if unat a + unat b < 2 ^ LENGTH('a) then a + b else - 1)"

definition saturating_sub :: "nat \<Rightarrow> nat \<Rightarrow> nat" where
  "saturating_sub a b = a - b"

text \<open>A conversion to a narrower width, \<open>None\<close> where \<open>try_from\<close> fails.\<close>

definition try_narrow :: "'a::len word \<Rightarrow> 'b::len word option" where
  "try_narrow a = (if unat a < 2 ^ LENGTH('b) then Some (ucast a) else None)"

definition try_of_nat :: "nat \<Rightarrow> 'b::len word option" where
  "try_of_nat n = (if n < 2 ^ LENGTH('b) then Some (of_nat n) else None)"

lemma unat_plus_no_overflow:
  fixes a b :: "'a::len word"
  shows "unat a + unat b < 2 ^ LENGTH('a) \<Longrightarrow> unat (a + b) = unat a + unat b"
  by (simp add: unat_word_ariths)

lemma unat_bound: "unat (a :: 'a::len word) < 2 ^ LENGTH('a)"
  by simp

lemma checked_add_Some [checked_simps]:
  "checked_add a b = Some c \<longleftrightarrow> unat c = unat a + unat b"
  by (auto simp: checked_add_def unat_plus_no_overflow word_unat_eq_iff) (metis unat_bound)

lemma checked_sub_Some [checked_simps]:
  "checked_sub a b = Some c \<longleftrightarrow> b \<le> a \<and> unat c = unat a - unat b"
  by (auto simp: checked_sub_def word_le_nat_alt unat_sub_if_size word_unat_eq_iff)

lemma checked_mul_Some [checked_simps]:
  "checked_mul a b = Some c \<longleftrightarrow> unat c = unat a * unat b"
  by (auto simp: checked_mul_def unat_word_ariths word_unat_eq_iff) (metis unat_bound)

lemma checked_div_Some [checked_simps]:
  "checked_div a b = Some c \<longleftrightarrow> b \<noteq> 0 \<and> unat c = unat a div unat b"
  by (auto simp: checked_div_def unat_div word_unat_eq_iff)

lemma checked_rem_Some [checked_simps]:
  "checked_rem a b = Some c \<longleftrightarrow> b \<noteq> 0 \<and> unat c = unat a mod unat b"
  by (auto simp: checked_rem_def unat_mod word_unat_eq_iff)

lemma unat_minus_1: "unat (- 1 :: 'a::len word) = 2 ^ LENGTH('a) - 1"
  by (simp add: unsigned_minus_1_eq_mask mask_eq_exp_minus_1)

lemma unat_saturating_add:
  fixes a b :: "'a::len word"
  shows "unat (saturating_add a b) = min (unat a + unat b) (2 ^ LENGTH('a) - 1)"
  by (auto simp: saturating_add_def unat_plus_no_overflow unat_minus_1)

lemma saturating_add_no_overflow:
  fixes a b :: "'a::len word"
  assumes "unat a + unat b < 2 ^ LENGTH('a)"
  shows "unat (saturating_add a b) = unat a + unat b"
  using assms by (simp add: saturating_add_def unat_plus_no_overflow)

lemma try_of_nat_Some: "try_of_nat n = Some (w :: 'b::len word) \<longleftrightarrow> unat w = n"
  by (auto simp: try_of_nat_def unat_of_nat word_unat_eq_iff)

section \<open>Bytes\<close>

text \<open>\<open>to_be_bytes\<close> of an integer of \<open>k\<close> bytes.\<close>

definition be_bytes :: "nat \<Rightarrow> 'a::len word \<Rightarrow> bytes" where
  "be_bytes k w = map (\<lambda>i. ucast (drop_bit (8 * (k - 1 - i)) w)) [0..<k]"

text \<open>The bytes of a string.\<close>

definition string_bytes :: "string \<Rightarrow> bytes" where
  "string_bytes s = map of_char s"

lemma length_be_bytes [simp]: "length (be_bytes k w) = k"
  by (simp add: be_bytes_def)

lemma be_bytes_inj:
  fixes v w :: "'a::len word"
  assumes "LENGTH('a) = 8 * k" "be_bytes k v = be_bytes k w"
  shows "v = w"
proof (rule bit_word_eqI)
  fix n assume "n < LENGTH('a)"
  then have k: "n div 8 < k" using assms(1) by auto
  then have "be_bytes k v ! (k - 1 - n div 8) = be_bytes k w ! (k - 1 - n div 8)"
    using assms(2) by simp
  then have "(ucast (drop_bit (8 * (n div 8)) v) :: u8) = ucast (drop_bit (8 * (n div 8)) w)"
    using k by (simp add: be_bytes_def)
  then have "bit (ucast (drop_bit (8 * (n div 8)) v) :: u8) (n mod 8) =
      bit (ucast (drop_bit (8 * (n div 8)) w) :: u8) (n mod 8)" by simp
  then show "bit v n = bit w n" by (simp add: bit_simps mult_div_mod_eq)
qed

lemma be_bytes_iff [simp]:
  "be_bytes 2 v = be_bytes 2 (w :: u16) \<longleftrightarrow> v = w"
  "be_bytes 4 x = be_bytes 4 (y :: u32) \<longleftrightarrow> x = y"
  "be_bytes 8 a = be_bytes 8 (b :: u64) \<longleftrightarrow> a = b"
  using be_bytes_inj [of 2 v w] be_bytes_inj [of 4 x y] be_bytes_inj [of 8 a b] by auto

lemma of_char_u8_inj: "inj (of_char :: char \<Rightarrow> u8)"
proof (rule injI)
  fix x y :: char
  assume "of_char x = (of_char y :: u8)"
  then have "(of_nat (of_char x) :: u8) = of_nat (of_char y)" by (simp add: of_nat_of_char)
  then have "of_char x mod 256 = (of_char y mod 256 :: nat)"
    by (simp add: word_unat_eq_iff unat_of_nat)
  then show "x = y" by (simp add: of_char_mod_256)
qed

lemma string_bytes_inj: "string_bytes s = string_bytes t \<longleftrightarrow> s = t"
  unfolding string_bytes_def by (rule inj_map_eq_map [OF of_char_u8_inj])

section \<open>Ordered maps\<close>

text \<open>
  A \<open>BTreeMap\<close> is the list of its entries in the order of their keys. Its clients use the laws of the
  locale \<open>ordered_map\<close> only: \<open>bt_insert\<close> and \<open>map_of\<close> satisfy them.
\<close>

fun bt_insert :: "'k::linorder \<Rightarrow> 'v \<Rightarrow> ('k, 'v) btree_map \<Rightarrow> ('k, 'v) btree_map" where
  "bt_insert k v [] = [(k, v)]"
| "bt_insert k v ((k', v') # m) =
     (if k < k' then (k, v) # (k', v') # m
      else if k = k' then (k, v) # m
      else (k', v') # bt_insert k v m)"

definition bt_from_iter :: "('k::linorder \<times> 'v) list \<Rightarrow> ('k, 'v) btree_map" where
  "bt_from_iter xs = foldl (\<lambda>m (k, v). bt_insert k v m) [] xs"

definition bt_wf :: "('k::linorder, 'v) btree_map \<Rightarrow> bool" where
  "bt_wf m \<longleftrightarrow> sorted_wrt (<) (map fst m)"

lemma assoc_list_keys:
  assumes "distinct (map fst xs)" and "f = map_of xs"
  shows "xs = map (\<lambda>k. (k, the (f k))) (map fst xs)"
proof -
  have "map (\<lambda>e. (fst e, the (f (fst e)))) xs = xs"
    by (rule map_idI) (use assms in auto)
  then show ?thesis by (simp add: o_def)
qed

locale ordered_map =
  fixes emp :: "'m"
    and ins :: "'k::linorder \<Rightarrow> 'v \<Rightarrow> 'm \<Rightarrow> 'm"
    and get :: "'m \<Rightarrow> 'k \<Rightarrow> 'v option"
    and entries :: "'m \<Rightarrow> ('k \<times> 'v) list"
    and invar :: "'m \<Rightarrow> bool"
  assumes get_emp: "get emp = Map.empty"
    and invar_emp: "invar emp"
    and get_ins: "invar m \<Longrightarrow> get (ins k v m) = (get m)(k \<mapsto> v)"
    and invar_ins: "invar m \<Longrightarrow> invar (ins k v m)"
    and get_entries: "invar m \<Longrightarrow> get m = map_of (entries m)"
    and entries_sorted: "invar m \<Longrightarrow> sorted_wrt (<) (map fst (entries m))"
begin

lemma distinct_keys: "invar m \<Longrightarrow> distinct (map fst (entries m))"
  using entries_sorted strict_sorted_iff by blast

lemma keys_dom: "invar m \<Longrightarrow> fst ` set (entries m) = dom (get m)"
  by (simp add: get_entries dom_map_of_conv_image_fst)

lemma entry_iff: "invar m \<Longrightarrow> (k, v) \<in> set (entries m) \<longleftrightarrow> get m k = Some v"
  by (simp add: get_entries distinct_keys)

lemma entries_ext:
  assumes "invar m" "invar m'" "get m = get m'"
  shows "entries m = entries m'"
proof -
  have "set (map fst (entries m)) = set (map fst (entries m'))"
    using assms keys_dom [of m] keys_dom [of m'] by simp
  then have keys: "map fst (entries m) = map fst (entries m')"
    using strict_sorted_equal [OF entries_sorted entries_sorted] assms(1,2) by metis
  have "entries m = map (\<lambda>k. (k, the (get m k))) (map fst (entries m))"
    by (rule assoc_list_keys) (simp_all add: get_entries distinct_keys assms(1))
  also have "\<dots> = map (\<lambda>k. (k, the (get m' k))) (map fst (entries m'))"
    by (simp only: assms(3) keys)
  also have "\<dots> = entries m'"
    by (rule assoc_list_keys [symmetric]) (simp_all add: get_entries distinct_keys assms(2))
  finally show ?thesis .
qed

lemma invar_from_iter: "invar (foldl (\<lambda>m (k, v). ins k v m) emp xs)"
  by (induction xs rule: rev_induct) (auto simp: invar_emp invar_ins)

lemma get_from_iter: "get (foldl (\<lambda>m (k, v). ins k v m) emp xs) = map_of (rev xs)"
  by (induction xs rule: rev_induct) (auto simp: get_emp get_ins invar_from_iter)

end

lemma map_of_bt_insert: "bt_wf m \<Longrightarrow> map_of (bt_insert k v m) = (map_of m)(k \<mapsto> v)"
  by (induction m) (auto simp: bt_wf_def fun_eq_iff)

lemma ball_bt_insert:
  "(\<forall>e \<in> set (bt_insert k v m). P (fst e)) \<longleftrightarrow> P k \<and> (\<forall>e \<in> set m. P (fst e))"
  by (induction k v m rule: bt_insert.induct) (simp_all, blast)

lemma bt_wf_insert: "bt_wf m \<Longrightarrow> bt_wf (bt_insert k v m)"
proof (induction m)
  case (Cons e m)
  then show ?case
    using ball_bt_insert [of k v m "\<lambda>k'. fst e < k'"]
    by (cases e) (auto simp: bt_wf_def intro: order.strict_trans)
qed (simp add: bt_wf_def)

interpretation bt: ordered_map "[]" bt_insert map_of "\<lambda>m. m" bt_wf
  by unfold_locales (auto simp: map_of_bt_insert bt_wf_insert, auto simp: bt_wf_def)

lemma bt_wf_from_iter: "bt_wf (bt_from_iter xs)"
  unfolding bt_from_iter_def by (rule bt.invar_from_iter)

lemma map_of_bt_from_iter: "map_of (bt_from_iter xs) = map_of (rev xs)"
  unfolding bt_from_iter_def by (rule bt.get_from_iter)

lemma bt_wf_distinct: "bt_wf m \<Longrightarrow> distinct (map fst m)"
  by (rule bt.distinct_keys)

lemma bt_eqI: "bt_wf m \<Longrightarrow> bt_wf m' \<Longrightarrow> map_of m = map_of m' \<Longrightarrow> m = m'"
  by (rule bt.entries_ext)

lemma sum_list_bt_update:
  fixes g :: "'k::linorder \<times> 'v \<Rightarrow> nat"
  assumes "bt_wf m" "map_of m k = Some x"
  shows "sum_list (map g (bt_insert k y m)) + g (k, x) = sum_list (map g m) + g (k, y)"
  using assms
proof (induction m)
  case (Cons e m)
  have "k \<noteq> fst e \<Longrightarrow> fst e < k"
    using Cons.prems by (cases e) (fastforce simp: bt_wf_def dest: map_of_SomeD)
  then show ?case
    using Cons by (cases e) (auto simp: bt_wf_def dest: map_of_SomeD split: if_splits)
qed simp

lemma sum_list_bt_insert_le:
  fixes g :: "'k::linorder \<times> 'v \<Rightarrow> nat"
  shows "sum_list (map g (bt_insert k v m)) \<le> sum_list (map g m) + g (k, v)"
  by (induction m) auto

lemma sum_list_bt_from_iter_le:
  fixes g :: "'k::linorder \<times> 'v \<Rightarrow> nat"
  shows "sum_list (map g (bt_from_iter xs)) \<le> sum_list (map g xs)"
proof (induction xs rule: rev_induct)
  case (snoc x xs)
  then show ?case
    using sum_list_bt_insert_le [of g "fst x" "snd x" "bt_from_iter xs"]
    by (simp add: bt_from_iter_def split_beta)
qed (simp add: bt_from_iter_def)

lemma bt_from_iter_sorted: "bt_wf m \<Longrightarrow> bt_from_iter m = m"
proof (rule bt_eqI)
  assume wf: "bt_wf m"
  have "map_of (rev m) k = map_of m k" for k
  proof (cases "map_of m k")
    case None
    then have "map_of (rev m) k = None" by (simp add: map_of_eq_None_iff)
    then show ?thesis using None by simp
  next
    case (Some v)
    then show ?thesis
      using bt_wf_distinct [OF wf] by (simp add: map_of_eq_Some_iff rev_map [symmetric])
  qed
  then show "map_of (bt_from_iter m) = map_of m"
    by (simp add: map_of_bt_from_iter fun_eq_iff)
qed (simp_all add: bt_wf_from_iter)

lemma sum_list_map_mono_nat:
  fixes f g :: "'a \<Rightarrow> nat"
  shows "(\<And>x. x \<in> set xs \<Longrightarrow> f x \<le> g x) \<Longrightarrow> sum_list (map f xs) \<le> sum_list (map g xs)"
  by (induction xs) (auto simp: add_mono)

section \<open>Runs of a contract\<close>

text \<open>
  The state of a contract changes by the messages delivered to it; a message whose handler returns an
  error leaves the state as it was (the chain reverts the transaction).
\<close>

definition new_state :: "'e + 's \<times> 'r \<Rightarrow> 'e + 's" where
  "new_state r = rbind r (\<lambda>(s, _). Inr s)"

lemma new_state_Inr_iff [result_simps]: "new_state r = Inr s \<longleftrightarrow> (\<exists>out. r = Inr (s, out))"
  by (auto simp: new_state_def rbind_Inr_iff)

text \<open>The same contract when only some messages are ever sent.\<close>

definition only :: "('m \<Rightarrow> bool) \<Rightarrow> ('m \<Rightarrow> 's \<Rightarrow> 'e + 's) \<Rightarrow> 'm \<Rightarrow> 's \<Rightarrow> 'e + 's" where
  "only ok step m s = (if ok m then step m s else Inr s)"

inductive run :: "('m \<Rightarrow> 's \<Rightarrow> 'e + 's) \<Rightarrow> 's \<Rightarrow> 's \<Rightarrow> bool" for step where
  run_refl: "run step s s"
| run_step: "run step s t \<Longrightarrow> step m t = Inr u \<Longrightarrow> run step s u"

lemma run_trans: "run step t u \<Longrightarrow> run step s t \<Longrightarrow> run step s u"
  by (induction rule: run.induct) (auto intro: run.intros)

text \<open>Messages delivered one after the other; those that fail change nothing.\<close>

definition deliver :: "('m \<Rightarrow> 's \<Rightarrow> 'e + 's) \<Rightarrow> 'm list \<Rightarrow> 's \<Rightarrow> 's" where
  "deliver step ms s = foldl (\<lambda>s m. case step m s of Inl _ \<Rightarrow> s | Inr s' \<Rightarrow> s') s ms"

lemma run_deliver: "run step s (deliver step ms s)"
proof (induction ms rule: rev_induct)
  case (snoc m ms)
  then show ?case by (auto simp: deliver_def intro: run.intros split: sum.splits)
qed (simp add: deliver_def run_refl)

locale contract_invariant =
  fixes step :: "'m \<Rightarrow> 's \<Rightarrow> 'e + 's"
    and inv :: "'s \<Rightarrow> bool"
  assumes step_inv: "inv s \<Longrightarrow> step m s = Inr s' \<Longrightarrow> inv s'"
begin

lemma run_inv: "run step s t \<Longrightarrow> inv s \<Longrightarrow> inv t"
  by (induction rule: run.induct) (auto intro: step_inv)

lemma run_monotone:
  assumes "run step s t" and "inv s"
    and refl: "\<And>s. R s s" and trans: "\<And>s t u. R s t \<Longrightarrow> R t u \<Longrightarrow> R s u"
    and step: "\<And>s m s'. inv s \<Longrightarrow> step m s = Inr s' \<Longrightarrow> R s s'"
  shows "R s t"
  using assms(1,2)
proof (induction rule: run.induct)
  case (run_refl s)
  show ?case by (rule refl)
next
  case (run_step s t m u)
  then show ?case using run_inv step trans by blast
qed

end

end
