(* ===== verification/Contract_Controls.thy ===== *)
theory Contract_Controls
  imports Amplifier_Prelude
begin

unbundle bit_operations_syntax

text \<open>
  The controls every contract shares (\<open>packages/axelar-wasm-std\<close>, \<open>packages/msgs-derive\<close>): the
  killswitch, the permissions of a sender and the check that \<open>#[derive(EnsurePermissions)]\<close> puts in
  front of a handler, the storage counter, and the verification status of a message with its order.
\<close>

section \<open>Storage items\<close>

datatype std_error = NotFound | OverflowError | GenericError string

text \<open>\<open>Item::load\<close> and \<open>Item::update\<close>: a missing item is an error, and a failing update changes nothing.\<close>

definition item_load :: "'a option \<Rightarrow> std_error + 'a" where
  "item_load item = ok_or NotFound item"

definition item_update :: "(std_error \<Rightarrow> 'e) \<Rightarrow> ('a \<Rightarrow> 'e + 'a) \<Rightarrow> 'a option \<Rightarrow> 'e + 'a" where
  "item_update from f item = rbind (map_err from (item_load item)) f"

section \<open>Killswitch\<close>

datatype kill_state = Engaged | Disengaged

datatype kill_update_error = SameState | KillStd std_error

type_synonym killswitch = "kill_state option"

definition killswitch_init :: "kill_state \<Rightarrow> killswitch" where
  "killswitch_init initial = Some initial"

definition killswitch_update_response ::
    "kill_update_error + kill_state \<Rightarrow> 'ev \<Rightarrow> killswitch \<Rightarrow> std_error + killswitch \<times> 'ev list" where
  "killswitch_update_response r ev st =
     (case r of
        Inr s \<Rightarrow> Inr (Some s, [ev])
      | Inl SameState \<Rightarrow> Inr (st, [])
      | Inl (KillStd e) \<Rightarrow> Inl e)"

definition engage :: "'ev \<Rightarrow> killswitch \<Rightarrow> std_error + killswitch \<times> 'ev list" where
  "engage ev st =
     killswitch_update_response
       (item_update KillStd (\<lambda>s. case s of Disengaged \<Rightarrow> Inr Engaged | Engaged \<Rightarrow> Inl SameState) st)
       ev st"

definition disengage :: "'ev \<Rightarrow> killswitch \<Rightarrow> std_error + killswitch \<times> 'ev list" where
  "disengage ev st =
     killswitch_update_response
       (item_update KillStd (\<lambda>s. case s of Engaged \<Rightarrow> Inr Disengaged | Disengaged \<Rightarrow> Inl SameState) st)
       ev st"

definition is_contract_active :: "killswitch \<Rightarrow> bool" where
  "is_contract_active st \<longleftrightarrow> (case item_load st of Inl _ \<Rightarrow> Engaged | Inr s \<Rightarrow> s) = Disengaged"

lemma is_contract_active_iff [simp]: "is_contract_active st \<longleftrightarrow> st = Some Disengaged"
  by (cases st) (auto simp: is_contract_active_def item_load_def)

lemma engage_cases:
  "engage ev None = Inl NotFound"
  "engage ev (Some Engaged) = Inr (Some Engaged, [])"
  "engage ev (Some Disengaged) = Inr (Some Engaged, [ev])"
  by (simp_all add: engage_def killswitch_update_response_def item_update_def item_load_def)

lemma disengage_cases:
  "disengage ev None = Inl NotFound"
  "disengage ev (Some Disengaged) = Inr (Some Disengaged, [])"
  "disengage ev (Some Engaged) = Inr (Some Disengaged, [ev])"
  by (simp_all add: disengage_def killswitch_update_response_def item_update_def item_load_def)

lemma engage_state: "engage ev st = Inr (st', evs) \<Longrightarrow> st' = Some Engaged"
  by (cases st rule: option.exhaust; cases "the st") (auto simp: engage_cases)

lemma disengage_state: "disengage ev st = Inr (st', evs) \<Longrightarrow> st' = Some Disengaged"
  by (cases st rule: option.exhaust; cases "the st") (auto simp: disengage_cases)

section \<open>Permissions\<close>

type_synonym flag_set = u8

abbreviation (input) NoPrivilege :: flag_set where "NoPrivilege \<equiv> 1"
abbreviation (input) Admin :: flag_set where "Admin \<equiv> 2"
abbreviation (input) Governance :: flag_set where "Governance \<equiv> 4"
abbreviation (input) Elevated :: flag_set where "Elevated \<equiv> 6"
abbreviation (input) AnyPermission :: flag_set where "AnyPermission \<equiv> 7"

record permission_state =
  admin :: "addr option"
  governance :: "addr option"

datatype permission_error =
    PermissionDenied flag_set flag_set
  | AddressNotWhitelisted "addr list" addr
  | WhitelistNotFound addr

definition set_admin :: "addr \<Rightarrow> permission_state \<Rightarrow> permission_state" where
  "set_admin a ps = ps\<lparr>admin := Some a\<rparr>"

definition set_governance :: "addr \<Rightarrow> permission_state \<Rightarrow> permission_state" where
  "set_governance a ps = ps\<lparr>governance := Some a\<rparr>"

definition sender_role :: "permission_state \<Rightarrow> addr \<Rightarrow> flag_set" where
  "sender_role ps sender =
     (let role = NoPrivilege;
          role = (if admin ps = Some sender then role OR Admin else role);
          role = (if governance ps = Some sender then role OR Governance else role)
      in if role AND Elevated \<noteq> 0 then role AND NOT NoPrivilege else role)"

text \<open>
  The derived \<open>ensure_permissions\<close>: the whitelisted addresses of the variant first (a loader that fails
  is an error), then the general permissions; a variant with a whitelist and no general permission
  refuses everyone else.
\<close>

fun check_specific :: "addr \<Rightarrow> ('e + addr) list \<Rightarrow> addr list \<Rightarrow> permission_error + (addr list) option" where
  "check_specific sender [] whitelisted = Inr (Some whitelisted)"
| "check_specific sender (Inl e # ls) whitelisted = Inl (WhitelistNotFound sender)"
| "check_specific sender (Inr a # ls) whitelisted =
     (if sender = a then Inr None else check_specific sender ls (whitelisted @ [a]))"

definition check_general ::
    "permission_state \<Rightarrow> addr \<Rightarrow> flag_set list \<Rightarrow> addr list \<Rightarrow> permission_error + unit" where
  "check_general ps sender general whitelisted =
     (if general = [] \<and> whitelisted \<noteq> [] then Inl (AddressNotWhitelisted whitelisted sender)
      else
        (let permission = foldr (OR) general 0; role = sender_role ps sender
         in if permission AND AnyPermission = AnyPermission then Inr ()
            else if permission AND role = 0 then Inl (PermissionDenied permission role)
            else Inr ()))"

definition ensure_permissions ::
    "permission_state \<Rightarrow> addr \<Rightarrow> ('e + addr) list \<Rightarrow> flag_set list \<Rightarrow> permission_error + unit" where
  "ensure_permissions ps sender specific general =
     rbind (check_specific sender specific []) (\<lambda>r.
       case r of None \<Rightarrow> Inr () | Some whitelisted \<Rightarrow> check_general ps sender general whitelisted)"

abbreviation is_elevated :: "permission_state \<Rightarrow> addr \<Rightarrow> bool" where
  "is_elevated ps sender \<equiv> admin ps = Some sender \<or> governance ps = Some sender"

lemma sender_role_cases:
  "sender_role ps sender =
     (if admin ps = Some sender \<and> governance ps = Some sender then Elevated
      else if admin ps = Some sender then Admin
      else if governance ps = Some sender then Governance
      else NoPrivilege)"
  by (auto simp: sender_role_def)

lemma ensure_any [simp]: "ensure_permissions ps sender [] [AnyPermission] = Inr ()"
  by (simp add: ensure_permissions_def check_general_def)

lemma ensure_elevated: "ensure_permissions ps sender [] [Elevated] = Inr u \<longleftrightarrow> is_elevated ps sender"
  by (auto simp: ensure_permissions_def check_general_def sender_role_cases split: if_splits)

lemma ensure_governance:
  "ensure_permissions ps sender [] [Governance] = Inr u \<longleftrightarrow> governance ps = Some sender"
  by (auto simp: ensure_permissions_def check_general_def sender_role_cases split: if_splits)

lemma ensure_specific: "ensure_permissions ps sender [Inr a] [] = Inr u \<longleftrightarrow> sender = a"
  by (auto simp: ensure_permissions_def check_general_def split: if_splits)

section \<open>Counters\<close>

definition counter_cur :: "('a::len word) option \<Rightarrow> 'a word" where
  "counter_cur c = (case c of None \<Rightarrow> 0 | Some v \<Rightarrow> v)"

definition counter_incr :: "('a::len word) option \<Rightarrow> std_error + 'a word" where
  "counter_incr c = ok_or OverflowError (checked_add (counter_cur c) 1)"

lemma counter_incr_greater: "counter_incr c = Inr v \<Longrightarrow> counter_cur c < v"
  by (simp add: counter_incr_def ok_or_Inr_iff checked_add_Some word_less_nat_alt)

lemma counter_incr_value:
  "counter_incr c = Inr (v :: 'a::len word) \<Longrightarrow> unat v = unat (counter_cur c) + 1"
  by (simp add: counter_incr_def ok_or_Inr_iff checked_add_Some)

section \<open>Verification status\<close>

datatype verification_status =
    SucceededOnSourceChain
  | FailedOnSourceChain
  | NotFoundOnSourceChain
  | FailedToVerify
  | InProgress
  | Unknown

definition is_confirmed :: "verification_status \<Rightarrow> bool" where
  "is_confirmed s \<longleftrightarrow> s = SucceededOnSourceChain \<or> s = FailedOnSourceChain"

text \<open>The derived \<open>Ord\<close> of the enum is the order of its variants.\<close>

primrec status_rank :: "verification_status \<Rightarrow> nat" where
  "status_rank SucceededOnSourceChain = 0"
| "status_rank FailedOnSourceChain = 1"
| "status_rank NotFoundOnSourceChain = 2"
| "status_rank FailedToVerify = 3"
| "status_rank InProgress = 4"
| "status_rank Unknown = 5"

lemma status_rank_inject: "status_rank a = status_rank b \<longleftrightarrow> a = b"
  by (cases a; cases b) simp_all

instantiation verification_status :: linorder
begin

definition less_eq_verification_status :: "verification_status \<Rightarrow> verification_status \<Rightarrow> bool" where
  "less_eq_verification_status a b \<longleftrightarrow> status_rank a \<le> status_rank b"

definition less_verification_status :: "verification_status \<Rightarrow> verification_status \<Rightarrow> bool" where
  "less_verification_status a b \<longleftrightarrow> status_rank a < status_rank b"

instance
  by standard
    (auto simp: less_eq_verification_status_def less_verification_status_def status_rank_inject)

end

end
