(* ===== verification/Voting.thy ===== *)
theory Voting
  imports Contract_Controls
begin

text \<open>
  Weighted polls (\<open>packages/axelar-wasm-std/src/{threshold,snapshot,voting}.rs\<close>): the thresholds a quorum
  is computed from, the snapshot of the participants of a poll, and the poll itself with its running
  tallies. The lemmas show that a poll's tallies account for the weight that has voted, so that with a
  majority quorum an item has at most one winning vote, which no later vote can change.
\<close>

section \<open>Thresholds\<close>

datatype threshold_error = OutOfInterval | NoMajority | InvalidParameter u64

record threshold =
  numerator :: u64
  denominator :: u64

text \<open>\<open>nonempty::Uint64::try_from\<close> refuses zero.\<close>

definition nonempty_u64 :: "u64 \<Rightarrow> u64 + u64" where
  "nonempty_u64 v = (if v = 0 then Inl v else Inr v)"

definition nonempty_u128 :: "u128 \<Rightarrow> u128 + u128" where
  "nonempty_u128 v = (if v = 0 then Inl v else Inr v)"

definition threshold_of_nonempty :: "u64 \<Rightarrow> u64 \<Rightarrow> threshold_error + threshold" where
  "threshold_of_nonempty n d =
     (if d < n then Inl OutOfInterval else Inr \<lparr>numerator = n, denominator = d\<rparr>)"

definition threshold_try_from :: "u64 \<times> u64 \<Rightarrow> threshold_error + threshold" where
  "threshold_try_from value =
     rbind (map_err InvalidParameter (nonempty_u64 (fst value))) (\<lambda>n.
     rbind (map_err InvalidParameter (nonempty_u64 (snd value))) (\<lambda>d.
     threshold_of_nonempty n d))"

text \<open>\<open>PartialOrd\<close> on thresholds compares the cross products, computed without overflow.\<close>

definition threshold_le :: "threshold \<Rightarrow> threshold \<Rightarrow> bool" where
  "threshold_le a b \<longleftrightarrow>
     unat (numerator a) * unat (denominator b) \<le> unat (numerator b) * unat (denominator a)"

definition majority_threshold_try_from :: "threshold \<Rightarrow> threshold_error + threshold" where
  "majority_threshold_try_from t =
     (if numerator t \<le> denominator t div 2 then Inl NoMajority else Inr t)"

definition is_threshold :: "threshold \<Rightarrow> bool" where
  "is_threshold t \<longleftrightarrow> numerator t \<noteq> 0 \<and> numerator t \<le> denominator t"

definition is_majority :: "threshold \<Rightarrow> bool" where
  "is_majority t \<longleftrightarrow> is_threshold t \<and> unat (denominator t) < 2 * unat (numerator t)"

lemma threshold_try_from_ok: "threshold_try_from v = Inr t \<Longrightarrow> is_threshold t"
  by (auto simp: threshold_try_from_def threshold_of_nonempty_def nonempty_u64_def is_threshold_def
      result_simps not_less split: if_splits)

lemma majority_iff:
  assumes "is_threshold t"
  shows "majority_threshold_try_from t = Inr t' \<longleftrightarrow> t' = t \<and> is_majority t"
proof -
  have "numerator t \<le> denominator t div 2 \<longleftrightarrow> 2 * unat (numerator t) \<le> unat (denominator t)"
    by (auto simp: word_le_nat_alt unat_div)
  then show ?thesis
    using assms by (auto simp: majority_threshold_try_from_def is_majority_def)
qed

section \<open>Snapshots\<close>

record participant =
  p_address :: addr
  p_weight :: u128

record snapshot =
  s_quorum :: u128
  s_participants :: "(addr, participant) btree_map"

text \<open>\<open>Uint128::mul_ceil\<close>: the product with a fraction, rounded up; no value on overflow.\<close>

definition mul_ceil_u128 :: "u128 \<Rightarrow> threshold \<Rightarrow> u128 option" where
  "mul_ceil_u128 w t =
     (let p = unat w * unat (numerator t); d = unat (denominator t);
          q = p div d + (if p mod d = 0 then 0 else 1)
      in if d = 0 \<or> 2 ^ 128 \<le> q then None else Some (of_nat q))"

datatype snapshot_error = QuorumPanic | MulCeilPanic

definition total_weight_of :: "participant list \<Rightarrow> u128" where
  "total_weight_of ps = foldl (\<lambda>w p. saturating_add w (p_weight p)) 0 ps"

definition snapshot_new :: "threshold \<Rightarrow> participant list \<Rightarrow> snapshot_error + snapshot" where
  "snapshot_new quorum_threshold ps =
     (let total_weight = total_weight_of ps;
          participants = bt_from_iter (map (\<lambda>p. (p_address p, p)) ps)
      in rbind (ok_or MulCeilPanic (mul_ceil_u128 total_weight quorum_threshold)) (\<lambda>q.
         rbind (map_err (\<lambda>_. QuorumPanic) (nonempty_u128 q)) (\<lambda>quorum.
         Inr \<lparr>s_quorum = quorum, s_participants = participants\<rparr>)))"

definition snapshot_participants :: "snapshot \<Rightarrow> addr list" where
  "snapshot_participants s = map fst (s_participants s)"

definition snapshot_find :: "snapshot \<Rightarrow> addr \<Rightarrow> participant option" where
  "snapshot_find s a = map_of (s_participants s) a"

section \<open>Votes and tallies\<close>

datatype vote = SucceededOnChain | FailedOnChain | VoteNotFound

datatype voting_error =
    NotParticipant
  | InvalidVoteSize
  | AlreadyVoted
  | PollNotInProgress
  | PollNotEnded
  | PollExpired
  | MessageIndexOutOfBounds
  | PollResultsLengthUnequal
  | VoteParsePanic

primrec vote_as_ref :: "vote \<Rightarrow> string" where
  "vote_as_ref SucceededOnChain = ''SucceededOnChain''"
| "vote_as_ref FailedOnChain = ''FailedOnChain''"
| "vote_as_ref VoteNotFound = ''NotFound''"

definition vote_iter :: "vote list" where
  "vote_iter = [SucceededOnChain, FailedOnChain, VoteNotFound]"

definition vote_parse :: "string \<Rightarrow> vote option" where
  "vote_parse s = List.find (\<lambda>v. vote_as_ref v = s) vote_iter"

type_synonym tallies = "(string, u128) btree_map"

definition tallies_default :: tallies where
  "tallies_default = bt_from_iter (map (\<lambda>v. (vote_as_ref v, 0)) vote_iter)"

fun tallies_consensus :: "tallies \<Rightarrow> u128 \<Rightarrow> voting_error + vote option" where
  "tallies_consensus [] quorum = Inr None"
| "tallies_consensus ((name, tally) # ts) quorum =
     (if quorum \<le> tally
      then rbind (ok_or VoteParsePanic (vote_parse name)) (\<lambda>v. Inr (Some v))
      else tallies_consensus ts quorum)"

definition tallies_tally :: "tallies \<Rightarrow> vote \<Rightarrow> u128 \<Rightarrow> tallies" where
  "tallies_tally t v weight =
     (let key = vote_as_ref v;
          tally = saturating_add (case map_of t key of None \<Rightarrow> 0 | Some x \<Rightarrow> x) weight
      in bt_insert key tally t)"

type_synonym poll_results = "vote option list"

definition poll_results_difference :: "poll_results \<Rightarrow> poll_results \<Rightarrow> voting_error + poll_results" where
  "poll_results_difference self rhs =
     (if length self \<noteq> length rhs then Inl PollResultsLengthUnequal
      else Inr (map (\<lambda>(l, r). if l \<noteq> None \<and> r = None then l else None) (zip self rhs)))"

section \<open>Weighted polls\<close>

datatype poll_status = PollInProgress | PollHasExpired | PollFinished

record participation =
  part_weight :: u128
  part_voted :: bool

record weighted_poll =
  wp_poll_id :: u64
  wp_quorum :: u128
  wp_expires_at :: u64
  wp_poll_size :: u64
  wp_tallies :: "tallies list"
  wp_finished :: bool
  wp_participation :: "(addr, participation) btree_map"

record poll_state =
  ps_poll_id :: u64
  ps_results :: poll_results
  ps_consensus_participants :: "addr list"

definition weighted_poll_new :: "u64 \<Rightarrow> snapshot \<Rightarrow> u64 \<Rightarrow> nat \<Rightarrow> weighted_poll" where
  "weighted_poll_new poll_id snap expiry poll_size =
     \<lparr>wp_poll_id = poll_id,
      wp_quorum = s_quorum snap,
      wp_expires_at = expiry,
      wp_poll_size = of_nat poll_size,
      wp_tallies = replicate poll_size tallies_default,
      wp_finished = False,
      wp_participation =
        bt_from_iter
          (map (\<lambda>(address, p). (address, \<lparr>part_weight = p_weight p, part_voted = False\<rparr>))
            (s_participants snap))\<rparr>"

definition poll_finish :: "weighted_poll \<Rightarrow> u64 \<Rightarrow> voting_error + weighted_poll" where
  "poll_finish p block_height =
     (if wp_finished p then Inl PollNotInProgress
      else if block_height < wp_expires_at p then Inl PollNotEnded
      else Inr (p\<lparr>wp_finished := True\<rparr>))"

definition poll_results_of :: "weighted_poll \<Rightarrow> voting_error + poll_results" where
  "poll_results_of p = try_map (\<lambda>t. tallies_consensus t (wp_quorum p)) (wp_tallies p)"

text \<open>
  \<open>state\<close>: who voted with the consensus on every item that has one. A voter with no recorded votes is
  no consensus participant; \<open>zip\<close> compares the items both lists have.
\<close>

definition voted_consensus :: "vote list \<Rightarrow> poll_results \<Rightarrow> bool" where
  "voted_consensus votes results =
     list_all (\<lambda>(v, r). r = None \<or> Some v = r) (zip votes results)"

definition poll_state_of ::
    "weighted_poll \<Rightarrow> (addr \<Rightarrow> vote list option) \<Rightarrow> voting_error + poll_state" where
  "poll_state_of p voting_history =
     rbind (try_map (\<lambda>t. tallies_consensus t (wp_quorum p)) (wp_tallies p)) (\<lambda>results.
       Inr \<lparr>ps_poll_id = wp_poll_id p,
            ps_results = results,
            ps_consensus_participants =
              List.map_filter (\<lambda>(address, _).
                case voting_history address of
                  None \<Rightarrow> None
                | Some votes \<Rightarrow> if voted_consensus votes results then Some address else None)
              (wp_participation p)\<rparr>)"

definition poll_consensus :: "weighted_poll \<Rightarrow> u32 \<Rightarrow> voting_error + vote option" where
  "poll_consensus p idx =
     (if unat idx < length (wp_tallies p)
      then tallies_consensus (wp_tallies p ! unat idx) (wp_quorum p)
      else Inl MessageIndexOutOfBounds)"

fun tally_votes :: "u128 \<Rightarrow> tallies list \<Rightarrow> vote list \<Rightarrow> tallies list" where
  "tally_votes w (t # ts) (v # vs) = tallies_tally t v w # tally_votes w ts vs"
| "tally_votes w ts _ = ts"

definition cast_vote ::
    "weighted_poll \<Rightarrow> u64 \<Rightarrow> addr \<Rightarrow> vote list \<Rightarrow> voting_error + weighted_poll" where
  "cast_vote p block_height sender votes =
     rbind (ok_or NotParticipant (map_of (wp_participation p) sender)) (\<lambda>part.
       if wp_expires_at p \<le> block_height then Inl PollExpired
       else if of_nat (length votes) \<noteq> wp_poll_size p then Inl InvalidVoteSize
       else if part_voted part then Inl AlreadyVoted
       else Inr (p\<lparr>wp_tallies := tally_votes (part_weight part) (wp_tallies p) votes,
                   wp_participation :=
                     bt_insert sender (part\<lparr>part_voted := True\<rparr>) (wp_participation p)\<rparr>))"

definition poll_status_of :: "weighted_poll \<Rightarrow> u64 \<Rightarrow> poll_status" where
  "poll_status_of p current_height =
     (if wp_finished p then PollFinished
      else if wp_expires_at p \<le> current_height then PollHasExpired
      else PollInProgress)"

section \<open>Tallies of the three votes\<close>

text \<open>
  The tallies a poll starts from have the three votes as keys, in the order of their names, and every
  operation keeps these keys; \<open>vote_parse\<close> never fails on them.
\<close>

abbreviation mk_tallies :: "u128 \<Rightarrow> u128 \<Rightarrow> u128 \<Rightarrow> tallies" where
  "mk_tallies f n s \<equiv> [(''FailedOnChain'', f), (''NotFound'', n), (''SucceededOnChain'', s)]"

definition tallies_wf :: "tallies \<Rightarrow> bool" where
  "tallies_wf t \<longleftrightarrow> map fst t = [''FailedOnChain'', ''NotFound'', ''SucceededOnChain'']"

definition tally_of :: "tallies \<Rightarrow> vote \<Rightarrow> u128" where
  "tally_of t v = (case map_of t (vote_as_ref v) of None \<Rightarrow> 0 | Some x \<Rightarrow> x)"

definition tally_total :: "tallies \<Rightarrow> nat" where
  "tally_total t = sum_list (map (\<lambda>e. unat (snd e)) t)"

lemma tallies_wfE:
  assumes "tallies_wf t"
  obtains f n s where "t = mk_tallies f n s"
  using assms unfolding tallies_wf_def by (auto simp: map_eq_Cons_conv)

lemma tallies_default_eq: "tallies_default = mk_tallies 0 0 0"
  by (simp add: tallies_default_def vote_iter_def bt_from_iter_def less_char_def)

lemma tallies_default_wf [simp]: "tallies_wf tallies_default" "tally_total tallies_default = 0"
  by (simp_all add: tallies_default_eq tallies_wf_def tally_total_def)

lemma vote_parse_as_ref [simp]: "vote_parse (vote_as_ref v) = Some v"
  by (cases v) (simp_all add: vote_parse_def vote_iter_def)

lemma tallies_tally_simps:
  "tallies_tally (mk_tallies f n s) FailedOnChain w = mk_tallies (saturating_add f w) n s"
  "tallies_tally (mk_tallies f n s) VoteNotFound w = mk_tallies f (saturating_add n w) s"
  "tallies_tally (mk_tallies f n s) SucceededOnChain w = mk_tallies f n (saturating_add s w)"
  by (simp_all add: tallies_tally_def less_char_def)

lemma tallies_tally_wf: "tallies_wf t \<Longrightarrow> tallies_wf (tallies_tally t v w)"
  by (erule tallies_wfE; cases v) (simp_all add: tallies_tally_simps tallies_wf_def)

lemma tallies_wf_bt_wf: "tallies_wf t \<Longrightarrow> bt_wf t"
  by (simp add: tallies_wf_def bt_wf_def less_char_def)

lemma tally_of_tally:
  assumes "tallies_wf t"
  shows "tally_of (tallies_tally t v w) v' =
    (if v = v' then saturating_add (tally_of t v) w else tally_of t v')"
  using assms by (auto elim!: tallies_wfE simp: tally_of_def)
    (cases v; cases v'; simp add: tallies_tally_simps)+

lemma tally_total_eq:
  "tallies_wf t \<Longrightarrow> tally_total t =
     unat (tally_of t FailedOnChain) + unat (tally_of t VoteNotFound) + unat (tally_of t SucceededOnChain)"
  by (erule tallies_wfE) (simp add: tally_total_def tally_of_def)

lemma tally_le_total: "tallies_wf t \<Longrightarrow> unat (tally_of t v) \<le> tally_total t"
  by (cases v) (simp_all add: tally_total_eq)

lemma tally_of_mono:
  assumes "tallies_wf t"
  shows "tally_of t v' \<le> tally_of (tallies_tally t v w) v'"
  using unat_bound [of "tally_of t v"]
  by (auto simp: tally_of_tally assms word_le_nat_alt unat_saturating_add)

lemma tally_total_tally:
  assumes "tallies_wf t" "tally_total t + unat w < 2 ^ 128"
  shows "tally_total (tallies_tally t v w) = tally_total t + unat w"
proof -
  have "unat (tally_of t v) + unat w < 2 ^ LENGTH(128)"
    using assms tally_le_total [OF assms(1), of v] by simp
  then have "unat (saturating_add (tally_of t v) w) = unat (tally_of t v) + unat w"
    by (rule saturating_add_no_overflow)
  then show ?thesis
    using assms(1) by (cases v) (simp_all add: tally_total_eq tallies_tally_wf tally_of_tally)
qed

lemma tallies_consensus_wf:
  assumes "tallies_wf t"
  shows "tallies_consensus t q =
    Inr (if q \<le> tally_of t FailedOnChain then Some FailedOnChain
         else if q \<le> tally_of t VoteNotFound then Some VoteNotFound
         else if q \<le> tally_of t SucceededOnChain then Some SucceededOnChain
         else None)"
  using assms vote_parse_as_ref [of FailedOnChain] vote_parse_as_ref [of VoteNotFound]
    vote_parse_as_ref [of SucceededOnChain]
  by (auto elim!: tallies_wfE simp: tally_of_def)

text \<open>Two votes cannot both reach a quorum of more than half of the weight tallied.\<close>

lemma tallies_consensus_iff:
  assumes "tallies_wf t" "tally_total t < 2 * unat q"
  shows "tallies_consensus t q = Inr (Some v) \<longleftrightarrow> q \<le> tally_of t v"
  using assms
  by (cases v) (auto simp: tallies_consensus_wf word_le_nat_alt tally_total_eq)

lemma tallies_consensus_stable:
  assumes "tallies_wf t" "tally_total (tallies_tally t v w) < 2 * unat q"
    and "tallies_consensus t q = Inr (Some c)"
  shows "tallies_consensus (tallies_tally t v w) q = Inr (Some c)"
proof -
  have "q \<le> tally_of t c"
    using assms(1,3) by (auto simp: tallies_consensus_wf split: if_splits)
  also have "\<dots> \<le> tally_of (tallies_tally t v w) c"
    using assms(1) by (rule tally_of_mono)
  finally show ?thesis
    using assms(1,2) by (simp add: tallies_consensus_iff tallies_tally_wf)
qed

lemma tallies_tally_commute:
  assumes "tallies_wf t"
  shows "tallies_tally (tallies_tally t v w) v' w' = tallies_tally (tallies_tally t v' w') v w"
  using assms
  by (elim tallies_wfE; cases v; cases v')
    (auto simp: tallies_tally_simps word_unat_eq_iff unat_saturating_add)

section \<open>The invariant of a poll\<close>

definition participation_weight :: "addr \<times> participation \<Rightarrow> nat" where
  "participation_weight e = unat (part_weight (snd e))"

definition participation_voted_weight :: "addr \<times> participation \<Rightarrow> nat" where
  "participation_voted_weight e = (if part_voted (snd e) then unat (part_weight (snd e)) else 0)"

definition poll_total_weight :: "weighted_poll \<Rightarrow> nat" where
  "poll_total_weight p = sum_list (map participation_weight (wp_participation p))"

definition poll_voted_weight :: "weighted_poll \<Rightarrow> nat" where
  "poll_voted_weight p = sum_list (map participation_voted_weight (wp_participation p))"

definition poll_inv :: "weighted_poll \<Rightarrow> bool" where
  "poll_inv p \<longleftrightarrow>
     bt_wf (wp_participation p) \<and>
     length (wp_tallies p) = unat (wp_poll_size p) \<and>
     poll_total_weight p < 2 ^ 128 \<and>
     (\<forall>t \<in> set (wp_tallies p). tallies_wf t \<and> tally_total t = poll_voted_weight p)"

definition majority_quorum :: "weighted_poll \<Rightarrow> bool" where
  "majority_quorum p \<longleftrightarrow> poll_total_weight p < 2 * unat (wp_quorum p)"

lemma poll_voted_le_total: "poll_voted_weight p \<le> poll_total_weight p"
  unfolding poll_voted_weight_def poll_total_weight_def
  by (rule sum_list_map_mono_nat) (simp add: participation_voted_weight_def participation_weight_def)

lemma tally_votes_length: "length (tally_votes w ts vs) = length ts"
  by (induction w ts vs rule: tally_votes.induct) auto

lemma tally_votes_nth:
  "length ts \<le> length vs \<Longrightarrow> i < length ts \<Longrightarrow>
    tally_votes w ts vs ! i = tallies_tally (ts ! i) (vs ! i) w"
  by (induction w ts vs arbitrary: i rule: tally_votes.induct) (auto simp: nth_Cons split: nat.splits)

lemma cast_vote_InrD:
  assumes "cast_vote p h sender votes = Inr p'"
  obtains part where
    "map_of (wp_participation p) sender = Some part" "\<not> part_voted part"
    "h < wp_expires_at p" "of_nat (length votes) = wp_poll_size p"
    "p' = p\<lparr>wp_tallies := tally_votes (part_weight part) (wp_tallies p) votes,
            wp_participation := bt_insert sender (part\<lparr>part_voted := True\<rparr>) (wp_participation p)\<rparr>"
  using assms by (auto simp: cast_vote_def result_simps not_le split: if_splits)

lemma cast_vote_weights:
  assumes "bt_wf (wp_participation p)" "cast_vote p h sender votes = Inr p'"
    and "map_of (wp_participation p) sender = Some part"
  shows "poll_total_weight p' = poll_total_weight p"
    and "poll_voted_weight p' = poll_voted_weight p + unat (part_weight part)"
proof -
  from assms(2,3) have nv: "\<not> part_voted part"
    and p': "wp_participation p' = bt_insert sender (part\<lparr>part_voted := True\<rparr>) (wp_participation p)"
    by (auto elim: cast_vote_InrD)
  note sum = sum_list_bt_update [OF assms(1,3), where y = "part\<lparr>part_voted := True\<rparr>"]
  show "poll_total_weight p' = poll_total_weight p"
    using sum [of participation_weight] by (simp add: poll_total_weight_def p' participation_weight_def)
  show "poll_voted_weight p' = poll_voted_weight p + unat (part_weight part)"
    using sum [of participation_voted_weight] nv
    by (simp add: poll_voted_weight_def p' participation_voted_weight_def)
qed

lemma cast_vote_size:
  assumes "poll_inv p" "cast_vote p h sender votes = Inr p'"
  shows "length (wp_tallies p) \<le> length votes"
proof -
  have "unat (of_nat (length votes) :: u64) = length (wp_tallies p)"
    using assms by (auto simp: poll_inv_def elim!: cast_vote_InrD)
  then show ?thesis by (metis mod_less_eq_dividend unat_of_nat)
qed

lemma cast_vote_nth:
  assumes "poll_inv p" "cast_vote p h sender votes = Inr p'" "i < length (wp_tallies p)"
    and "map_of (wp_participation p) sender = Some part"
  shows "wp_tallies p' ! i = tallies_tally (wp_tallies p ! i) (votes ! i) (part_weight part)"
  using assms cast_vote_size [OF assms(1,2)] by (auto simp: tally_votes_nth elim!: cast_vote_InrD)

lemma cast_vote_frame:
  assumes "cast_vote p h sender votes = Inr p'"
  shows "wp_poll_id p' = wp_poll_id p" "wp_quorum p' = wp_quorum p" "wp_poll_size p' = wp_poll_size p"
    "wp_expires_at p' = wp_expires_at p" "wp_finished p' = wp_finished p"
    "length (wp_tallies p') = length (wp_tallies p)"
  using assms by (auto simp: tally_votes_length elim!: cast_vote_InrD)

lemma cast_vote_inv:
  assumes inv: "poll_inv p" and cast: "cast_vote p h sender votes = Inr p'"
  shows "poll_inv p'"
proof -
  obtain part where part: "map_of (wp_participation p) sender = Some part"
    and p': "wp_participation p' = bt_insert sender (part\<lparr>part_voted := True\<rparr>) (wp_participation p)"
    using cast by (auto elim: cast_vote_InrD)
  have wf: "bt_wf (wp_participation p)" using inv by (simp add: poll_inv_def)
  note w = cast_vote_weights [OF wf cast part]
  have "tallies_wf (wp_tallies p' ! i) \<and> tally_total (wp_tallies p' ! i) = poll_voted_weight p'"
    if i: "i < length (wp_tallies p)" for i
  proof -
    have t: "tallies_wf (wp_tallies p ! i)" "tally_total (wp_tallies p ! i) = poll_voted_weight p"
      using inv i by (simp_all add: poll_inv_def)
    have "poll_voted_weight p + unat (part_weight part) \<le> poll_total_weight p"
      using poll_voted_le_total [of p'] w by simp
    then have "tally_total (wp_tallies p ! i) + unat (part_weight part) < 2 ^ 128"
      using inv t by (simp add: poll_inv_def)
    then show ?thesis
      using t w by (simp add: cast_vote_nth [OF inv cast i part] tallies_tally_wf tally_total_tally)
  qed
  then show ?thesis
    using inv w cast_vote_frame [OF cast] p'
    by (auto simp: poll_inv_def bt_wf_insert in_set_conv_nth)
qed

lemma cast_vote_majority:
  assumes "poll_inv p" "cast_vote p h sender votes = Inr p'"
  shows "majority_quorum p' \<longleftrightarrow> majority_quorum p"
proof -
  obtain part where "map_of (wp_participation p) sender = Some part"
    using assms(2) by (auto elim: cast_vote_InrD)
  then show ?thesis
    using assms cast_vote_weights(1) [of p h sender votes p' part] cast_vote_frame(2) [OF assms(2)]
    by (simp add: majority_quorum_def poll_inv_def)
qed

lemma poll_consensus_total:
  "poll_inv p \<Longrightarrow> unat i < length (wp_tallies p) \<Longrightarrow> \<exists>c. poll_consensus p i = Inr c"
  by (simp add: poll_consensus_def tallies_consensus_wf poll_inv_def)

lemma poll_results_total:
  assumes "poll_inv p"
  shows "poll_results_of p =
    Inr (map (\<lambda>t. case tallies_consensus t (wp_quorum p) of Inr c \<Rightarrow> c) (wp_tallies p))"
  unfolding poll_results_of_def
  by (rule try_map_total) (use assms in \<open>auto simp: poll_inv_def tallies_consensus_wf\<close>)

lemma poll_results_nth:
  assumes "poll_results_of p = Inr rs" "i < length (wp_tallies p)"
  shows "tallies_consensus (wp_tallies p ! i) (wp_quorum p) = Inr (rs ! i)"
    and "length rs = length (wp_tallies p)"
  using assms try_map_nth try_map_length by (fastforce simp: poll_results_of_def)+

lemma cast_vote_consensus_stable:
  assumes inv: "poll_inv p" and maj: "majority_quorum p"
    and cast: "cast_vote p h sender votes = Inr p'" and i: "i < length (wp_tallies p)"
    and c: "tallies_consensus (wp_tallies p ! i) (wp_quorum p) = Inr (Some v)"
  shows "tallies_consensus (wp_tallies p' ! i) (wp_quorum p') = Inr (Some v)"
proof -
  obtain part where part: "map_of (wp_participation p) sender = Some part"
    using cast by (auto elim: cast_vote_InrD)
  have inv': "poll_inv p'" and maj': "majority_quorum p'"
    using inv maj cast cast_vote_inv cast_vote_majority by blast+
  have "tally_total (wp_tallies p' ! i) = poll_voted_weight p'"
    using inv' i cast_vote_frame(6) [OF cast] by (simp add: poll_inv_def)
  also have "\<dots> < 2 * unat (wp_quorum p)"
    using poll_voted_le_total [of p'] maj' cast_vote_frame(2) [OF cast]
    by (simp add: majority_quorum_def)
  finally show ?thesis
    using inv i c cast_vote_frame(2) [OF cast]
    by (auto simp: poll_inv_def cast_vote_nth [OF inv cast i part] intro: tallies_consensus_stable)
qed

section \<open>New polls\<close>

lemma ceil_div_ge:
  fixes p d :: nat
  assumes "0 < d"
  shows "p \<le> (p div d + (if p mod d = 0 then 0 else 1)) * d"
proof -
  have "p = p div d * d + p mod d" by simp
  also have "\<dots> \<le> (p div d + (if p mod d = 0 then 0 else 1)) * d"
  proof (cases "p mod d = 0")
    case False
    have "p mod d \<le> d" using assms by (intro less_imp_le mod_less_divisor)
    then have "p div d * d + p mod d \<le> p div d * d + d" by (rule add_left_mono)
    with False show ?thesis by (simp add: add_mult_distrib del: div_mult_mod_eq)
  qed simp
  finally show ?thesis .
qed

lemma mul_ceil_u128_ge:
  assumes "mul_ceil_u128 w t = Some q"
  shows "unat w * unat (numerator t) \<le> unat q * unat (denominator t)"
proof -
  let ?p = "unat w * unat (numerator t)" and ?d = "unat (denominator t)"
  let ?q = "?p div ?d + (if ?p mod ?d = 0 then 0 else 1)"
  have q: "\<not> (?d = 0 \<or> 2 ^ 128 \<le> ?q) \<and> of_nat ?q = q"
    using assms unfolding mul_ceil_u128_def Let_def if_None_Some_iff .
  then have "unat q = ?q" 
    by (simp only: flip: conjunct2 [OF q]) (subst unat_of_nat, rule mod_less, simp)
  with q show ?thesis using ceil_div_ge [of ?d ?p] by auto
qed

lemma mul_ceil_majority:
  assumes "mul_ceil_u128 w t = Some q" "is_majority t" "0 < unat w"
  shows "unat w < 2 * unat q"
proof (rule ccontr)
  let ?w = "unat w" and ?n = "unat (numerator t)" and ?d = "unat (denominator t)" and ?q = "unat q"
  assume "\<not> ?w < 2 * ?q"
  then have "2 * ?q * ?d \<le> ?w * ?d" by (intro mult_le_mono1) simp
  moreover have "?w * ?d < ?w * (2 * ?n)"
    using assms(2,3) by (simp add: is_majority_def)
  moreover have "?w * (2 * ?n) \<le> 2 * ?q * ?d"
    using mul_ceil_u128_ge [OF assms(1)] by (simp add: algebra_simps)
  ultimately show False by linarith
qed

lemma foldl_saturating:
  "unat w + sum_list (map (\<lambda>p. unat (p_weight p)) ps) < 2 ^ 128 \<Longrightarrow>
   unat (foldl (\<lambda>w p. saturating_add w (p_weight p)) w ps) =
     unat w + sum_list (map (\<lambda>p. unat (p_weight p)) ps)"
  by (induction ps arbitrary: w) (auto simp: unat_saturating_add)

lemma total_weight_of_eq:
  "sum_list (map (\<lambda>p. unat (p_weight p)) ps) < 2 ^ 128 \<Longrightarrow>
   unat (total_weight_of ps) = sum_list (map (\<lambda>p. unat (p_weight p)) ps)"
  using foldl_saturating [of 0 ps] by (simp add: total_weight_of_def)

lemma weighted_poll_new_total:
  assumes "snapshot_new thr ps = Inr snap"
  shows "poll_total_weight (weighted_poll_new i snap e n) \<le> sum_list (map (\<lambda>p. unat (p_weight p)) ps)"
proof -
  let ?conv = "\<lambda>(address, p). (address, \<lparr>part_weight = p_weight p, part_voted = False\<rparr>)"
  have snap: "s_participants snap = bt_from_iter (map (\<lambda>p. (p_address p, p)) ps)"
    using assms by (auto simp: snapshot_new_def Let_def result_simps)
  have "sum_list (map participation_weight (bt_from_iter (map ?conv (s_participants snap)))) \<le>
      sum_list (map participation_weight (map ?conv (s_participants snap)))"
    by (rule sum_list_bt_from_iter_le)
  also have "\<dots> = sum_list (map (\<lambda>e. unat (p_weight (snd e))) (s_participants snap))"
    by (simp add: o_def split_beta participation_weight_def)
  also have "\<dots> \<le> sum_list (map (\<lambda>e. unat (p_weight (snd e))) (map (\<lambda>p. (p_address p, p)) ps))"
    unfolding snap by (rule sum_list_bt_from_iter_le)
  finally show ?thesis by (simp add: poll_total_weight_def weighted_poll_new_def o_def)
qed

lemma weighted_poll_new_inv:
  assumes "snapshot_new thr ps = Inr snap" "n < 2 ^ 64"
    and "sum_list (map (\<lambda>p. unat (p_weight p)) ps) < 2 ^ 128"
  shows "poll_inv (weighted_poll_new i snap e n)"
proof -
  have "\<forall>x \<in> set (bt_from_iter (map (\<lambda>(a, p). (a, \<lparr>part_weight = p_weight p, part_voted = False\<rparr>)) m)).
      participation_voted_weight x = 0" for m
    using sum_list_bt_from_iter_le [of participation_voted_weight
        "map (\<lambda>(a, p). (a, \<lparr>part_weight = p_weight p, part_voted = False\<rparr>)) m"]
    by (auto simp: o_def split_beta participation_voted_weight_def split: if_splits)
  then have "poll_voted_weight (weighted_poll_new i snap e n) = 0"
    by (auto simp: poll_voted_weight_def weighted_poll_new_def)
  then show ?thesis
    using assms weighted_poll_new_total [OF assms(1), of i e n]
    by (auto simp: poll_inv_def weighted_poll_new_def bt_wf_from_iter unat_of_nat)
qed

lemma weighted_poll_new_majority:
  assumes "snapshot_new thr ps = Inr snap" "is_majority thr"
    and "sum_list (map (\<lambda>p. unat (p_weight p)) ps) < 2 ^ 128"
  shows "majority_quorum (weighted_poll_new i snap e n)"
proof -
  have q: "mul_ceil_u128 (total_weight_of ps) thr = Some (s_quorum snap)" "s_quorum snap \<noteq> 0"
    using assms(1) by (auto simp: snapshot_new_def nonempty_u128_def Let_def result_simps split: if_splits)
  have "0 < unat (total_weight_of ps)"
    using q by (cases "total_weight_of ps = 0") (auto simp: mul_ceil_u128_def Let_def unat_gt_0 split: if_splits)
  then have "unat (total_weight_of ps) < 2 * unat (s_quorum snap)"
    using q(1) assms(2) by (rule mul_ceil_majority [rotated -1])
  then show ?thesis
    using weighted_poll_new_total [OF assms(1), of i e n] total_weight_of_eq [OF assms(3)]
    by (simp add: majority_quorum_def weighted_poll_new_def)
qed

section \<open>Histories of votes\<close>

text \<open>
  A history lists the votes a poll accepted: the block height, the sender and the votes. The weight a
  vote got on an item is the sum of the weights of the senders that voted so, an account of the poll
  that does not mention tallies.
\<close>

type_synonym ballot = "u64 \<times> addr \<times> vote list"

definition cast_ballots :: "weighted_poll \<Rightarrow> ballot list \<Rightarrow> voting_error + weighted_poll" where
  "cast_ballots p bs = try_fold (\<lambda>p (h, sender, votes). cast_vote p h sender votes) p bs"

definition voter_weight :: "weighted_poll \<Rightarrow> addr \<Rightarrow> nat" where
  "voter_weight p a = (case map_of (wp_participation p) a of None \<Rightarrow> 0 | Some x \<Rightarrow> unat (part_weight x))"

definition weight_for :: "weighted_poll \<Rightarrow> ballot list \<Rightarrow> nat \<Rightarrow> vote \<Rightarrow> nat" where
  "weight_for p bs k v =
     sum_list (map (\<lambda>(h, sender, votes). if votes ! k = v then voter_weight p sender else 0) bs)"

lemma cast_ballots_simps [simp]:
  "cast_ballots p [] = Inr p"
  "cast_ballots p (b # bs) = rbind (cast_vote p (fst b) (fst (snd b)) (snd (snd b))) (\<lambda>p'. cast_ballots p' bs)"
  by (simp_all add: cast_ballots_def split_beta)

lemma cast_ballots_append:
  "cast_ballots p (bs @ bs') = rbind (cast_ballots p bs) (\<lambda>p'. cast_ballots p' bs')"
  by (simp add: cast_ballots_def try_fold_append)

lemma cast_ballots_induct [consumes 1, case_names Nil Cons]:
  assumes "cast_ballots p bs = Inr p'" and "\<And>p. P p [] p"
    and "\<And>p h sender votes p1 bs p'. cast_vote p h sender votes = Inr p1 \<Longrightarrow>
      cast_ballots p1 bs = Inr p' \<Longrightarrow> P p1 bs p' \<Longrightarrow> P p ((h, sender, votes) # bs) p'"
  shows "P p bs p'"
  using assms(1)
proof (induction bs arbitrary: p)
  case Nil
  then show ?case using assms(2) by simp
next
  case (Cons b bs)
  obtain h sender votes where b: "b = (h, sender, votes)" by (cases b)
  with Cons.prems obtain p1 where "cast_vote p h sender votes = Inr p1" "cast_ballots p1 bs = Inr p'"
    by (auto simp: rbind_Inr_iff)
  with Cons.IH b show ?case using assms(3) by blast
qed

lemma cast_ballots_inv: "cast_ballots p bs = Inr p' \<Longrightarrow> poll_inv p \<Longrightarrow> poll_inv p'"
  by (induction rule: cast_ballots_induct) (auto intro: cast_vote_inv)

lemma cast_ballots_majority:
  "cast_ballots p bs = Inr p' \<Longrightarrow> poll_inv p \<Longrightarrow> majority_quorum p' \<longleftrightarrow> majority_quorum p"
  by (induction rule: cast_ballots_induct) (auto simp: cast_vote_majority cast_vote_inv)

lemma cast_ballots_frame:
  "cast_ballots p bs = Inr p' \<Longrightarrow>
    wp_quorum p' = wp_quorum p \<and> wp_expires_at p' = wp_expires_at p \<and> wp_finished p' = wp_finished p \<and>
    wp_poll_size p' = wp_poll_size p \<and> length (wp_tallies p') = length (wp_tallies p)"
  by (induction rule: cast_ballots_induct) (auto dest: cast_vote_frame)

lemma cast_vote_voter_weight:
  "bt_wf (wp_participation p) \<Longrightarrow> cast_vote p h sender votes = Inr p' \<Longrightarrow>
    voter_weight p' a = voter_weight p a"
  by (auto simp: voter_weight_def map_of_bt_insert elim!: cast_vote_InrD)

lemma cast_ballots_consensus_stable:
  assumes "cast_ballots p bs = Inr p'" "poll_inv p" "majority_quorum p" "k < length (wp_tallies p)"
    and "tallies_consensus (wp_tallies p ! k) (wp_quorum p) = Inr (Some v)"
  shows "tallies_consensus (wp_tallies p' ! k) (wp_quorum p') = Inr (Some v)"
  using assms
proof (induction rule: cast_ballots_induct)
  case (Cons p h sender votes p1 bs p')
  then show ?case
    using cast_vote_consensus_stable [OF Cons.prems(1,2) Cons.hyps(1)] cast_vote_inv cast_vote_majority
      cast_vote_frame(6) [OF Cons.hyps(1)] by metis
qed simp

lemma cast_ballots_tally:
  assumes "cast_ballots p bs = Inr p'" "poll_inv p" "k < length (wp_tallies p)"
  shows "unat (tally_of (wp_tallies p' ! k) v) = unat (tally_of (wp_tallies p ! k) v) + weight_for p bs k v"
  using assms
proof (induction rule: cast_ballots_induct)
  case (Cons p h sender votes p1 bs p')
  have wf: "bt_wf (wp_participation p)" and t: "tallies_wf (wp_tallies p ! k)"
    and t1: "tallies_wf (wp_tallies p1 ! k)"
    using Cons.prems cast_vote_inv [OF Cons.prems(1) Cons.hyps(1)] cast_vote_frame(6) [OF Cons.hyps(1)]
    by (auto simp: poll_inv_def)
  obtain part where part: "map_of (wp_participation p) sender = Some part"
    using Cons.hyps(1) by (auto elim: cast_vote_InrD)
  have vw: "voter_weight p1 = voter_weight p"
    using cast_vote_voter_weight [OF wf Cons.hyps(1)] by (rule ext)
  have w: "weight_for p1 bs k v = weight_for p bs k v"
    unfolding weight_for_def vw ..
  have "unat (tally_of (wp_tallies p ! k) (votes ! k)) + unat (part_weight part) < 2 ^ LENGTH(128)"
  proof -
    have "poll_inv p1" by (rule cast_vote_inv [OF Cons.prems(1) Cons.hyps(1)])
    then have "poll_voted_weight p + unat (part_weight part) < 2 ^ 128"
      using poll_voted_le_total [of p1] cast_vote_weights [OF wf Cons.hyps(1) part]
      by (simp add: poll_inv_def)
    then show ?thesis
      using tally_le_total [OF t, of "votes ! k"] Cons.prems by (simp add: poll_inv_def)
  qed
  then have "unat (tally_of (wp_tallies p1 ! k) v) =
      unat (tally_of (wp_tallies p ! k) v) + (if votes ! k = v then voter_weight p sender else 0)"
    by (auto simp: cast_vote_nth [OF Cons.prems(1) Cons.hyps(1) Cons.prems(2) part] tally_of_tally [OF t]
        saturating_add_no_overflow voter_weight_def part)
  moreover have "k < length (wp_tallies p1)"
    using Cons.prems(2) cast_vote_frame(6) [OF Cons.hyps(1)] by simp
  ultimately show ?case
    using Cons.IH cast_vote_inv [OF Cons.prems(1) Cons.hyps(1)] w by (simp add: weight_for_def)
qed (simp add: weight_for_def)

lemma new_poll_tally:
  assumes "cast_ballots (weighted_poll_new i snap e n) bs = Inr p" "k < n"
    and "poll_inv (weighted_poll_new i snap e n)"
  shows "unat (tally_of (wp_tallies p ! k) v) = weight_for (weighted_poll_new i snap e n) bs k v"
  using cast_ballots_tally [OF assms(1,3), of k v] assms(2)
  by (cases v) (simp_all add: weighted_poll_new_def tallies_default_eq tally_of_def)

lemma cast_vote_marks:
  "bt_wf (wp_participation p) \<Longrightarrow> cast_vote p h sender votes = Inr p' \<Longrightarrow>
    map_option part_voted (map_of (wp_participation p') a) =
      (if a = sender then Some True else map_option part_voted (map_of (wp_participation p) a))"
  by (auto simp: map_of_bt_insert elim!: cast_vote_InrD)

lemma cast_ballots_marks:
  "cast_ballots p bs = Inr p' \<Longrightarrow> poll_inv p \<Longrightarrow>
    map_option part_voted (map_of (wp_participation p) a) = Some True \<Longrightarrow>
    map_option part_voted (map_of (wp_participation p') a) = Some True"
proof (induction rule: cast_ballots_induct)
  case (Cons p h sender votes p1 bs p')
  have "bt_wf (wp_participation p)" using Cons.prems(1) by (simp add: poll_inv_def)
  from cast_vote_marks [OF this Cons.hyps(1), of a] Cons.prems(2)
  have "map_option part_voted (map_of (wp_participation p1) a) = Some True" by (simp split: if_splits)
  then show ?case by (rule Cons.IH [OF cast_vote_inv [OF Cons.prems(1) Cons.hyps(1)]])
qed

lemma bt_insert_commute:
  assumes "bt_wf m" "k \<noteq> k'"
  shows "bt_insert k v (bt_insert k' v' m) = bt_insert k' v' (bt_insert k v m)"
  by (rule bt_eqI) (use assms in \<open>auto simp: bt_wf_insert map_of_bt_insert\<close>)

lemma tally_votes_commute:
  assumes "\<forall>t \<in> set ts. tallies_wf t" "length ts \<le> length vs" "length ts \<le> length vs'"
  shows "tally_votes w' (tally_votes w ts vs) vs' = tally_votes w (tally_votes w' ts vs') vs"
proof (rule nth_equalityI)
  fix i
  assume "i < length (tally_votes w' (tally_votes w ts vs) vs')"
  then have i: "i < length ts" by (simp add: tally_votes_length)
  then have "tallies_wf (ts ! i)" using assms(1) by simp
  then show "tally_votes w' (tally_votes w ts vs) vs' ! i = tally_votes w (tally_votes w' ts vs') vs ! i"
    using assms(2,3) i by (simp add: tally_votes_length tally_votes_nth tallies_tally_commute)
qed (simp add: tally_votes_length)

section \<open>A concrete poll\<close>

text \<open>Three participants of weights 1, 1 and 2 and a threshold of two thirds: the quorum is 3.\<close>

definition demo_participants :: "participant list" where
  "demo_participants =
     [\<lparr>p_address = ''val1'', p_weight = 1\<rparr>, \<lparr>p_address = ''val2'', p_weight = 1\<rparr>,
      \<lparr>p_address = ''val3'', p_weight = 2\<rparr>]"

definition demo_threshold :: threshold where
  "demo_threshold = \<lparr>numerator = 2, denominator = 3\<rparr>"

definition demo_snapshot :: snapshot where
  "demo_snapshot = \<lparr>s_quorum = 3, s_participants = map (\<lambda>p. (p_address p, p)) demo_participants\<rparr>"

definition demo_poll :: weighted_poll where
  "demo_poll = weighted_poll_new 7 demo_snapshot 100 1"

definition demo_after :: "ballot list \<Rightarrow> weighted_poll" where
  "demo_after bs = (case cast_ballots demo_poll bs of Inl _ \<Rightarrow> demo_poll | Inr p \<Rightarrow> p)"

lemma demo_snapshot_new: "snapshot_new demo_threshold demo_participants = Inr demo_snapshot"
  by code_simp

lemma demo_majority: "is_majority demo_threshold"
  by code_simp

lemma demo_weights: "sum_list (map (\<lambda>p. unat (p_weight p)) demo_participants) < 2 ^ 128"
  by (simp add: demo_participants_def)

lemma demo_poll_inv: "poll_inv demo_poll"
  unfolding demo_poll_def by (rule weighted_poll_new_inv [OF demo_snapshot_new _ demo_weights]) simp

section \<open>Properties\<close>

text \<open>
  C16: A majority threshold accepts exactly the fractions greater than one half: for a threshold with
  nonzero numerator at most its denominator, the conversion to \<open>MajorityThreshold\<close> succeeds if and only
  if twice the numerator exceeds the denominator, although the code halves the denominator with
  integer division.
\<close>

theorem majority_threshold_exact:
  assumes "threshold_try_from v = Inr t"
  shows "(\<exists>t'. majority_threshold_try_from t = Inr t') \<longleftrightarrow> unat (denominator t) < 2 * unat (numerator t)"
  using threshold_try_from_ok [OF assms] by (auto simp: majority_iff is_majority_def)

theorem majority_threshold_exact_witness:
  "threshold_try_from (3, 5) = Inr \<lparr>numerator = 3, denominator = 5\<rparr> \<and>
   ((\<exists>t'. majority_threshold_try_from \<lparr>numerator = 3, denominator = 5\<rparr> = Inr t') \<longleftrightarrow> (5::nat) < 2 * 3)"
proof -
  have h: "threshold_try_from (3, 5) = Inr \<lparr>numerator = 3, denominator = 5\<rparr>"
    by (simp add: threshold_try_from_def nonempty_u64_def threshold_of_nonempty_def)
  show ?thesis using h majority_threshold_exact [OF h] by simp
qed

text \<open>
  C7: The result of a poll is the weighted majority of the votes cast. For a poll opened on a snapshot
  with a majority threshold whose weights do not add up to 2 to the 128, after any history of accepted
  votes the poll reports, for each item, vote \<open>v\<close> if and only if the participants that voted \<open>v\<close> on it
  have together at least the quorum; the report never panics.
\<close>

theorem poll_result_is_quorum:
  assumes "snapshot_new thr ps = Inr snap" "is_majority thr"
    and "sum_list (map (\<lambda>p. unat (p_weight p)) ps) < 2 ^ 128" "n < 2 ^ 64" "unat k < n"
    and "cast_ballots (weighted_poll_new i snap e n) bs = Inr p"
  shows "\<exists>c. poll_consensus p k = Inr c \<and>
    (\<forall>v. c = Some v \<longleftrightarrow> unat (s_quorum snap) \<le> weight_for (weighted_poll_new i snap e n) bs (unat k) v)"
proof -
  let ?p0 = "weighted_poll_new i snap e n"
  note inv0 = weighted_poll_new_inv [OF assms(1,4,3), of i e]
  have inv: "poll_inv p" using cast_ballots_inv [OF assms(6) inv0] .
  have maj: "majority_quorum p"
    using cast_ballots_majority [OF assms(6) inv0] weighted_poll_new_majority [OF assms(1-3)] by blast
  have len: "length (wp_tallies p) = n" and q: "wp_quorum p = s_quorum snap"
    using cast_ballots_frame [OF assms(6)] by (simp_all add: weighted_poll_new_def)
  have wf: "tallies_wf (wp_tallies p ! unat k)" and tot: "tally_total (wp_tallies p ! unat k) < 2 * unat (wp_quorum p)"
    using inv maj assms(5) len poll_voted_le_total [of p]
    by (auto simp: poll_inv_def majority_quorum_def)
  obtain c where c: "poll_consensus p k = Inr c"
    using poll_consensus_total [OF inv] assms(5) len by auto
  have "c = Some v \<longleftrightarrow> unat (s_quorum snap) \<le> weight_for ?p0 bs (unat k) v" for v
    using c assms(5) len tallies_consensus_iff [OF wf tot, of v] new_poll_tally [OF assms(6,5) inv0, of v] q
    by (auto simp: poll_consensus_def word_le_nat_alt)
  with c show ?thesis by blast
qed

theorem poll_result_is_quorum_witness:
  "(\<exists>c. poll_consensus (demo_after [(1, ''val1'', [SucceededOnChain]), (2, ''val3'', [SucceededOnChain])]) 0 = Inr c \<and>
     (\<forall>v. c = Some v \<longleftrightarrow> 3 \<le> weight_for demo_poll
        [(1, ''val1'', [SucceededOnChain]), (2, ''val3'', [SucceededOnChain])] 0 v)) \<and>
   weight_for demo_poll [(1, ''val1'', [SucceededOnChain]), (2, ''val3'', [SucceededOnChain])] 0 SucceededOnChain = 3"
proof -
  let ?bs = "[(1, ''val1'', [SucceededOnChain]), (2, ''val3'', [SucceededOnChain])]"
  have "cast_ballots demo_poll ?bs = Inr (demo_after ?bs)" by code_simp
  from poll_result_is_quorum [OF demo_snapshot_new demo_majority demo_weights _ _ this [unfolded demo_poll_def], of 0]
  have "\<exists>c. poll_consensus (demo_after ?bs) 0 = Inr c \<and>
     (\<forall>v. c = Some v \<longleftrightarrow> unat (s_quorum demo_snapshot) \<le> weight_for demo_poll ?bs 0 v)"
    by (simp add: demo_poll_def)
  moreover have "unat (s_quorum demo_snapshot) = 3" by code_simp
  moreover have "weight_for demo_poll ?bs 0 SucceededOnChain = 3" by code_simp
  ultimately show ?thesis by (simp only: simp_thms)
qed

text \<open>
  C8: A decided item stays decided. Once the poll reports a vote for an item, every later accepted vote
  leaves that report unchanged, whatever the other participants vote.
\<close>

theorem poll_decision_final:
  assumes "snapshot_new thr ps = Inr snap" "is_majority thr"
    and "sum_list (map (\<lambda>p. unat (p_weight p)) ps) < 2 ^ 128" "n < 2 ^ 64"
    and "cast_ballots (weighted_poll_new i snap e n) bs = Inr p" "cast_ballots p bs' = Inr p'"
    and "poll_consensus p k = Inr (Some v)"
  shows "poll_consensus p' k = Inr (Some v)"
proof -
  note inv0 = weighted_poll_new_inv [OF assms(1,4,3), of i e]
  have inv: "poll_inv p" using cast_ballots_inv [OF assms(5) inv0] .
  have maj: "majority_quorum p"
    using cast_ballots_majority [OF assms(5) inv0] weighted_poll_new_majority [OF assms(1-3)] by blast
  have k: "unat k < length (wp_tallies p)"
    using assms(7) by (auto simp: poll_consensus_def split: if_splits)
  then show ?thesis
    using cast_ballots_consensus_stable [OF assms(6) inv maj k, of v] cast_ballots_frame [OF assms(6)] assms(7)
    by (simp add: poll_consensus_def)
qed

theorem poll_decision_final_witness:
  "poll_consensus (demo_after [(1, ''val1'', [SucceededOnChain]), (2, ''val3'', [SucceededOnChain])]) 0 =
     Inr (Some SucceededOnChain) \<and>
   poll_consensus (demo_after [(1, ''val1'', [SucceededOnChain]), (2, ''val3'', [SucceededOnChain]),
     (3, ''val2'', [FailedOnChain])]) 0 = Inr (Some SucceededOnChain)"
proof -
  let ?bs = "[(1, ''val1'', [SucceededOnChain]), (2, ''val3'', [SucceededOnChain])]"
  let ?b = "(3, ''val2'', [FailedOnChain])"
  have 1: "cast_ballots demo_poll ?bs = Inr (demo_after ?bs)" by code_simp
  have 2: "cast_ballots (demo_after ?bs) [?b] = Inr (demo_after (?bs @ [?b]))" by code_simp
  have 3: "poll_consensus (demo_after ?bs) 0 = Inr (Some SucceededOnChain)" by code_simp
  show ?thesis
    using 3 poll_decision_final [OF demo_snapshot_new demo_majority demo_weights _ 1 [unfolded demo_poll_def] 2 3]
    by simp
qed

text \<open>
  C11: A participant votes at most once: after an accepted vote, no later vote of the same sender is
  accepted, however many other votes come between.
\<close>

theorem no_double_vote:
  assumes "poll_inv p" "cast_vote p h sender votes = Inr p1" "cast_ballots p1 bs = Inr p2"
  shows "\<exists>err. cast_vote p2 h' sender votes' = Inl err"
proof -
  have "map_option part_voted (map_of (wp_participation p2) sender) = Some True"
    using assms cast_ballots_marks [OF assms(3) cast_vote_inv [OF assms(1,2)]]
      cast_vote_marks [OF _ assms(2), of sender] by (simp add: poll_inv_def)
  then show ?thesis by (auto simp: cast_vote_def)
qed

theorem no_double_vote_witness:
  "\<exists>err. cast_vote (demo_after [(1, ''val1'', [SucceededOnChain]), (2, ''val3'', [FailedOnChain])])
     3 ''val1'' [SucceededOnChain] = Inl err"
proof -
  let ?b = "(1, ''val1'', [SucceededOnChain])" and ?c = "(2, ''val3'', [FailedOnChain])"
  have 1: "cast_vote demo_poll 1 ''val1'' [SucceededOnChain] = Inr (demo_after [?b])" by code_simp
  have 2: "cast_ballots (demo_after [?b]) [?c] = Inr (demo_after [?b, ?c])" by code_simp
  show ?thesis by (rule no_double_vote [OF demo_poll_inv 1 2])
qed

text \<open>
  C12: The order in which two participants vote does not matter: if \<open>a\<close>'s vote and then \<open>b\<close>'s are
  accepted, they are also accepted in the other order, and the resulting poll is the same.
\<close>

theorem votes_commute:
  assumes "poll_inv p" "a \<noteq> b" "cast_vote p ha a va = Inr p1" "cast_vote p1 hb b vb = Inr p2"
  shows "\<exists>q. cast_vote p hb b vb = Inr q \<and> cast_vote q ha a va = Inr p2"
proof -
  have la: "length (wp_tallies p) \<le> length va" "length (wp_tallies p) \<le> length vb"
    using cast_vote_size [OF assms(1,3)] cast_vote_size [OF cast_vote_inv [OF assms(1,3)] assms(4)]
      cast_vote_frame(6) [OF assms(3)] by simp_all
  have wf: "bt_wf (wp_participation p)" "\<forall>t \<in> set (wp_tallies p). tallies_wf t"
    using assms(1) by (simp_all add: poll_inv_def)
  from assms(3,4,2) wf(1) show ?thesis
    by (auto simp: cast_vote_def result_simps map_of_bt_insert tally_votes_commute [OF wf(2) la]
        bt_insert_commute [OF wf(1)] split: if_splits)
qed

theorem votes_commute_witness:
  "\<exists>q. cast_vote demo_poll 2 ''val3'' [FailedOnChain] = Inr q \<and>
     cast_vote q 1 ''val1'' [SucceededOnChain] =
       Inr (demo_after [(1, ''val1'', [SucceededOnChain]), (2, ''val3'', [FailedOnChain])])"
proof -
  let ?b = "(1, ''val1'', [SucceededOnChain])" and ?c = "(2, ''val3'', [FailedOnChain])"
  have 1: "cast_vote demo_poll 1 ''val1'' [SucceededOnChain] = Inr (demo_after [?b])" by code_simp
  have 2: "cast_vote (demo_after [?b]) 2 ''val3'' [FailedOnChain] = Inr (demo_after [?b, ?c])" by code_simp
  show ?thesis by (rule votes_commute [OF demo_poll_inv _ 1 2]) simp
qed

end
