(* ===== verification/Xrpl_Types.thy ===== *)
theory Xrpl_Types
  imports Voting "HOL-Library.Product_Lexorder"
begin

text \<open>
  The data the three XRPL contracts exchange. The types of the crate \<open>xrpl_types\<close> are records and
  datatypes with the fields and variants the contracts build and match on; the crate is not part of the
  repository, so its functions are the fields of a record \<open>xrpl_lib\<close> that the definitions take as an
  argument, and what a theorem relies on is a named hypothesis about that record. A 20 byte account id
  and a 20 byte currency are identified with the bytes \<open>as_bytes\<close> returns.
\<close>

section \<open>Identifiers\<close>

type_synonym xrpl_account_id = bytes
type_synonym xrpl_currency = bytes
type_synonym tx_hash = bytes
type_synonym chain_name = string
type_synonym token_id = bytes

record cross_chain_id =
  source_chain :: chain_name
  message_id :: string

datatype public_key = Ecdsa bytes | Ed25519 bytes

section \<open>Tokens and amounts\<close>

record xrpl_token =
  tok_issuer :: xrpl_account_id
  tok_currency :: xrpl_currency

record xrpl_token_amount =
  ta_mantissa :: u64
  ta_exponent :: int

datatype xrpl_payment_amount = Drops u64 | Issued xrpl_token xrpl_token_amount

section \<open>Transactions\<close>

datatype xrpl_sequence = Plain u32 | Ticket u32

datatype xrpl_path_step =
    PathAccount xrpl_account_id
  | PathCurrency xrpl_currency
  | PathXRP
  | PathIssuer xrpl_account_id
  | PathToken xrpl_token

record xrpl_cross_currency_options =
  cco_send_max :: xrpl_payment_amount
  cco_paths :: "xrpl_path_step list list option"

record xrpl_payment_tx =
  pay_account :: xrpl_account_id
  pay_fee :: u64
  pay_sequence :: xrpl_sequence
  pay_amount :: xrpl_payment_amount
  pay_destination :: xrpl_account_id
  pay_cross_currency :: "xrpl_cross_currency_options option"
  pay_cc_id :: "cross_chain_id option"

record xrpl_ticket_create_tx =
  tc_account :: xrpl_account_id
  tc_fee :: u64
  tc_sequence :: xrpl_sequence
  tc_ticket_count :: u32

record xrpl_trust_set_tx =
  ts_account :: xrpl_account_id
  ts_fee :: u64
  ts_sequence :: xrpl_sequence
  ts_token :: xrpl_token

record xrpl_signer_entry =
  se_account :: xrpl_account_id
  se_signer_weight :: u16

record xrpl_signer_list_set_tx =
  sl_account :: xrpl_account_id
  sl_fee :: u64
  sl_sequence :: xrpl_sequence
  sl_signer_quorum :: u32
  sl_signer_entries :: "xrpl_signer_entry list"

datatype xrpl_unsigned_tx =
    Payment xrpl_payment_tx
  | TicketCreate xrpl_ticket_create_tx
  | SignerListSet xrpl_signer_list_set_tx
  | TrustSet xrpl_trust_set_tx

datatype xrpl_unsigned_tx_type = TypePayment | TypeTicketCreate | TypeSignerListSet | TypeTrustSet

datatype xrpl_tx_status = TxSucceeded | TxFailedOnChain | TxInconclusive | TxPending

record xrpl_unsigned_tx_to_sign =
  tts_unsigned_tx :: xrpl_unsigned_tx
  tts_unsigned_tx_hash :: tx_hash
  tts_cc_id :: "cross_chain_id option"

record xrpl_signer =
  sg_account :: xrpl_account_id
  sg_txn_signature :: bytes
  sg_signing_pub_key :: public_key

record xrpl_signed_tx =
  stx_unsigned_tx :: xrpl_unsigned_tx
  stx_signers :: "xrpl_signer list"
  stx_unsigned_tx_hash :: tx_hash
  stx_cc_id :: "cross_chain_id option"

record xrpl_memo =
  memo_type :: bytes
  memo_data :: bytes

record axelar_signer =
  as_address :: addr
  as_weight :: u16
  as_pub_key :: public_key

section \<open>Messages relayed between the contracts\<close>

text \<open>\<open>xrpl_types::msg\<close>: the transactions on XRPL that verifiers vote on.\<close>

record xrpl_interchain_transfer_message =
  itm_tx_id :: tx_hash
  itm_source_address :: xrpl_account_id
  itm_destination_chain :: chain_name
  itm_destination_address :: string
  itm_payload_hash :: "bytes option"
  itm_transfer_amount :: xrpl_payment_amount
  itm_gas_fee_amount :: xrpl_payment_amount

record xrpl_call_contract_message =
  ccm_tx_id :: tx_hash
  ccm_source_address :: xrpl_account_id
  ccm_destination_chain :: chain_name
  ccm_destination_address :: string
  ccm_payload_hash :: bytes
  ccm_gas_fee_amount :: xrpl_payment_amount

record xrpl_add_gas_message =
  agm_tx_id :: tx_hash
  agm_msg_tx_id :: tx_hash
  agm_amount :: xrpl_payment_amount
  agm_source_address :: xrpl_account_id

record xrpl_add_reserves_message =
  arm_tx_id :: tx_hash
  arm_amount :: u64

record xrpl_prover_message =
  pm_tx_id :: tx_hash
  pm_unsigned_tx_hash :: tx_hash

datatype xrpl_message =
    InterchainTransferMessage xrpl_interchain_transfer_message
  | CallContractMessage xrpl_call_contract_message
  | AddGasMessage xrpl_add_gas_message
  | AddReservesMessage xrpl_add_reserves_message
  | ProverMessage xrpl_prover_message

section \<open>The functions of the crate\<close>

datatype xrpl_error = XRPLError string

text \<open>
  One field per function of \<open>xrpl_types\<close> the contracts call: the hash of an unsigned transaction, the
  hexadecimal text of a hash, the sequence or ticket number of a transaction, by how much a confirmed
  transaction moves the account's sequence number, how many ledger objects a transaction may add, the
  bytes of an issued amount, the conversions between signers, participants and signer list entries, and
  the conversions of amounts, addresses and statuses; and the digest \<open>Keccak256\<close> of the crate \<open>sha3\<close>.
\<close>

record xrpl_lib =
  hash_unsigned_tx :: "xrpl_unsigned_tx \<Rightarrow> xrpl_error + tx_hash"
  tx_hash_as_hex_no_prefix :: "tx_hash \<Rightarrow> string"
  tx_sequence_number :: "xrpl_unsigned_tx \<Rightarrow> u32"
  sequence_number_increment :: "xrpl_unsigned_tx \<Rightarrow> xrpl_tx_status \<Rightarrow> xrpl_error + u32"
  object_count_increment :: "xrpl_unsigned_tx_type \<Rightarrow> u8"
  token_amount_as_bytes :: "xrpl_token_amount \<Rightarrow> xrpl_error + bytes"
  token_amount_max :: xrpl_token_amount
  signer_entry_from :: "axelar_signer \<Rightarrow> xrpl_signer_entry"
  participant_try_from :: "axelar_signer \<Rightarrow> participant option"
  axelar_signer_le :: "axelar_signer \<Rightarrow> axelar_signer \<Rightarrow> bool"
  account_id_from_pub_key :: "public_key \<Rightarrow> xrpl_account_id"
  account_id_from_str :: "string \<Rightarrow> xrpl_account_id option"
  message_to_sign :: "bytes \<Rightarrow> xrpl_account_id \<Rightarrow> xrpl_error + bytes"
  canonicalize_token_amount :: "u256 \<Rightarrow> u8 \<Rightarrow> xrpl_error + xrpl_token_amount"
  payment_amount_is_zero :: "xrpl_payment_amount \<Rightarrow> bool"
  token_is_remote :: "xrpl_token \<Rightarrow> xrpl_account_id \<Rightarrow> bool"
  tx_status_from :: "verification_status \<Rightarrow> xrpl_tx_status"
  xrp_max_uint :: u64
  message_hash :: "xrpl_message \<Rightarrow> tx_hash"
  keccak256_digest :: "bytes \<Rightarrow> bytes"

text \<open>The sequence or ticket number a transaction carries, read off its data.\<close>

primrec sequence_u32 :: "xrpl_sequence \<Rightarrow> u32" where
  "sequence_u32 (Plain n) = n"
| "sequence_u32 (Ticket n) = n"

primrec unsigned_tx_sequence :: "xrpl_unsigned_tx \<Rightarrow> xrpl_sequence" where
  "unsigned_tx_sequence (Payment tx) = pay_sequence tx"
| "unsigned_tx_sequence (TicketCreate tx) = tc_sequence tx"
| "unsigned_tx_sequence (SignerListSet tx) = sl_sequence tx"
| "unsigned_tx_sequence (TrustSet tx) = ts_sequence tx"

section \<open>Errors of the multisig prover\<close>

datatype (plugins only: code) prover_error =
    DataNotSupported
  | DivisionByZero
  | ExecutionDisabled
  | FailedToBuildVerifierSet
  | FailedToGetLinkedTokenId xrpl_token
  | FailedToGetTokenInstanceDecimals token_id chain_name
  | FailedToGetXrplToken token_id
  | FailedToGetXrpTokenId
  | FailedToGetMessages
  | FailedToGetMessagesStatus "xrpl_message list"
  | FailedToGetMessageStatus xrpl_message
  | FailedToGetMultisigSession u64
  | FailedToStartMultisigSession string
  | FailedToUpdateAdmin
  | InsufficientFeeReserve u64 u64
  | InvalidAmount string
  | InvalidBlobLength
  | InvalidContractReply string
  | InvalidDestinationAddress
  | InvalidDestinationChain chain_name chain_name
  | InvalidPayload
  | InvalidSignature
  | InvalidSigner axelar_signer
  | InvalidTransferAmount chain_name u256
  | InvalidTxStatus xrpl_tx_status
  | MessageNotFound cross_chain_id
  | NoAvailableTickets
  | NoVerifierSet
  | NoVerifierSetToConfirm
  | NotEnoughVerifiers
  | Overflow
  | ParseReply string
  | PayloadHashMismatch bytes bytes
  | PaymentAlreadyHasActiveSigningSession u64
  | PaymentAlreadySucceeded cross_chain_id
  | PaymentMissingCrossChainId
  | QuorumTooLarge u64
  | SignerListMismatch
  | Std std_error
  | TicketCountThresholdNotReached
  | TooManyAvailableTickets
  | TooManyPaths
  | TooManyPathSteps "xrpl_path_step list"
  | TokenNotLocal xrpl_token
  | TrustLineAlreadyExists xrpl_token
  | TxStatusAlreadyConfirmed
  | TxStatusUnknown
  | TxStatusVerificationInProgress
  | Underflow
  | VerifierSetConfirmationInProgress
  | VerifierSetUnchanged
  | XRPLTypeConversionError xrpl_error
  | ZeroPaths
  | ZeroPathSteps "xrpl_path_step list"
  | PermissionError permission_error
  | ProverPanic string

end
