(* ===== verification/Xrpl_Serialize.thy ===== *)
theory Xrpl_Serialize
  imports Xrpl_Types
begin

unbundle bit_operations_syntax

text \<open>
  The XRPL binary format of the transactions the prover asks the multisig to sign
  (\<open>contracts/xrpl-multisig-prover/src/xrpl_serialize.rs\<close>). A value of a type that implements
  \<open>XRPLSerialize\<close> is the pair of its type code and the result of \<open>xrpl_serialize\<close>. The lemmas show that
  lengths, field headers and values are self-delimiting, so that two different transactions never have
  the same bytes to sign.
\<close>

section \<open>Fields\<close>

definition PAYMENT_TX_TYPE :: u16 where "PAYMENT_TX_TYPE = 0"
definition TICKET_CREATE_TX_TYPE :: u16 where "TICKET_CREATE_TX_TYPE = 10"
definition SIGNER_LIST_SET_TX_TYPE :: u16 where "SIGNER_LIST_SET_TX_TYPE = 12"
definition TRUST_SET_TX_TYPE :: u16 where "TRUST_SET_TX_TYPE = 20"
definition POSITIVE_BIT :: u64 where "POSITIVE_BIT = 0x4000000000000000"

datatype field =
    SigningPubKey | TxnSignature | Account | SignerWeight | MemoType | MemoData | TransactionType
  | Flags | Sequence | TicketSequence | Amount | Fee | Destination | SignerQuorum | SignerEntries
  | SignerEntry | Memos | Memo | TicketCount | Signers | Signer | LimitAmount | SendMax | Paths

primrec field_to_u8 :: "field \<Rightarrow> u8" where
  "field_to_u8 SigningPubKey = 3"
| "field_to_u8 TxnSignature = 4"
| "field_to_u8 Account = 1"
| "field_to_u8 SignerWeight = 3"
| "field_to_u8 MemoType = 12"
| "field_to_u8 MemoData = 13"
| "field_to_u8 TransactionType = 2"
| "field_to_u8 Flags = 2"
| "field_to_u8 Amount = 1"
| "field_to_u8 Fee = 8"
| "field_to_u8 Destination = 3"
| "field_to_u8 Sequence = 4"
| "field_to_u8 TicketSequence = 41"
| "field_to_u8 SignerQuorum = 35"
| "field_to_u8 SignerEntries = 4"
| "field_to_u8 SignerEntry = 11"
| "field_to_u8 Memos = 9"
| "field_to_u8 Memo = 10"
| "field_to_u8 TicketCount = 40"
| "field_to_u8 Signers = 3"
| "field_to_u8 Signer = 16"
| "field_to_u8 LimitAmount = 3"
| "field_to_u8 SendMax = 9"
| "field_to_u8 Paths = 1"

definition field_id :: "u8 \<Rightarrow> u8 \<Rightarrow> bytes" where
  "field_id type_code field_code =
     (if type_code < 16
      then if field_code < 16 then [push_bit 4 type_code OR field_code]
           else [push_bit 4 type_code, field_code]
      else if field_code < 16 then [field_code, type_code]
      else [0, type_code, field_code])"

section \<open>Values\<close>

type_synonym xrpl_value = "u8 \<times> (prover_error + bytes)"

definition serialize_u16 :: "u16 \<Rightarrow> prover_error + bytes" where
  "serialize_u16 v = Inr (be_bytes 2 v)"

definition serialize_u32 :: "u32 \<Rightarrow> prover_error + bytes" where
  "serialize_u32 v = Inr (be_bytes 4 v)"

primrec serialize_amount :: "xrpl_lib \<Rightarrow> xrpl_payment_amount \<Rightarrow> prover_error + bytes" where
  "serialize_amount lib (Drops v) =
     (if v \<le> 10 ^ 17 then Inr (be_bytes 8 (v OR POSITIVE_BIT))
      else Inl (InvalidAmount ''more than maximum amount of drops''))"
| "serialize_amount lib (Issued token amount) =
     rbind (map_err XRPLTypeConversionError (token_amount_as_bytes lib amount)) (\<lambda>b.
     Inr (b @ tok_currency token @ tok_issuer token))"

definition encode_length :: "nat \<Rightarrow> prover_error + bytes" where
  "encode_length len =
     (if len \<le> 192 then
        rbind (ok_or Overflow (try_of_nat len)) (\<lambda>b. Inr [b])
      else if len \<le> 12480 then
        (let l = saturating_sub len 193
         in rbind (ok_or Overflow (try_of_nat (drop_bit 8 l))) (\<lambda>h.
            rbind (ok_or Overflow (checked_add 193 h)) (\<lambda>b0.
            rbind (ok_or Overflow (try_of_nat (l AND 0xff))) (\<lambda>b1.
            Inr [b0, b1]))))
      else if len \<le> 918744 then
        (let l = saturating_sub len 12481
         in rbind (ok_or Overflow (try_of_nat (drop_bit 16 l))) (\<lambda>h.
            rbind (ok_or Overflow (checked_add 241 h)) (\<lambda>b0.
            rbind (ok_or Overflow (try_of_nat (drop_bit 8 l AND 0xff))) (\<lambda>b1.
            rbind (ok_or Overflow (try_of_nat (l AND 0xff))) (\<lambda>b2.
            Inr [b0, b1, b2])))))
      else Inl InvalidBlobLength)"

definition serialize_blob :: "bytes \<Rightarrow> prover_error + bytes" where
  "serialize_blob contents =
     rbind (encode_length (length contents)) (\<lambda>len_encoded. Inr (len_encoded @ contents))"

primrec serialize_public_key :: "public_key \<Rightarrow> prover_error + bytes" where
  "serialize_public_key (Ed25519 hex) = serialize_blob (0xED # hex)"
| "serialize_public_key (Ecdsa hex) = serialize_blob hex"

definition serialize_account_id :: "xrpl_account_id \<Rightarrow> prover_error + bytes" where
  "serialize_account_id a = Inr (20 # a)"

primrec serialize_path_step :: "xrpl_path_step \<Rightarrow> bytes" where
  "serialize_path_step (PathAccount account) = 0x01 # account"
| "serialize_path_step (PathCurrency currency) = 0x10 # currency"
| "serialize_path_step PathXRP = 0x10 # replicate 20 0"
| "serialize_path_step (PathIssuer issuer) = 0x20 # issuer"
| "serialize_path_step (PathToken token) = 0x30 # tok_currency token @ tok_issuer token"

definition serialize_path :: "xrpl_path_step list \<Rightarrow> prover_error + bytes" where
  "serialize_path steps =
     (if steps = [] then Inl (ZeroPathSteps steps)
      else if length steps > 8 then Inl (TooManyPathSteps steps)
      else Inr (concat (map serialize_path_step steps)))"

fun serialize_paths :: "xrpl_path_step list list \<Rightarrow> prover_error + bytes" where
  "serialize_paths [] = Inr []"
| "serialize_paths (path # paths) =
     rbind (serialize_path path) (\<lambda>b.
     rbind (serialize_paths paths) (\<lambda>bs.
     Inr (b @ (if paths \<noteq> [] then 0xff else 0x00) # bs)))"

definition serialize_path_set :: "xrpl_path_step list list \<Rightarrow> prover_error + bytes" where
  "serialize_path_set paths =
     (if paths = [] then Inl ZeroPaths
      else if length paths > 6 then Inl TooManyPaths
      else serialize_paths paths)"

section \<open>Objects\<close>

record serialized_field =
  sf_type_code :: u8
  sf_field_code :: u8
  sf_serialized_value :: bytes

type_synonym xrpl_object = "serialized_field list"

definition serialized_field_key :: "serialized_field \<Rightarrow> u8 \<times> u8" where
  "serialized_field_key f = (sf_type_code f, sf_field_code f)"

definition add_field :: "xrpl_object \<Rightarrow> field \<Rightarrow> xrpl_value \<Rightarrow> prover_error + xrpl_object" where
  "add_field obj f v =
     rbind (snd v) (\<lambda>b.
     Inr (obj @ [\<lparr>sf_type_code = fst v, sf_field_code = field_to_u8 f, sf_serialized_value = b\<rparr>]))"

definition xrpl_json :: "(field \<times> xrpl_value) list \<Rightarrow> prover_error + xrpl_object" where
  "xrpl_json fvs = try_fold (\<lambda>obj (f, v). add_field obj f v) [] fvs"

definition serialize_object :: "xrpl_object \<Rightarrow> bytes" where
  "serialize_object obj =
     concat (map (\<lambda>f. field_id (sf_type_code f) (sf_field_code f) @ sf_serialized_value f)
       (sort_key serialized_field_key obj))"

text \<open>The type codes of the implementations of \<open>XRPLSerialize\<close>, with the value serialized.\<close>

abbreviation v_u16 :: "u16 \<Rightarrow> xrpl_value" where "v_u16 v \<equiv> (1, serialize_u16 v)"
abbreviation v_u32 :: "u32 \<Rightarrow> xrpl_value" where "v_u32 v \<equiv> (2, serialize_u32 v)"
abbreviation v_amount :: "xrpl_lib \<Rightarrow> xrpl_payment_amount \<Rightarrow> xrpl_value" where
  "v_amount lib a \<equiv> (6, serialize_amount lib a)"
abbreviation v_blob :: "bytes \<Rightarrow> xrpl_value" where "v_blob b \<equiv> (7, serialize_blob b)"
abbreviation v_public_key :: "public_key \<Rightarrow> xrpl_value" where "v_public_key k \<equiv> (7, serialize_public_key k)"
abbreviation v_account_id :: "xrpl_account_id \<Rightarrow> xrpl_value" where
  "v_account_id a \<equiv> (8, serialize_account_id a)"
abbreviation v_path_set :: "xrpl_path_step list list \<Rightarrow> xrpl_value" where
  "v_path_set p \<equiv> (18, serialize_path_set p)"

abbreviation object_type_code :: u8 where "object_type_code \<equiv> 14"
abbreviation array_type_code :: u8 where "array_type_code \<equiv> 15"

definition add_sequence :: "xrpl_object \<Rightarrow> xrpl_sequence \<Rightarrow> prover_error + xrpl_object" where
  "add_sequence obj sequence =
     (case sequence of
        Plain n \<Rightarrow> add_field obj Sequence (v_u32 n)
      | Ticket n \<Rightarrow>
          rbind (add_field obj Sequence (v_u32 0)) (\<lambda>obj.
          add_field obj TicketSequence (v_u32 n)))"

text \<open>An array of objects: each item between its header and the end of object, then the end of array.\<close>

definition serialize_array :: "field \<Rightarrow> ('t \<Rightarrow> prover_error + xrpl_object) \<Rightarrow> 't list \<Rightarrow> prover_error + bytes" where
  "serialize_array f into_object items =
     rbind (try_map (\<lambda>x. rbind (into_object x) (\<lambda>obj. Inr (serialize_object obj))) items) (\<lambda>bs.
     Inr (concat (map (\<lambda>b. field_id object_type_code (field_to_u8 f) @ b @ field_id object_type_code 1) bs)
          @ field_id array_type_code 1))"

definition signer_object :: "xrpl_signer \<Rightarrow> prover_error + xrpl_object" where
  "signer_object s =
     xrpl_json
       [(SigningPubKey, v_public_key (sg_signing_pub_key s)),
        (TxnSignature, v_blob (sg_txn_signature s)),
        (Account, v_account_id (sg_account s))]"

definition signer_entry_object :: "xrpl_signer_entry \<Rightarrow> prover_error + xrpl_object" where
  "signer_entry_object e =
     xrpl_json
       [(Account, v_account_id (se_account e)),
        (SignerWeight, v_u16 (se_signer_weight e))]"

definition memo_object :: "xrpl_memo \<Rightarrow> prover_error + xrpl_object" where
  "memo_object m = xrpl_json [(MemoType, v_blob (memo_type m)), (MemoData, v_blob (memo_data m))]"

section \<open>Transactions\<close>

definition payment_object :: "xrpl_lib \<Rightarrow> xrpl_payment_tx \<Rightarrow> prover_error + xrpl_object" where
  "payment_object lib tx =
     rbind (xrpl_json
       [(TransactionType, v_u16 PAYMENT_TX_TYPE),
        (Flags, v_u32 0),
        (Amount, v_amount lib (pay_amount tx)),
        (Fee, v_amount lib (Drops (pay_fee tx))),
        (Account, v_account_id (pay_account tx)),
        (SigningPubKey, v_blob []),
        (Destination, v_account_id (pay_destination tx))]) (\<lambda>obj.
     rbind (add_sequence obj (pay_sequence tx)) (\<lambda>obj.
     case pay_cross_currency tx of
       None \<Rightarrow> Inr obj
     | Some cross_currency \<Rightarrow>
         rbind (add_field obj SendMax (v_amount lib (cco_send_max cross_currency))) (\<lambda>obj.
         case cco_paths cross_currency of
           None \<Rightarrow> Inr obj
         | Some paths \<Rightarrow> add_field obj Paths (v_path_set paths))))"

definition signer_list_set_object :: "xrpl_lib \<Rightarrow> xrpl_signer_list_set_tx \<Rightarrow> prover_error + xrpl_object" where
  "signer_list_set_object lib tx =
     rbind (xrpl_json
       [(TransactionType, v_u16 SIGNER_LIST_SET_TX_TYPE),
        (Flags, v_u32 0),
        (SignerQuorum, v_u32 (sl_signer_quorum tx)),
        (Fee, v_amount lib (Drops (sl_fee tx))),
        (Account, v_account_id (sl_account tx)),
        (SigningPubKey, v_blob []),
        (SignerEntries,
          (array_type_code, serialize_array SignerEntry signer_entry_object (sl_signer_entries tx)))])
     (\<lambda>obj. add_sequence obj (sl_sequence tx))"

definition ticket_create_object :: "xrpl_lib \<Rightarrow> xrpl_ticket_create_tx \<Rightarrow> prover_error + xrpl_object" where
  "ticket_create_object lib tx =
     rbind (xrpl_json
       [(TransactionType, v_u16 TICKET_CREATE_TX_TYPE),
        (Flags, v_u32 0),
        (TicketCount, v_u32 (tc_ticket_count tx)),
        (Fee, v_amount lib (Drops (tc_fee tx))),
        (Account, v_account_id (tc_account tx)),
        (SigningPubKey, v_blob [])])
     (\<lambda>obj. add_sequence obj (tc_sequence tx))"

definition trust_set_object :: "xrpl_lib \<Rightarrow> xrpl_trust_set_tx \<Rightarrow> prover_error + xrpl_object" where
  "trust_set_object lib tx =
     rbind (xrpl_json
       [(TransactionType, v_u16 TRUST_SET_TX_TYPE),
        (Flags, v_u32 0),
        (LimitAmount, v_amount lib (Issued (ts_token tx) (token_amount_max lib))),
        (Fee, v_amount lib (Drops (ts_fee tx))),
        (Account, v_account_id (ts_account tx)),
        (SigningPubKey, v_blob [])])
     (\<lambda>obj. add_sequence obj (ts_sequence tx))"

primrec unsigned_tx_object :: "xrpl_lib \<Rightarrow> xrpl_unsigned_tx \<Rightarrow> prover_error + xrpl_object" where
  "unsigned_tx_object lib (Payment tx) = payment_object lib tx"
| "unsigned_tx_object lib (TicketCreate tx) = ticket_create_object lib tx"
| "unsigned_tx_object lib (SignerListSet tx) = signer_list_set_object lib tx"
| "unsigned_tx_object lib (TrustSet tx) = trust_set_object lib tx"

definition tx_to_sign_memos :: "xrpl_lib \<Rightarrow> xrpl_unsigned_tx_to_sign \<Rightarrow> prover_error + xrpl_memo list" where
  "tx_to_sign_memos lib t =
     rbind (map_err XRPLTypeConversionError (hash_unsigned_tx lib (tts_unsigned_tx t))) (\<lambda>h.
     Inr ([\<lparr>memo_type = string_bytes ''type'', memo_data = string_bytes ''proof''\<rparr>,
           \<lparr>memo_type = string_bytes ''unsigned_tx_hash'',
            memo_data = string_bytes (tx_hash_as_hex_no_prefix lib h)\<rparr>] @
          (case tts_cc_id t of
             None \<Rightarrow> []
           | Some cc_id \<Rightarrow>
               [\<lparr>memo_type = string_bytes ''source_chain'', memo_data = string_bytes (source_chain cc_id)\<rparr>,
                \<lparr>memo_type = string_bytes ''message_id'', memo_data = string_bytes (message_id cc_id)\<rparr>])))"

definition tx_to_sign_object :: "xrpl_lib \<Rightarrow> xrpl_unsigned_tx_to_sign \<Rightarrow> prover_error + xrpl_object" where
  "tx_to_sign_object lib t =
     rbind (unsigned_tx_object lib (tts_unsigned_tx t)) (\<lambda>obj.
     rbind (tx_to_sign_memos lib t) (\<lambda>memos.
     add_field obj Memos (array_type_code, serialize_array Memo memo_object memos)))"

definition signed_tx_object :: "xrpl_lib \<Rightarrow> xrpl_signed_tx \<Rightarrow> prover_error + xrpl_object" where
  "signed_tx_object lib t =
     (let sorted_signers = sort_key sg_account (stx_signers t)
      in rbind (map_err XRPLTypeConversionError (hash_unsigned_tx lib (stx_unsigned_tx t))) (\<lambda>h.
         rbind (tx_to_sign_object lib
           \<lparr>tts_unsigned_tx = stx_unsigned_tx t, tts_unsigned_tx_hash = h, tts_cc_id = stx_cc_id t\<rparr>) (\<lambda>obj.
         add_field obj Signers (array_type_code, serialize_array Signer signer_object sorted_signers))))"

text \<open>\<open>xrpl_serialize\<close> of anything that converts into an object.\<close>

definition serialize_unsigned_tx :: "xrpl_lib \<Rightarrow> xrpl_unsigned_tx \<Rightarrow> prover_error + bytes" where
  "serialize_unsigned_tx lib tx = rbind (unsigned_tx_object lib tx) (\<lambda>obj. Inr (serialize_object obj))"

definition serialize_tx_to_sign :: "xrpl_lib \<Rightarrow> xrpl_unsigned_tx_to_sign \<Rightarrow> prover_error + bytes" where
  "serialize_tx_to_sign lib t = rbind (tx_to_sign_object lib t) (\<lambda>obj. Inr (serialize_object obj))"

definition serialize_signed_tx :: "xrpl_lib \<Rightarrow> xrpl_signed_tx \<Rightarrow> prover_error + bytes" where
  "serialize_signed_tx lib t = rbind (signed_tx_object lib t) (\<lambda>obj. Inr (serialize_object obj))"

section \<open>Lengths\<close>

text \<open>The reader of the ledger's length prefix, as its format defines it.\<close>

fun decode_length :: "bytes \<Rightarrow> (nat \<times> bytes) option" where
  "decode_length [] = None"
| "decode_length (b0 # r) =
     (if b0 \<le> 192 then Some (unat b0, r)
      else if b0 \<le> 240 then
        (case r of
           b1 # r \<Rightarrow> Some (193 + (unat b0 - 193) * 256 + unat b1, r)
         | [] \<Rightarrow> None)
      else if b0 \<le> 254 then
        (case r of
           b1 # b2 # r \<Rightarrow> Some (12481 + (unat b0 - 241) * 65536 + unat b1 * 256 + unat b2, r)
         | _ \<Rightarrow> None)
      else None)"

lemma nat_and_ff: "n AND 255 = (n::nat) mod 256"
proof -
  have "n AND 255 = n AND mask 8" by (simp add: mask_eq_exp_minus_1)
  then show ?thesis by (simp add: take_bit_eq_mask [symmetric] take_bit_eq_mod)
qed

lemma base256_digits: "(m::nat) div 65536 * 65536 + m div 256 mod 256 * 256 + m mod 256 = m"
proof -
  have "m div 65536 = m div 256 div 256" by (simp add: div_mult2_eq [symmetric])
  then have "m div 65536 * 256 + m div 256 mod 256 = m div 256" by (simp add: div_mult_mod_eq)
  then have "m = (m div 65536 * 256 + m div 256 mod 256) * 256 + m mod 256"
    by (simp only:) (simp add: div_mult_mod_eq)
  then show ?thesis by (simp add: algebra_simps)
qed

lemma encode_length_cases:
  "n \<le> 192 \<Longrightarrow> encode_length n = Inr [of_nat n]"
  "192 < n \<Longrightarrow> n \<le> 12480 \<Longrightarrow>
     encode_length n = Inr [of_nat (193 + (n - 193) div 256), of_nat ((n - 193) mod 256)]"
  "12480 < n \<Longrightarrow> n \<le> 918744 \<Longrightarrow>
     encode_length n = Inr [of_nat (241 + (n - 12481) div 65536), of_nat ((n - 12481) div 256 mod 256),
       of_nat ((n - 12481) mod 256)]"
  "918744 < n \<Longrightarrow> encode_length n = Inl InvalidBlobLength"
  by (auto simp: encode_length_def try_of_nat_def checked_add_def saturating_sub_def Let_def nat_and_ff
      drop_bit_eq_div unat_of_nat)

lemma encode_length_ok: "(\<exists>b. encode_length n = Inr b) \<longleftrightarrow> n \<le> 918744"
  by (cases "n \<le> 192"; cases "n \<le> 12480"; cases "n \<le> 918744") (auto simp: encode_length_cases not_le)

lemma decode_encode_length:
  assumes "encode_length n = Inr b"
  shows "decode_length (b @ r) = Some (n, r)"
proof -
  have "n \<le> 918744" using assms encode_length_ok by blast
  then consider "n \<le> 192" | "192 < n" "n \<le> 12480" | "12480 < n" "n \<le> 918744" by linarith
  then show ?thesis
  proof cases
    case 1
    then show ?thesis using assms
      by (auto simp: encode_length_cases word_le_nat_alt unat_of_nat)
  next
    case 2
    then have "(n - 193) div 256 < 48" by auto
    with 2 show ?thesis using assms
      by (auto simp: encode_length_cases word_le_nat_alt unat_of_nat unat_word_ariths)
  next
    case 3
    then have "(n - 12481) div 65536 < 14" by auto
    moreover have "12481 + (n - 12481) div 65536 * 65536 + (n - 12481) div 256 mod 256 * 256 + (n - 12481) mod 256 = n"
      using base256_digits [of "n - 12481"] 3 by linarith
    ultimately show ?thesis using assms 3
      by (auto simp: encode_length_cases word_le_nat_alt unat_of_nat unat_word_ariths)
  qed
qed

section \<open>Field headers\<close>

definition decode_field_id :: "bytes \<Rightarrow> ((u8 \<times> u8) \<times> bytes) option" where
  "decode_field_id b =
     (case b of
        [] \<Rightarrow> None
      | b0 # r \<Rightarrow>
          let t = drop_bit 4 b0; f = take_bit 4 b0
          in if t \<noteq> 0 \<and> f \<noteq> 0 then Some ((t, f), r)
             else if t \<noteq> 0 then (case r of f # r \<Rightarrow> Some ((t, f), r) | [] \<Rightarrow> None)
             else if f \<noteq> 0 then (case r of t # r \<Rightarrow> Some ((t, f), r) | [] \<Rightarrow> None)
             else (case r of t # f # r \<Rightarrow> Some ((t, f), r) | _ \<Rightarrow> None))"

lemma nibble_self: "(w::u8) < 16 \<Longrightarrow> take_bit 4 w = w"
  by (simp add: word_less_nat_alt word_unat_eq_iff unsigned_take_bit_eq take_bit_nat_eq_self_iff)

lemma nibble_bits: "(w::u8) < 16 \<Longrightarrow> bit w n \<Longrightarrow> n < 4"
  by (metis nibble_self bit_take_bit_iff)

lemma drop_nibble: "(w::u8) < 16 \<Longrightarrow> drop_bit 4 w = 0"
  by (rule bit_word_eqI) (auto simp: bit_simps dest: nibble_bits)

lemma high_nibble:
  assumes "(t::u8) < 16"
  shows "drop_bit 4 (push_bit 4 t) = t" "take_bit 4 (push_bit 4 t) = 0"
  by (rule bit_word_eqI; use assms in \<open>auto simp: bit_simps dest: nibble_bits\<close>)+

lemma decode_field_id:
  assumes "t \<noteq> 0" "f \<noteq> 0"
  shows "decode_field_id (field_id t f @ r) = Some ((t, f), r)"
  by (cases "t < 16"; cases "f < 16")
    (use assms in \<open>simp_all add: decode_field_id_def field_id_def high_nibble nibble_self drop_nibble\<close>)

lemma field_id_eq_iff:
  assumes "t \<noteq> 0" "f \<noteq> 0" "t' \<noteq> 0" "f' \<noteq> 0"
  shows "field_id t f @ r = field_id t' f' @ s \<longleftrightarrow> t = t' \<and> f = f' \<and> r = s"
proof
  assume "field_id t f @ r = field_id t' f' @ s"
  then have "decode_field_id (field_id t f @ r) = decode_field_id (field_id t' f' @ s)" by (rule arg_cong)
  then have "Some ((t, f), r) = Some ((t', f'), s)"
    unfolding decode_field_id [OF assms(1,2)] decode_field_id [OF assms(3,4)] .
  then show "t = t' \<and> f = f' \<and> r = s" by simp
qed simp

section \<open>Self-delimiting encodings\<close>

locale prefix_code =
  fixes enc :: "'a \<Rightarrow> prover_error + bytes"
    and ok :: "'a \<Rightarrow> bool"
  assumes prefix_free:
    "ok x \<Longrightarrow> ok y \<Longrightarrow> enc x = Inr b \<Longrightarrow> enc y = Inr c \<Longrightarrow> b @ r = c @ s \<Longrightarrow> x = y"
begin

lemma cut:
  assumes "ok x" "ok y" "enc x = Inr b" "enc y = Inr c" "b @ r = c @ s"
  shows "x = y \<and> b = c \<and> r = s"
  using prefix_free [OF assms] assms(3-5) by auto

lemma injective: "ok x \<Longrightarrow> ok y \<Longrightarrow> enc x = Inr b \<Longrightarrow> enc y = Inr b \<Longrightarrow> x = y"
  using prefix_free [of x y b b "[]" "[]"] by simp

lemma sequence_cut:
  assumes "\<forall>x \<in> set xs. ok x" "\<forall>y \<in> set ys. ok y" "try_map enc xs = Inr bs" "try_map enc ys = Inr cs"
    and "concat bs @ r = concat cs @ s"
    and stop: "\<And>x b q. ok x \<Longrightarrow> enc x = Inr b \<Longrightarrow> r \<noteq> b @ q \<and> s \<noteq> b @ q"
  shows "xs = ys \<and> r = s"
  using assms(1-5)
proof (induction xs arbitrary: ys bs cs)
  case Nil
  show ?case
  proof (cases ys)
    case (Cons y ys')
    then obtain c cs' where c: "enc y = Inr c" "cs = c # cs'"
      using Nil.prems(4) by (auto simp: rbind_Inr_iff)
    then show ?thesis using stop [OF _ c(1)] Nil.prems Cons by auto
  qed (use Nil in simp)
next
  case (Cons x xs)
  obtain b bs' where b: "enc x = Inr b" "try_map enc xs = Inr bs'" "bs = b # bs'"
    using Cons.prems(3) by (auto simp: rbind_Inr_iff)
  have x: "ok x" using Cons.prems(1) by simp
  obtain y ys' where ys: "ys = y # ys'"
    using Cons.prems(4,5) b(3) stop [OF x b(1), of "concat bs' @ r"] by (cases ys) auto
  then obtain c cs' where c: "enc y = Inr c" "try_map enc ys' = Inr cs'" "cs = c # cs'"
    using Cons.prems(4) by (auto simp: rbind_Inr_iff)
  have y: "ok y" and e: "b @ concat bs' @ r = c @ concat cs' @ s"
    using Cons.prems(2,5) ys b(3) c(3) by simp_all
  from cut [OF x y b(1) c(1) e] have "x = y" "concat bs' @ r = concat cs' @ s" by simp_all
  moreover have "xs = ys' \<and> r = s"
    by (rule Cons.IH [OF _ _ b(2) c(2) \<open>concat bs' @ r = concat cs' @ s\<close>])
      (use Cons.prems(1,2) ys in auto)
  ultimately show ?case using ys by simp
qed

end

interpretation u16: prefix_code serialize_u16 "\<lambda>_. True"
  by unfold_locales (auto simp: serialize_u16_def)

interpretation u32: prefix_code serialize_u32 "\<lambda>_. True"
  by unfold_locales (auto simp: serialize_u32_def)

interpretation account_id: prefix_code serialize_account_id "\<lambda>a. length a = 20"
  by unfold_locales (auto simp: serialize_account_id_def)

interpretation blob: prefix_code serialize_blob "\<lambda>_. True"
proof
  fix x y b c r s
  assume "serialize_blob x = Inr b" "serialize_blob y = Inr c" "b @ r = c @ s"
  then obtain l m where l: "encode_length (length x) = Inr l" "encode_length (length y) = Inr m"
    and e: "l @ x @ r = m @ y @ s"
    by (auto simp: serialize_blob_def result_simps)
  have "decode_length (l @ x @ r) = decode_length (m @ y @ s)" using e by (rule arg_cong)
  then have "length x = length y \<and> x @ r = y @ s"
    unfolding decode_encode_length [OF l(1)] decode_encode_length [OF l(2)] by simp
  then show "x = y" using append_eq_append_conv [of x y r s] by blast
qed

text \<open>
  What the format of issued amounts gives: eight bytes that start with the bit of an issued amount, and
  different bytes for different nonzero amounts.
\<close>

definition amount_codec :: "xrpl_lib \<Rightarrow> bool" where
  "amount_codec lib \<longleftrightarrow>
     (\<forall>a b. token_amount_as_bytes lib a = Inr b \<longrightarrow> length b = 8 \<and> 128 \<le> hd b) \<and>
     (\<forall>a a' b. token_amount_as_bytes lib a = Inr b \<longrightarrow> token_amount_as_bytes lib a' = Inr b \<longrightarrow>
        ta_mantissa a \<noteq> 0 \<longrightarrow> ta_mantissa a' \<noteq> 0 \<longrightarrow> a = a')"

definition token_wf :: "xrpl_token \<Rightarrow> bool" where
  "token_wf t \<longleftrightarrow> length (tok_currency t) = 20 \<and> length (tok_issuer t) = 20"

primrec amount_wf :: "xrpl_payment_amount \<Rightarrow> bool" where
  "amount_wf (Drops _) \<longleftrightarrow> True"
| "amount_wf (Issued t a) \<longleftrightarrow> token_wf t \<and> ta_mantissa a \<noteq> 0"

lemma not_bit_below:
  fixes w :: "'a::len word"
  assumes "unat w < 2 ^ n" "n \<le> k"
  shows "\<not> bit w k"
proof
  assume "bit w k"
  then have "bit (unat w) k" by (simp add: bit_unsigned_iff bit_imp_possible_bit)
  moreover have "unat w < 2 ^ k" using assms by (meson less_le_trans one_le_numeral power_increasing)
  ultimately show False by (simp add: bit_iff_odd)
qed

lemma drops_bits:
  assumes "v \<le> (10 ^ 17 :: u64)"
  shows "\<not> bit v 62" "\<not> bit v 63"
  by (rule not_bit_below [of _ 62], use assms in \<open>simp add: word_le_nat_alt\<close>, simp)+

lemma positive_bit: "bit POSITIVE_BIT n \<longleftrightarrow> n = 62"
proof -
  have "POSITIVE_BIT = 2 ^ 62" by (simp add: POSITIVE_BIT_def)
  show ?thesis unfolding \<open>POSITIVE_BIT = 2 ^ 62\<close> by (subst bit_exp_iff) auto
qed

lemma drops_inj:
  assumes "v \<le> (10 ^ 17 :: u64)" "w \<le> 10 ^ 17" "v OR POSITIVE_BIT = w OR POSITIVE_BIT"
  shows "v = w"
proof (rule bit_word_eqI)
  fix n
  have "bit (v OR POSITIVE_BIT) n = bit (w OR POSITIVE_BIT) n" using assms(3) by simp
  then show "bit v n = bit w n"
    using drops_bits [OF assms(1)] drops_bits [OF assms(2)] by (auto simp: bit_simps positive_bit)
qed

lemma drops_first_byte:
  assumes "v \<le> 10 ^ 17"
  shows "\<exists>h t. be_bytes 8 (v OR POSITIVE_BIT) = h # t \<and> h < 128"
proof -
  let ?h = "ucast (drop_bit 56 (v OR POSITIVE_BIT)) :: u8"
  have "bit ?h n \<Longrightarrow> n < 7" for n
    using drops_bits(2) [OF assms] by (cases "n = 7") (auto simp: bit_simps positive_bit)
  then have "take_bit 7 ?h = ?h" by (intro bit_word_eqI) (auto simp: bit_take_bit_iff)
  then have "unat ?h < 2 ^ 7" by (metis take_bit_nat_eq_self_iff unsigned_take_bit_eq)
  then have "?h < 128" by (simp add: word_less_nat_alt)
  then show ?thesis by (simp add: be_bytes_def upt_rec)
qed

lemma amount_codec_inj:
  "amount_codec lib \<Longrightarrow> token_amount_as_bytes lib a = Inr b \<Longrightarrow> token_amount_as_bytes lib a' = Inr b \<Longrightarrow>
    ta_mantissa a \<noteq> 0 \<Longrightarrow> ta_mantissa a' \<noteq> 0 \<Longrightarrow> a = a'"
  unfolding amount_codec_def by blast

lemma issued_bytes:
  assumes "amount_codec lib" "serialize_amount lib (Issued t a) = Inr b"
  obtains h c where "token_amount_as_bytes lib a = Inr (h # c)" "b = (h # c) @ tok_currency t @ tok_issuer t"
    "128 \<le> h" "length c = 7"
proof -
  obtain d where d: "token_amount_as_bytes lib a = Inr d" "b = d @ tok_currency t @ tok_issuer t"
    using assms(2) by (auto simp: result_simps)
  then have "length d = 8" "128 \<le> hd d" using assms(1) unfolding amount_codec_def by blast+
  then show ?thesis using that [of "hd d" "tl d"] d by (cases d) auto
qed

lemma amount_cut:
  assumes lib: "amount_codec lib" and wf: "amount_wf x" "amount_wf y"
    and enc: "serialize_amount lib x = Inr b" "serialize_amount lib y = Inr c"
    and eq: "b @ r = c @ s"
  shows "x = y"
proof (cases x; cases y)
  fix v w assume xy: "x = Drops v" "y = Drops w"
  then show "x = y" using enc eq by (auto split: if_splits intro: drops_inj)
next
  fix v t a assume xy: "x = Drops v" "y = Issued t a"
  obtain h d where "c = (h # d) @ tok_currency t @ tok_issuer t" "128 \<le> h"
    using issued_bytes [OF lib enc(2) [unfolded xy]] .
  moreover obtain h' d' where "b = h' # d'" "h' < 128"
    using enc(1) xy drops_first_byte [of v] by (auto split: if_splits)
  ultimately show "x = y" using eq by auto
next
  fix v t a assume xy: "x = Issued t a" "y = Drops v"
  obtain h d where "b = (h # d) @ tok_currency t @ tok_issuer t" "128 \<le> h"
    using issued_bytes [OF lib enc(1) [unfolded xy]] .
  moreover obtain h' d' where "c = h' # d'" "h' < 128"
    using enc(2) xy drops_first_byte [of v] by (auto split: if_splits)
  ultimately show "x = y" using eq by auto
next
  fix t a u e assume xy: "x = Issued t a" "y = Issued u e"
  obtain h d where d: "token_amount_as_bytes lib a = Inr (h # d)"
    "b = (h # d) @ tok_currency t @ tok_issuer t" "length d = 7"
    using issued_bytes [OF lib enc(1) [unfolded xy]] .
  obtain h' d' where d': "token_amount_as_bytes lib e = Inr (h' # d')"
    "c = (h' # d') @ tok_currency u @ tok_issuer u" "length d' = 7"
    using issued_bytes [OF lib enc(2) [unfolded xy]] .
  have "h = h' \<and> d = d' \<and> tok_currency t = tok_currency u \<and> tok_issuer t = tok_issuer u"
    using eq d(2,3) d'(2,3) wf xy by (simp add: token_wf_def)
  moreover from this have "a = e"
    using amount_codec_inj [OF lib d(1)] d'(1) wf xy by simp
  ultimately show "x = y" using xy by simp
qed

interpretation amount: prefix_code "serialize_amount lib" "\<lambda>a. amount_codec lib \<and> amount_wf a" for lib
  by unfold_locales (auto intro: amount_cut)

section \<open>Paths\<close>

primrec path_step_wf :: "xrpl_path_step \<Rightarrow> bool" where
  "path_step_wf (PathAccount a) \<longleftrightarrow> length a = 20"
| "path_step_wf (PathCurrency c) \<longleftrightarrow> length c = 20 \<and> c \<noteq> replicate 20 0"
| "path_step_wf PathXRP \<longleftrightarrow> True"
| "path_step_wf (PathIssuer a) \<longleftrightarrow> length a = 20"
| "path_step_wf (PathToken t) \<longleftrightarrow> token_wf t"

interpretation path_step: prefix_code "\<lambda>x. Inr (serialize_path_step x)" path_step_wf
proof
  fix x y b c r s
  assume "path_step_wf x" "path_step_wf y" "Inr (serialize_path_step x) = Inr b"
    "Inr (serialize_path_step y) = Inr c" "b @ r = c @ s"
  then show "x = y"
    by (cases x; cases y) (auto simp: token_wf_def append_eq_append_conv)
qed

lemma try_map_Inr: "try_map (\<lambda>x. Inr (f x)) xs = Inr (map f xs)"
  by (induction xs) auto

lemma path_cut:
  assumes "list_all path_step_wf p" "list_all path_step_wf q" "serialize_path p = Inr b" "serialize_path q = Inr c"
    and "b @ t # r = c @ u # s" "t \<in> {0, 0xff}" "u \<in> {0, 0xff}"
  shows "p = q \<and> t = u \<and> r = s"
proof -
  have "p = q \<and> t # r = u # s"
  proof (rule path_step.sequence_cut [OF _ _ try_map_Inr try_map_Inr])
    show "concat (map serialize_path_step p) @ t # r = concat (map serialize_path_step q) @ u # s"
      using assms(3-5) by (simp add: serialize_path_def split: if_splits)
    show "t # r \<noteq> b @ q \<and> u # s \<noteq> b @ q" if "Inr (serialize_path_step x) = Inr b" for x b q
      using that assms(6,7) by (cases x) auto
  qed (use assms(1,2) in \<open>simp_all add: list_all_iff\<close>)
  then show ?thesis by simp
qed

lemma paths_cut:
  assumes "\<forall>p \<in> set ps. list_all path_step_wf p" "\<forall>p \<in> set qs. list_all path_step_wf p"
    and "serialize_paths ps = Inr b" "serialize_paths qs = Inr c" "b @ r = c @ s" "ps \<noteq> []" "qs \<noteq> []"
  shows "ps = qs \<and> r = s"
  using assms
proof (induction ps arbitrary: qs b c)
  case (Cons p ps)
  obtain q qs' where qs: "qs = q # qs'" using Cons.prems(7) by (cases qs) auto
  obtain b1 b2 where b: "serialize_path p = Inr b1" "serialize_paths ps = Inr b2"
    "b = b1 @ (if ps \<noteq> [] then 0xff else 0) # b2"
    using Cons.prems(3) by (auto simp: rbind_Inr_iff)
  obtain c1 c2 where c: "serialize_path q = Inr c1" "serialize_paths qs' = Inr c2"
    "c = c1 @ (if qs' \<noteq> [] then 0xff else 0) # c2"
    using Cons.prems(4) qs by (auto simp: rbind_Inr_iff)
  have "p = q \<and> (if ps \<noteq> [] then 0xff else 0 :: u8) = (if qs' \<noteq> [] then 0xff else 0) \<and> b2 @ r = c2 @ s"
    by (rule path_cut [OF _ _ b(1) c(1)]) (use Cons.prems b c qs in auto)
  then have pq: "p = q" "ps \<noteq> [] \<longleftrightarrow> qs' \<noteq> []" "b2 @ r = c2 @ s" by (auto split: if_splits)
  show ?case
  proof (cases "ps = []")
    case True
    then show ?thesis using pq qs b(2) c(2) by auto
  next
    case False
    then have "ps = qs' \<and> r = s"
      using Cons.IH [OF _ _ b(2) c(2) pq(3)] Cons.prems(1,2) pq(2) qs by auto
    then show ?thesis using pq(1) qs by simp
  qed
qed simp

interpretation path_set: prefix_code serialize_path_set "\<lambda>ps. \<forall>p \<in> set ps. list_all path_step_wf p"
proof
  fix x y b c r s
  assume wf: "\<forall>p \<in> set x. list_all path_step_wf p" "\<forall>p \<in> set y. list_all path_step_wf p"
    and enc: "serialize_path_set x = Inr b" "serialize_path_set y = Inr c" and eq: "b @ r = c @ s"
  from enc have "serialize_paths x = Inr b" "serialize_paths y = Inr c" "x \<noteq> []" "y \<noteq> []"
    by (simp_all add: serialize_path_set_def split: if_splits)
  then show "x = y" using paths_cut [OF wf _ _ eq] by blast
qed

section \<open>A concrete library\<close>

text \<open>
  An instance of the parameter, to evaluate the definitions on: it follows the documented behaviour
  where that is simple (sequence numbers, statuses, who issues a token) and is a stand-in elsewhere
  (hashes, addresses of keys, amounts without an exponent).
\<close>

primrec key_bytes :: "public_key \<Rightarrow> bytes" where
  "key_bytes (Ecdsa b) = b"
| "key_bytes (Ed25519 b) = b"

definition demo_increment :: "xrpl_unsigned_tx \<Rightarrow> xrpl_tx_status \<Rightarrow> xrpl_error + u32" where
  "demo_increment tx st =
     (if st = TxSucceeded \<or> st = TxFailedOnChain then
        Inr (case unsigned_tx_sequence tx of
               Ticket _ \<Rightarrow> 0
             | Plain _ \<Rightarrow>
                 (case tx of
                    TicketCreate t \<Rightarrow> if st = TxSucceeded then tc_ticket_count t + 1 else 1
                  | _ \<Rightarrow> 1))
      else Inr 0)"

definition signer_rank :: "axelar_signer \<Rightarrow> string \<times> u16 \<times> bytes" where
  "signer_rank s =
     (as_address s, as_weight s, case as_pub_key s of Ecdsa b \<Rightarrow> 0 # b | Ed25519 b \<Rightarrow> 1 # b)"

definition demo_lib :: xrpl_lib where
  "demo_lib =
     \<lparr>hash_unsigned_tx = (\<lambda>tx. Inr (be_bytes 4 (sequence_u32 (unsigned_tx_sequence tx)) @ replicate 28 0)),
      tx_hash_as_hex_no_prefix = map (\<lambda>b. char_of (unat b)),
      tx_sequence_number = (\<lambda>tx. sequence_u32 (unsigned_tx_sequence tx)),
      sequence_number_increment = demo_increment,
      object_count_increment =
        (\<lambda>t. case t of TypePayment \<Rightarrow> 0 | TypeTicketCreate \<Rightarrow> 250 | TypeSignerListSet \<Rightarrow> 0 | TypeTrustSet \<Rightarrow> 1),
      token_amount_as_bytes =
        (\<lambda>a. if ta_exponent a = 0 \<and> ta_mantissa a < 2 ^ 63 then Inr (be_bytes 8 (ta_mantissa a OR 2 ^ 63))
             else Inl (XRPLError ''amount'')),
      token_amount_max = \<lparr>ta_mantissa = 9999999999999999, ta_exponent = 0\<rparr>,
      signer_entry_from =
        (\<lambda>s. \<lparr>se_account = take 20 (key_bytes (as_pub_key s) @ replicate 20 0), se_signer_weight = as_weight s\<rparr>),
      participant_try_from =
        (\<lambda>s. if as_weight s = 0 then None else Some \<lparr>p_address = as_address s, p_weight = ucast (as_weight s)\<rparr>),
      axelar_signer_le = (\<lambda>a b. signer_rank a \<le> signer_rank b),
      account_id_from_pub_key = (\<lambda>k. take 20 (key_bytes k @ replicate 20 0)),
      account_id_from_str = (\<lambda>t. if length t = 20 then Some (map of_char t) else None),
      message_to_sign = (\<lambda>b a. Inr (b @ a)),
      canonicalize_token_amount = (\<lambda>n _. Inr \<lparr>ta_mantissa = ucast n, ta_exponent = 0\<rparr>),
      payment_amount_is_zero = (\<lambda>a. case a of Drops n \<Rightarrow> n = 0 | Issued _ n \<Rightarrow> ta_mantissa n = 0),
      token_is_remote = (\<lambda>t a. tok_issuer t = a),
      tx_status_from =
        (\<lambda>s. case s of SucceededOnSourceChain \<Rightarrow> TxSucceeded | FailedOnSourceChain \<Rightarrow> TxFailedOnChain
           | NotFoundOnSourceChain \<Rightarrow> TxInconclusive | _ \<Rightarrow> TxPending),
      xrp_max_uint = 10 ^ 17,
      message_hash =
        (\<lambda>m. case m of InterchainTransferMessage x \<Rightarrow> 1 # itm_tx_id x | CallContractMessage x \<Rightarrow> 2 # ccm_tx_id x
           | AddGasMessage x \<Rightarrow> 3 # agm_tx_id x | AddReservesMessage x \<Rightarrow> 4 # arm_tx_id x
           | ProverMessage x \<Rightarrow> 5 # pm_tx_id x),
      keccak256_digest = (\<lambda>b. b)\<rparr>"

lemma issued_bit: "bit (2 ^ 63 :: u64) n \<longleftrightarrow> n = 63"
  by (subst bit_exp_iff) auto

lemma below_issued_bit: "(m :: u64) < 2 ^ 63 \<Longrightarrow> \<not> bit m 63"
  by (rule not_bit_below [of _ 63]) (simp_all add: word_less_nat_alt)

lemma issued_inj:
  assumes "(m :: u64) < 2 ^ 63" "n < 2 ^ 63" "m OR 2 ^ 63 = n OR 2 ^ 63"
  shows "m = n"
proof (rule bit_word_eqI)
  fix i
  have "bit (m OR 2 ^ 63) i = bit (n OR 2 ^ 63) i" using assms(3) by simp
  then show "bit m i = bit n i"
    using below_issued_bit [OF assms(1)] below_issued_bit [OF assms(2)] unfolding bit_or_iff issued_bit by metis
qed

lemma issued_first_byte: "128 \<le> hd (be_bytes 8 ((m :: u64) OR 2 ^ 63))"
proof -
  let ?h = "ucast (drop_bit 56 (m OR 2 ^ 63)) :: u8"
  have "bit (m OR 2 ^ 63) 63" unfolding bit_or_iff issued_bit by simp
  then have "bit ?h 7" by (simp add: bit_simps)
  then have "\<not> unat ?h < 2 ^ 7" using not_bit_below [of ?h 7 7] by blast
  then have "128 \<le> ?h" by (simp add: word_le_nat_alt)
  moreover have "hd (be_bytes 8 (m OR 2 ^ 63)) = ?h" by (simp add: be_bytes_def hd_map upt_rec del: bit_or_iff)
  ultimately show ?thesis by simp
qed

lemma demo_lib_codec: "amount_codec demo_lib"
  unfolding amount_codec_def
proof (intro conjI allI impI)
  fix a a' b
  assume "token_amount_as_bytes demo_lib a = Inr b"
  then have a: "ta_exponent a = 0" "ta_mantissa a < 2 ^ 63" "b = be_bytes 8 (ta_mantissa a OR 2 ^ 63)"
    by (simp_all add: demo_lib_def split: if_splits)
  then show "length b = 8" "128 \<le> hd b" using issued_first_byte by simp_all
  assume "token_amount_as_bytes demo_lib a' = Inr b"
  then have "ta_exponent a' = 0" "ta_mantissa a' < 2 ^ 63" "b = be_bytes 8 (ta_mantissa a' OR 2 ^ 63)"
    by (simp_all add: demo_lib_def split: if_splits)
  then show "a = a'" using a issued_inj [of "ta_mantissa a" "ta_mantissa a'"] by simp
qed

section \<open>Properties\<close>

text \<open>
  C13: The length prefix of a blob round-trips. Exactly the lengths up to 918744 can be encoded, and
  whatever follows, the ledger's reader recovers the length and the rest of the input.
\<close>

theorem encode_length_roundtrip:
  "if n \<le> 918744
   then \<exists>b. encode_length n = Inr b \<and> length b \<le> 3 \<and> (\<forall>r. decode_length (b @ r) = Some (n, r))
   else encode_length n = Inl InvalidBlobLength"
proof (cases "n \<le> 918744")
  case True
  then obtain b where b: "encode_length n = Inr b" using encode_length_ok by blast
  then have "length b \<le> 3" by (auto simp: encode_length_def result_simps Let_def split: if_splits)
  with b True show ?thesis using decode_encode_length by simp
qed (simp add: encode_length_cases)

end
