(* ===== verification/Xrpl_Serialize_Unique.thy ===== *)
theory Xrpl_Serialize_Unique
  imports Xrpl_Serialize
begin

unbundle bit_operations_syntax

text \<open>
  The bytes of a transaction determine the transaction. Fields and array items are self-delimiting, so
  an object can be read back from its bytes; the values found there determine, field by field, the
  transaction and its memos. The signers of a multisig therefore never approve one transaction with
  bytes that also describe another.
\<close>

section \<open>Objects are determined by their bytes\<close>

text \<open>
  The values of a type code are a prefix-free set of byte strings, so the fields of an object, each a
  header and a value, can be read off its bytes one after the other. Objects in an array have no array
  or path set of their own.
\<close>

definition prefix_free :: "bytes set \<Rightarrow> bool" where
  "prefix_free V \<longleftrightarrow> (\<forall>v \<in> V. \<forall>w \<in> V. \<forall>r s. v @ r = w @ s \<longrightarrow> v = w)"

definition flat_values :: "u8 \<Rightarrow> bytes set" where
  "flat_values t =
     (if t = 1 then {v. length v = 2}
      else if t = 2 then {v. length v = 4}
      else if t = 6 then {v. \<exists>h b. v = h # b \<and> length b = (if h < 128 then 7 else 47)}
      else if t = 7 then {v. \<exists>b. serialize_blob b = Inr v}
      else if t = 8 then {v. length v = 21}
      else {})"

definition field_bytes :: "serialized_field \<Rightarrow> bytes" where
  "field_bytes f = field_id (sf_type_code f) (sf_field_code f) @ sf_serialized_value f"

definition field_ok :: "(u8 \<Rightarrow> bytes set) \<Rightarrow> serialized_field \<Rightarrow> bool" where
  "field_ok V f \<longleftrightarrow>
     sf_type_code f \<noteq> 0 \<and> sf_field_code f \<noteq> 0 \<and> sf_serialized_value f \<in> V (sf_type_code f) \<and>
     prefix_free (V (sf_type_code f))"

lemma prefix_freeD: "prefix_free V \<Longrightarrow> v \<in> V \<Longrightarrow> w \<in> V \<Longrightarrow> v @ r = w @ s \<Longrightarrow> v = w"
  unfolding prefix_free_def by blast

lemma prefix_free_length: "prefix_free {v. length v = n}"
  unfolding prefix_free_def by auto

lemma prefix_free_flat: "prefix_free (flat_values t)"
proof -
  have 6: "prefix_free {v. \<exists>h b. v = h # b \<and> length b = (if h < (128::u8) then 7 else 47)}"
    unfolding prefix_free_def by auto
  have 7: "prefix_free {v. \<exists>b. serialize_blob b = Inr v}"
    unfolding prefix_free_def
  proof (intro ballI allI impI)
    fix v w r s
    assume "v \<in> {v. \<exists>b. serialize_blob b = Inr v}" "w \<in> {v. \<exists>b. serialize_blob b = Inr v}" "v @ r = w @ s"
    then show "v = w" using blob.cut by blast
  qed
  have "prefix_free {}" by (simp add: prefix_free_def)
  with 6 7 show ?thesis unfolding flat_values_def by (simp add: prefix_free_length)
qed

interpretation field: prefix_code "\<lambda>f. Inr (field_bytes f)" "field_ok V" for V
proof
  fix f g b c r s
  assume ok: "field_ok V f" "field_ok V g" and b: "Inr (field_bytes f) = (Inr b :: prover_error + bytes)"
    "Inr (field_bytes g) = (Inr c :: prover_error + bytes)" and eq: "b @ r = c @ s"
  have "field_id (sf_type_code f) (sf_field_code f) @ sf_serialized_value f @ r =
      field_id (sf_type_code g) (sf_field_code g) @ sf_serialized_value g @ s"
    using eq b by (auto simp: field_bytes_def)
  then have *: "sf_type_code f = sf_type_code g" "sf_field_code f = sf_field_code g"
    "sf_serialized_value f @ r = sf_serialized_value g @ s"
    using ok by (simp_all add: field_id_eq_iff field_ok_def)
  moreover have "sf_serialized_value f = sf_serialized_value g"
    by (rule prefix_freeD [of "V (sf_type_code f)", OF _ _ _ *(3)]) (use ok *(1) in \<open>simp_all add: field_ok_def\<close>)
  ultimately show "f = g" by simp
qed

lemma field_id_not_Nil [simp]: "field_id t c \<noteq> []"
  by (simp add: field_id_def)

lemma field_bytes_not_Nil [simp]: "field_bytes f \<noteq> []"
  by (simp add: field_bytes_def)

lemma serialize_object_eq: "serialize_object obj = concat (map field_bytes (sort_key serialized_field_key obj))"
  by (simp add: serialize_object_def field_bytes_def [abs_def])

definition item_bytes :: "u8 \<times> serialized_field list \<Rightarrow> bytes" where
  "item_bytes x =
     field_id object_type_code (fst x) @ concat (map field_bytes (snd x)) @ field_id object_type_code 1"

definition item_ok :: "u8 \<times> serialized_field list \<Rightarrow> bool" where
  "item_ok x \<longleftrightarrow> fst x \<noteq> 0 \<and> (\<forall>f \<in> set (snd x). field_ok flat_values f)"

lemma fields_cut:
  assumes "\<forall>f \<in> set fs. field_ok V f" "\<forall>f \<in> set gs. field_ok V f"
    and "concat (map field_bytes fs) @ field_id t c @ r = concat (map field_bytes gs) @ field_id t c @ s"
    and "t \<noteq> 0" "c \<noteq> 0" "V t = {}"
  shows "fs = gs \<and> field_id t c @ r = field_id t c @ s"
proof (rule field.sequence_cut [OF assms(1,2) try_map_Inr try_map_Inr assms(3)])
  fix x b q
  assume "field_ok V x" "Inr (field_bytes x) = (Inr b :: prover_error + bytes)"
  then show "field_id t c @ r \<noteq> b @ q \<and> field_id t c @ s \<noteq> b @ q"
    using assms(4-6) by (auto simp: field_ok_def field_bytes_def field_id_eq_iff)
qed

lemma fields_end:
  assumes "\<forall>f \<in> set fs. field_ok V f" "\<forall>f \<in> set gs. field_ok V f"
    and "concat (map field_bytes fs) = concat (map field_bytes gs)"
  shows "fs = gs"
proof -
  have "fs = gs \<and> [] = ([] :: bytes)"
    by (rule field.sequence_cut [OF assms(1,2) try_map_Inr try_map_Inr])
      (use assms(3) in auto)
  then show ?thesis by simp
qed

interpretation array_item: prefix_code "\<lambda>x. Inr (item_bytes x)" item_ok
proof
  fix x y b c r s
  assume ok: "item_ok x" "item_ok y" and b: "Inr (item_bytes x) = (Inr b :: prover_error + bytes)"
    "Inr (item_bytes y) = (Inr c :: prover_error + bytes)" and eq: "b @ r = c @ s"
  have "field_id 14 (fst x) @ concat (map field_bytes (snd x)) @ field_id 14 1 @ r =
      field_id 14 (fst y) @ concat (map field_bytes (snd y)) @ field_id 14 1 @ s"
    using eq b by (auto simp: item_bytes_def)
  then have "fst x = fst y"
    "concat (map field_bytes (snd x)) @ field_id 14 1 @ r = concat (map field_bytes (snd y)) @ field_id 14 1 @ s"
    using ok by (simp_all add: field_id_eq_iff item_ok_def)
  moreover have "snd x = snd y \<and> field_id 14 1 @ r = field_id 14 1 @ s"
    by (rule fields_cut [OF _ _ calculation(2), of flat_values])
      (use ok in \<open>simp_all add: item_ok_def flat_values_def\<close>)
  ultimately show "x = y" by (simp add: prod_eq_iff)
qed

definition array_bytes :: "(u8 \<times> serialized_field list) list \<Rightarrow> bytes" where
  "array_bytes items = concat (map item_bytes items) @ field_id array_type_code 1"

lemma array_cut:
  assumes "\<forall>x \<in> set xs. item_ok x" "\<forall>x \<in> set ys. item_ok x" "array_bytes xs @ r = array_bytes ys @ s"
  shows "xs = ys \<and> r = s"
proof -
  have "xs = ys \<and> field_id 15 1 @ r = field_id 15 1 @ s"
  proof (rule array_item.sequence_cut [OF assms(1,2) try_map_Inr try_map_Inr])
    show "concat (map item_bytes xs) @ field_id 15 1 @ r = concat (map item_bytes ys) @ field_id 15 1 @ s"
      using assms(3) by (simp add: array_bytes_def)
    fix x b q
    assume "item_ok x" "Inr (item_bytes x) = (Inr b :: prover_error + bytes)"
    then show "field_id 15 1 @ r \<noteq> b @ q \<and> field_id 15 1 @ s \<noteq> b @ q"
      by (auto simp: item_bytes_def item_ok_def field_id_eq_iff)
  qed
  then show ?thesis by simp
qed

definition field_values :: "u8 \<Rightarrow> bytes set" where
  "field_values t =
     (if t = 15 then {v. \<exists>items. (\<forall>x \<in> set items. item_ok x) \<and> v = array_bytes items}
      else if t = 18 then
        {v. \<exists>ps. (\<forall>p \<in> set ps. list_all path_step_wf p) \<and> serialize_path_set ps = Inr v}
      else flat_values t)"

lemma prefix_free_field_values: "prefix_free (field_values t)"
proof -
  have 15: "prefix_free {v. \<exists>items. (\<forall>x \<in> set items. item_ok x) \<and> v = array_bytes items}"
    unfolding prefix_free_def using array_cut by blast
  have 18: "prefix_free {v. \<exists>ps. (\<forall>p \<in> set ps. list_all path_step_wf p) \<and> serialize_path_set ps = Inr v}"
    unfolding prefix_free_def
  proof (intro ballI allI impI)
    fix v w r s
    assume "v \<in> {v. \<exists>ps. (\<forall>p \<in> set ps. list_all path_step_wf p) \<and> serialize_path_set ps = Inr v}"
      "w \<in> {v. \<exists>ps. (\<forall>p \<in> set ps. list_all path_step_wf p) \<and> serialize_path_set ps = Inr v}" "v @ r = w @ s"
    then show "v = w" using path_set.cut by blast
  qed
  show ?thesis unfolding field_values_def by (simp add: 15 18 prefix_free_flat)
qed

definition field_value :: "xrpl_object \<Rightarrow> u8 \<times> u8 \<Rightarrow> bytes option" where
  "field_value obj = map_of (map (\<lambda>f. (serialized_field_key f, sf_serialized_value f)) obj)"

lemma field_value_set:
  assumes "distinct (map serialized_field_key obj)"
  shows "field_value obj k = Some v \<longleftrightarrow> (\<exists>f \<in> set obj. serialized_field_key f = k \<and> sf_serialized_value f = v)"
  using assms unfolding field_value_def by (subst map_of_eq_Some_iff) (auto simp: o_def)

definition object_ok :: "xrpl_object \<Rightarrow> bool" where
  "object_ok obj \<longleftrightarrow>
     distinct (map serialized_field_key obj) \<and>
     (\<forall>f \<in> set obj. sf_type_code f \<noteq> 0 \<and> sf_field_code f \<noteq> 0 \<and> sf_serialized_value f \<in> field_values (sf_type_code f))"

lemma object_field_values:
  assumes ok: "object_ok obj" "object_ok obj'" and eq: "serialize_object obj = serialize_object obj'"
  shows "field_value obj = field_value obj'"
proof -
  have "sort_key serialized_field_key obj = sort_key serialized_field_key obj'"
    by (rule fields_end [of _ field_values])
      (use ok eq in \<open>auto simp: serialize_object_eq object_ok_def field_ok_def prefix_free_field_values\<close>)
  then have set: "set obj = set obj'" by (metis set_sort)
  have "field_value obj k = Some v \<longleftrightarrow> field_value obj' k = Some v" for k v
    using ok unfolding object_ok_def by (simp add: field_value_set set)
  then show ?thesis by (intro ext) (metis option.exhaust)
qed

section \<open>Transactions are determined by the bytes to sign\<close>

definition cross_currency_wf :: "xrpl_cross_currency_options \<Rightarrow> bool" where
  "cross_currency_wf c \<longleftrightarrow>
     amount_wf (cco_send_max c) \<and>
     (case cco_paths c of None \<Rightarrow> True | Some ps \<Rightarrow> \<forall>p \<in> set ps. list_all path_step_wf p)"

primrec unsigned_tx_wf :: "xrpl_unsigned_tx \<Rightarrow> bool" where
  "unsigned_tx_wf (Payment tx) \<longleftrightarrow>
     length (pay_account tx) = 20 \<and> length (pay_destination tx) = 20 \<and> amount_wf (pay_amount tx) \<and>
     (case pay_cross_currency tx of None \<Rightarrow> True | Some c \<Rightarrow> cross_currency_wf c)"
| "unsigned_tx_wf (TicketCreate tx) \<longleftrightarrow> length (tc_account tx) = 20"
| "unsigned_tx_wf (SignerListSet tx) \<longleftrightarrow>
     length (sl_account tx) = 20 \<and> (\<forall>e \<in> set (sl_signer_entries tx). length (se_account e) = 20)"
| "unsigned_tx_wf (TrustSet tx) \<longleftrightarrow> length (ts_account tx) = 20 \<and> token_wf (ts_token tx)"

primrec erase_cc_id :: "xrpl_unsigned_tx \<Rightarrow> xrpl_unsigned_tx" where
  "erase_cc_id (Payment tx) = Payment (tx\<lparr>pay_cc_id := None\<rparr>)"
| "erase_cc_id (TicketCreate tx) = TicketCreate tx"
| "erase_cc_id (SignerListSet tx) = SignerListSet tx"
| "erase_cc_id (TrustSet tx) = TrustSet tx"

text \<open>
  Every object is built by adding fields one after the other, so it is the object of one list of fields.
\<close>

definition field_key :: "field \<times> xrpl_value \<Rightarrow> u8 \<times> u8" where
  "field_key fv = (fst (snd fv), field_to_u8 (fst fv))"

definition field_result :: "(field \<times> xrpl_value) list \<Rightarrow> u8 \<times> u8 \<Rightarrow> (prover_error + bytes) option" where
  "field_result fvs = map_of (map (\<lambda>fv. (field_key fv, snd (snd fv))) fvs)"

definition fields_object :: "(field \<times> xrpl_value) list \<Rightarrow> xrpl_object \<Rightarrow> bool" where
  "fields_object fvs obj \<longleftrightarrow>
     list_all2 (\<lambda>fv sf. serialized_field_key sf = field_key fv \<and> snd (snd fv) = Inr (sf_serialized_value sf)) fvs obj"

lemma xrpl_json_append:
  "rbind (xrpl_json fvs) (\<lambda>obj. add_field obj f v) = xrpl_json (fvs @ [(f, v)])"
  by (simp add: xrpl_json_def try_fold_append)

lemma xrpl_json_object: "xrpl_json fvs = Inr obj \<Longrightarrow> fields_object fvs obj"
proof (induction fvs arbitrary: obj rule: rev_induct)
  case Nil
  then show ?case by (simp add: xrpl_json_def fields_object_def)
next
  case (snoc fv fvs)
  obtain f v where fv: "fv = (f, v)" by (cases fv)
  then obtain o' where "xrpl_json fvs = Inr o'" "add_field o' f v = Inr obj"
    using snoc.prems xrpl_json_append [of fvs f v] by (auto simp: rbind_Inr_iff)
  then show ?case
    using snoc.IH fv
    by (auto simp: add_field_def rbind_Inr_iff fields_object_def field_key_def serialized_field_key_def
        intro!: list_all2_appendI)
qed

lemma fields_object_keys: "fields_object fvs obj \<Longrightarrow> map serialized_field_key obj = map field_key fvs"
  unfolding fields_object_def by (induction rule: list_all2_induct) auto

lemma fields_object_result:
  "fields_object fvs obj \<Longrightarrow> field_result fvs k = map_option Inr (field_value obj k)"
  unfolding fields_object_def field_result_def field_value_def
  by (induction rule: list_all2_induct) auto

definition value_ok :: "(u8 \<Rightarrow> bytes set) \<Rightarrow> field \<times> xrpl_value \<Rightarrow> bool" where
  "value_ok V fv \<longleftrightarrow> fst (snd fv) \<noteq> 0 \<and> (\<forall>b. snd (snd fv) = Inr b \<longrightarrow> b \<in> V (fst (snd fv)))"

lemma field_to_u8_not_0 [simp]: "field_to_u8 f \<noteq> 0"
  by (cases f) simp_all

lemma fields_object_values:
  "fields_object fvs obj \<Longrightarrow> \<forall>fv \<in> set fvs. value_ok V fv \<Longrightarrow>
    \<forall>f \<in> set obj. sf_type_code f \<noteq> 0 \<and> sf_field_code f \<noteq> 0 \<and> sf_serialized_value f \<in> V (sf_type_code f)"
  unfolding fields_object_def
  by (induction rule: list_all2_induct) (auto simp: value_ok_def field_key_def serialized_field_key_def)

lemma fields_determined:
  assumes "xrpl_json fvs = Inr obj" "xrpl_json fvs' = Inr obj'" "serialize_object obj = serialize_object obj'"
    and "\<forall>fv \<in> set fvs. value_ok field_values fv" "\<forall>fv \<in> set fvs'. value_ok field_values fv"
    and "distinct (map field_key fvs)" "distinct (map field_key fvs')"
  shows "field_result fvs k = field_result fvs' k"
    and "field_result fvs k = Some res \<Longrightarrow> \<exists>b. res = Inr b"
proof -
  note o = xrpl_json_object [OF assms(1)] and o' = xrpl_json_object [OF assms(2)]
  have "object_ok obj" "object_ok obj'"
    using fields_object_values [OF o assms(4)] fields_object_values [OF o' assms(5)]
      fields_object_keys [OF o] fields_object_keys [OF o'] assms(6,7)
    by (simp_all add: object_ok_def)
  from object_field_values [OF this assms(3)]
  show "field_result fvs k = field_result fvs' k"
    by (simp add: fields_object_result [OF o] fields_object_result [OF o'])
  show "field_result fvs k = Some res \<Longrightarrow> \<exists>b. res = Inr b"
    by (auto simp: fields_object_result [OF o])
qed

lemma flat_field_values: "t \<noteq> 15 \<Longrightarrow> t \<noteq> 18 \<Longrightarrow> field_values t = flat_values t"
  by (simp add: field_values_def)

lemma value_ok_u16: "value_ok field_values (f, v_u16 x)" "value_ok flat_values (f, v_u16 x)"
  by (simp_all add: value_ok_def flat_field_values flat_values_def serialize_u16_def)

lemma value_ok_u32: "value_ok field_values (f, v_u32 x)"
  by (simp add: value_ok_def flat_field_values flat_values_def serialize_u32_def)

lemma value_ok_blob: "value_ok field_values (f, v_blob x)" "value_ok flat_values (f, v_blob x)"
  by (auto simp: value_ok_def flat_field_values flat_values_def)

lemma value_ok_account:
  "length x = 20 \<Longrightarrow> value_ok field_values (f, v_account_id x)"
  "length x = 20 \<Longrightarrow> value_ok flat_values (f, v_account_id x)"
  by (simp_all add: value_ok_def flat_field_values flat_values_def serialize_account_id_def)

lemma value_ok_drops: "value_ok field_values (f, v_amount lib (Drops x))"
proof -
  have "\<exists>h t. be_bytes 8 (x OR POSITIVE_BIT) = h # t \<and> length t = (if h < 128 then 7 else 47)"
    if le: "x \<le> 10 ^ 17"
  proof -
    obtain h t where "be_bytes 8 (x OR POSITIVE_BIT) = h # t" "h < 128"
      using drops_first_byte [OF le] by blast
    then show ?thesis using length_be_bytes [of 8 "x OR POSITIVE_BIT"] by simp
  qed
  then show ?thesis by (auto simp: value_ok_def flat_field_values flat_values_def split: if_splits)
qed

lemma value_ok_issued:
  assumes "amount_codec lib" "token_wf t"
  shows "value_ok field_values (f, v_amount lib (Issued t a))"
proof -
  have "b \<in> flat_values 6" if b: "serialize_amount lib (Issued t a) = Inr b" for b
  proof -
    obtain h c where "b = (h # c) @ tok_currency t @ tok_issuer t" "128 \<le> h" "length c = 7"
      using issued_bytes [OF assms(1) b] .
    then show ?thesis using assms(2) by (simp add: flat_values_def token_wf_def not_less [symmetric])
  qed
  then show ?thesis unfolding value_ok_def by (simp add: flat_field_values)
qed

lemma value_ok_amount:
  "amount_codec lib \<Longrightarrow> amount_wf a \<Longrightarrow> value_ok field_values (f, v_amount lib a)"
  using value_ok_drops value_ok_issued by (cases a) (simp_all del: serialize_amount.simps)

lemma value_ok_path_set:
  "\<forall>p \<in> set ps. list_all path_step_wf p \<Longrightarrow> value_ok field_values (f, v_path_set ps)"
  by (auto simp: value_ok_def field_values_def)

lemmas value_oks = value_ok_u16 value_ok_u32 value_ok_blob value_ok_account value_ok_drops
  value_ok_issued value_ok_amount value_ok_path_set

text \<open>Arrays of objects that have flat fields and are determined by them.\<close>

lemma serialize_array_bytes:
  assumes "serialize_array f into xs = Inr b"
  obtains objs where "list_all2 (\<lambda>x obj. into x = Inr obj) xs objs"
    "b = array_bytes (map (\<lambda>obj. (field_to_u8 f, sort_key serialized_field_key obj)) objs)"
proof -
  obtain bs where bs: "try_map (\<lambda>x. rbind (into x) (\<lambda>obj. Inr (serialize_object obj))) xs = Inr bs"
    and b: "b = concat (map (\<lambda>b. field_id 14 (field_to_u8 f) @ b @ field_id 14 1) bs) @ field_id 15 1"
    using assms by (auto simp: serialize_array_def rbind_Inr_iff)
  from bs have "\<exists>objs. list_all2 (\<lambda>x obj. into x = Inr obj) xs objs \<and> bs = map serialize_object objs"
    unfolding try_map_Inr_iff
  proof (induction rule: list_all2_induct)
    case (Cons x xs b bs)
    then obtain obj objs where "into x = Inr obj" "b = serialize_object obj"
      "list_all2 (\<lambda>x obj. into x = Inr obj) xs objs" "bs = map serialize_object objs"
      by (auto simp: rbind_Inr_iff)
    then show ?case by (intro exI [of _ "obj # objs"]) simp
  qed simp
  then obtain objs where objs: "list_all2 (\<lambda>x obj. into x = Inr obj) xs objs" "bs = map serialize_object objs"
    by blast
  have "map (\<lambda>b. field_id 14 (field_to_u8 f) @ b @ field_id 14 1) bs =
      map item_bytes (map (\<lambda>obj. (field_to_u8 f, sort_key serialized_field_key obj)) objs)"
    by (simp add: objs(2) item_bytes_def serialize_object_eq)
  then show ?thesis using that [OF objs(1)] by (simp only: b array_bytes_def)
qed

definition flat_fields :: "(field \<times> xrpl_value) list \<Rightarrow> bool" where
  "flat_fields fvs \<longleftrightarrow> (\<forall>fv \<in> set fvs. value_ok flat_values fv) \<and> distinct (map field_key fvs)"

lemma flat_fields_item_ok:
  assumes "xrpl_json fvs = Inr obj" "flat_fields fvs"
  shows "item_ok (field_to_u8 f, sort_key serialized_field_key obj)"
  using fields_object_values [OF xrpl_json_object [OF assms(1)], of flat_values] assms(2)
  by (simp add: item_ok_def flat_fields_def field_ok_def prefix_free_flat)

lemma flat_fields_result:
  assumes "xrpl_json fvs = Inr obj" "xrpl_json fvs' = Inr obj'" "flat_fields fvs" "flat_fields fvs'"
    and "sort_key serialized_field_key obj = sort_key serialized_field_key obj'"
  shows "field_result fvs k = field_result fvs' k"
    and "field_result fvs k = Some res \<Longrightarrow> \<exists>b. res = Inr b"
proof -
  note o = xrpl_json_object [OF assms(1)] and o' = xrpl_json_object [OF assms(2)]
  have set: "set obj = set obj'" using assms(5) by (metis set_sort)
  have "distinct (map serialized_field_key obj)" "distinct (map serialized_field_key obj')"
    using fields_object_keys [OF o] fields_object_keys [OF o'] assms(3,4) by (simp_all add: flat_fields_def)
  then have "field_value obj k = Some v \<longleftrightarrow> field_value obj' k = Some v" for v
    by (simp add: field_value_set set)
  then have "field_value obj k = field_value obj' k" by (metis option.exhaust)
  then show "field_result fvs k = field_result fvs' k"
    by (simp add: fields_object_result [OF o] fields_object_result [OF o'])
  show "field_result fvs k = Some res \<Longrightarrow> \<exists>b. res = Inr b"
    by (auto simp: fields_object_result [OF o])
qed

lemma field_values_15: "field_values 15 = {v. \<exists>items. (\<forall>x \<in> set items. item_ok x) \<and> v = array_bytes items}"
  by (simp add: field_values_def)

lemma array_items_ok:
  assumes "list_all2 (\<lambda>x obj. into x = Inr obj) xs objs"
    and "\<And>x. x \<in> set xs \<Longrightarrow> into x = xrpl_json (flds x) \<and> flat_fields (flds x)"
  shows "\<forall>x \<in> set (map (\<lambda>obj. (field_to_u8 g, sort_key serialized_field_key obj)) objs). item_ok x"
  using assms
proof (induction rule: list_all2_induct)
  case (Cons x xs obj objs)
  then show ?case using flat_fields_item_ok [of "flds x" obj g] by auto
qed simp

lemma value_ok_array:
  assumes "\<And>x. x \<in> set xs \<Longrightarrow> into x = xrpl_json (flds x) \<and> flat_fields (flds x)"
  shows "value_ok field_values (f, (array_type_code, serialize_array g into xs))"
proof -
  have "b \<in> field_values 15" if "serialize_array g into xs = Inr b" for b
  proof -
    obtain objs where l: "list_all2 (\<lambda>x obj. into x = Inr obj) xs objs"
      and b: "b = array_bytes (map (\<lambda>obj. (field_to_u8 g, sort_key serialized_field_key obj)) objs)"
      using serialize_array_bytes [OF \<open>serialize_array g into xs = Inr b\<close>] .
    have "\<forall>x \<in> set (map (\<lambda>obj. (field_to_u8 g, sort_key serialized_field_key obj)) objs). item_ok x"
      by (rule array_items_ok [OF l]) (rule assms)
    then show ?thesis unfolding field_values_15 b by blast
  qed
  then show ?thesis by (simp add: value_ok_def)
qed

lemma array_determined:
  assumes "serialize_array g into xs = Inr b" "serialize_array g into ys = Inr b"
    and "\<And>x. x \<in> set xs \<union> set ys \<Longrightarrow> into x = xrpl_json (flds x) \<and> flat_fields (flds x)"
    and inj: "\<And>x y. (\<And>k. field_result (flds x) k = field_result (flds y) k) \<Longrightarrow>
      (\<And>k res. field_result (flds x) k = Some res \<Longrightarrow> \<exists>b. res = Inr b) \<Longrightarrow> x = y"
  shows "xs = ys"
proof -
  let ?item = "\<lambda>obj. (field_to_u8 g, sort_key serialized_field_key obj)"
  obtain objs where l: "list_all2 (\<lambda>x obj. into x = Inr obj) xs objs" and b: "b = array_bytes (map ?item objs)"
    using serialize_array_bytes [OF assms(1)] .
  obtain objs' where l': "list_all2 (\<lambda>x obj. into x = Inr obj) ys objs'" and b': "b = array_bytes (map ?item objs')"
    using serialize_array_bytes [OF assms(2)] .
  have ok: "\<forall>x \<in> set (map ?item objs). item_ok x" "\<forall>x \<in> set (map ?item objs'). item_ok x"
    by (rule array_items_ok [OF l], use assms(3) in blast, rule array_items_ok [OF l'], use assms(3) in blast)
  have e: "map ?item objs = map ?item objs'"
    using array_cut [OF ok, of "[]" "[]"] b b' by simp
  then have len: "length objs = length objs'" by (rule map_eq_imp_length_eq)
  have eq: "sort_key serialized_field_key (objs ! i) = sort_key serialized_field_key (objs' ! i)"
    if "i < length objs" for i
    using arg_cong [OF e, of "\<lambda>l. snd (l ! i)"] that len by simp
  show ?thesis
  proof (rule nth_equalityI)
    show "length xs = length ys" using l l' len by (simp add: list_all2_lengthD)
    fix i assume i: "i < length xs"
    then have o: "into (xs ! i) = Inr (objs ! i)" "into (ys ! i) = Inr (objs' ! i)"
      and f: "into (xs ! i) = xrpl_json (flds (xs ! i))" "flat_fields (flds (xs ! i))"
        "into (ys ! i) = xrpl_json (flds (ys ! i))" "flat_fields (flds (ys ! i))"
      and e: "sort_key serialized_field_key (objs ! i) = sort_key serialized_field_key (objs' ! i)"
      using l l' len eq [of i] assms(3) by (auto simp: list_all2_conv_all_nth)
    note r = flat_fields_result [OF o(1) [unfolded f(1)] o(2) [unfolded f(3)] f(2) f(4) e]
    show "xs ! i = ys ! i" by (rule inj) (use r in blast)+
  qed
qed

section \<open>The fields of a transaction\<close>

primrec sequence_fields :: "xrpl_sequence \<Rightarrow> (field \<times> xrpl_value) list" where
  "sequence_fields (Plain n) = [(Sequence, v_u32 n)]"
| "sequence_fields (Ticket n) = [(Sequence, v_u32 0), (TicketSequence, v_u32 n)]"

definition cross_currency_fields ::
    "xrpl_lib \<Rightarrow> xrpl_cross_currency_options option \<Rightarrow> (field \<times> xrpl_value) list" where
  "cross_currency_fields lib cc =
     (case cc of
        None \<Rightarrow> []
      | Some c \<Rightarrow>
          (SendMax, v_amount lib (cco_send_max c)) #
          (case cco_paths c of None \<Rightarrow> [] | Some paths \<Rightarrow> [(Paths, v_path_set paths)]))"

primrec tx_fields :: "xrpl_lib \<Rightarrow> xrpl_unsigned_tx \<Rightarrow> (field \<times> xrpl_value) list" where
  "tx_fields lib (Payment tx) =
     [(TransactionType, v_u16 PAYMENT_TX_TYPE), (Flags, v_u32 0), (Amount, v_amount lib (pay_amount tx)),
      (Fee, v_amount lib (Drops (pay_fee tx))), (Account, v_account_id (pay_account tx)),
      (SigningPubKey, v_blob []), (Destination, v_account_id (pay_destination tx))]
     @ sequence_fields (pay_sequence tx) @ cross_currency_fields lib (pay_cross_currency tx)"
| "tx_fields lib (TicketCreate tx) =
     [(TransactionType, v_u16 TICKET_CREATE_TX_TYPE), (Flags, v_u32 0), (TicketCount, v_u32 (tc_ticket_count tx)),
      (Fee, v_amount lib (Drops (tc_fee tx))), (Account, v_account_id (tc_account tx)), (SigningPubKey, v_blob [])]
     @ sequence_fields (tc_sequence tx)"
| "tx_fields lib (SignerListSet tx) =
     [(TransactionType, v_u16 SIGNER_LIST_SET_TX_TYPE), (Flags, v_u32 0),
      (SignerQuorum, v_u32 (sl_signer_quorum tx)), (Fee, v_amount lib (Drops (sl_fee tx))),
      (Account, v_account_id (sl_account tx)), (SigningPubKey, v_blob []),
      (SignerEntries,
        (array_type_code, serialize_array SignerEntry signer_entry_object (sl_signer_entries tx)))]
     @ sequence_fields (sl_sequence tx)"
| "tx_fields lib (TrustSet tx) =
     [(TransactionType, v_u16 TRUST_SET_TX_TYPE), (Flags, v_u32 0),
      (LimitAmount, v_amount lib (Issued (ts_token tx) (token_amount_max lib))),
      (Fee, v_amount lib (Drops (ts_fee tx))), (Account, v_account_id (ts_account tx)), (SigningPubKey, v_blob [])]
     @ sequence_fields (ts_sequence tx)"

lemma add_sequence_fields:
  "rbind (xrpl_json fvs) (\<lambda>obj. add_sequence obj sq) = xrpl_json (fvs @ sequence_fields sq)"
proof (cases sq)
  case (Ticket n)
  have "rbind (xrpl_json fvs) (\<lambda>obj. add_sequence obj sq) =
      rbind (rbind (xrpl_json fvs) (\<lambda>obj. add_field obj Sequence (v_u32 0)))
        (\<lambda>obj. add_field obj TicketSequence (v_u32 n))"
    by (simp add: Ticket add_sequence_def rbind_assoc)
  then show ?thesis by (simp only: xrpl_json_append) (simp add: Ticket)
qed (simp add: add_sequence_def xrpl_json_append)

lemma payment_object_fields: "payment_object lib tx = xrpl_json (tx_fields lib (Payment tx))"
proof -
  let ?base = "[(TransactionType, v_u16 PAYMENT_TX_TYPE), (Flags, v_u32 0), (Amount, v_amount lib (pay_amount tx)),
      (Fee, v_amount lib (Drops (pay_fee tx))), (Account, v_account_id (pay_account tx)),
      (SigningPubKey, v_blob []), (Destination, v_account_id (pay_destination tx))]"
  let ?cc = "\<lambda>obj. case pay_cross_currency tx of
       None \<Rightarrow> Inr obj
     | Some cross_currency \<Rightarrow>
         rbind (add_field obj SendMax (v_amount lib (cco_send_max cross_currency))) (\<lambda>obj.
         case cco_paths cross_currency of
           None \<Rightarrow> Inr obj
         | Some paths \<Rightarrow> add_field obj Paths (v_path_set paths))"
  have cc: "rbind (xrpl_json fvs) ?cc = xrpl_json (fvs @ cross_currency_fields lib (pay_cross_currency tx))" for fvs
    by (simp add: cross_currency_fields_def rbind_assoc [symmetric] xrpl_json_append split: option.split)
  have "payment_object lib tx = rbind (rbind (xrpl_json ?base) (\<lambda>obj. add_sequence obj (pay_sequence tx))) ?cc"
    by (simp only: payment_object_def rbind_assoc)
  also have "\<dots> = xrpl_json (tx_fields lib (Payment tx))"
    by (simp only: add_sequence_fields cc) (simp only: tx_fields.simps append_assoc)
  finally show ?thesis .
qed

lemma unsigned_tx_object_fields: "unsigned_tx_object lib tx = xrpl_json (tx_fields lib tx)"
  by (cases tx)
    (simp_all only: unsigned_tx_object.simps payment_object_fields signer_list_set_object_def
      ticket_create_object_def trust_set_object_def add_sequence_fields tx_fields.simps)

lemma tx_to_sign_object_fields:
  assumes "tx_to_sign_object lib t = Inr obj"
  obtains memos where "tx_to_sign_memos lib t = Inr memos"
    "xrpl_json (tx_fields lib (tts_unsigned_tx t) @
       [(Memos, (array_type_code, serialize_array Memo memo_object memos))]) = Inr obj"
  using assms that unfolding tx_to_sign_object_def unsigned_tx_object_fields xrpl_json_append [symmetric]
  by (auto simp: rbind_Inr_iff)

definition memo_fields :: "xrpl_memo \<Rightarrow> (field \<times> xrpl_value) list" where
  "memo_fields m = [(MemoType, v_blob (memo_type m)), (MemoData, v_blob (memo_data m))]"

definition signer_entry_fields :: "xrpl_signer_entry \<Rightarrow> (field \<times> xrpl_value) list" where
  "signer_entry_fields e = [(Account, v_account_id (se_account e)), (SignerWeight, v_u16 (se_signer_weight e))]"

lemma memo_flat: "memo_object m = xrpl_json (memo_fields m) \<and> flat_fields (memo_fields m)"
  by (simp add: memo_object_def memo_fields_def flat_fields_def field_key_def value_oks)

lemma signer_entry_flat:
  "length (se_account e) = 20 \<Longrightarrow>
    signer_entry_object e = xrpl_json (signer_entry_fields e) \<and> flat_fields (signer_entry_fields e)"
  by (simp add: signer_entry_object_def signer_entry_fields_def flat_fields_def field_key_def value_oks)

lemma memos_determined:
  assumes "serialize_array Memo memo_object ms = Inr b" "serialize_array Memo memo_object ms' = Inr b"
  shows "ms = ms'"
proof (rule array_determined [OF assms, of memo_fields])
  fix m m' :: xrpl_memo
  assume eq: "\<And>k. field_result (memo_fields m) k = field_result (memo_fields m') k"
    and ok: "\<And>k res. field_result (memo_fields m) k = Some res \<Longrightarrow> \<exists>b. res = Inr b"
  obtain b c where "serialize_blob (memo_type m) = Inr b" "serialize_blob (memo_data m) = Inr c"
    using ok [of "(7, 12)"] ok [of "(7, 13)"] by (auto simp: field_result_def memo_fields_def field_key_def)
  moreover have "serialize_blob (memo_type m) = serialize_blob (memo_type m')"
    "serialize_blob (memo_data m) = serialize_blob (memo_data m')"
    using eq [of "(7, 12)"] eq [of "(7, 13)"] by (simp_all add: field_result_def memo_fields_def field_key_def)
  ultimately show "m = m'" using blob.injective by (metis (full_types) xrpl_memo.equality old.unit.exhaust)
qed (rule memo_flat)

lemma signer_entries_determined:
  assumes "serialize_array SignerEntry signer_entry_object es = Inr b"
    "serialize_array SignerEntry signer_entry_object es' = Inr b"
    and "\<forall>e \<in> set es. length (se_account e) = 20" "\<forall>e \<in> set es'. length (se_account e) = 20"
  shows "es = es'"
proof (rule array_determined [OF assms(1,2), of signer_entry_fields])
  fix e e' :: xrpl_signer_entry
  assume eq: "\<And>k. field_result (signer_entry_fields e) k = field_result (signer_entry_fields e') k"
  show "e = e'"
    using eq [of "(8, 1)"] eq [of "(1, 3)"]
    by (simp add: field_result_def signer_entry_fields_def field_key_def serialize_account_id_def serialize_u16_def)
qed (use assms(3,4) signer_entry_flat in blast)

lemma tx_fields_ok:
  assumes "amount_codec lib" "unsigned_tx_wf tx"
  shows "\<forall>fv \<in> set (tx_fields lib tx @ [(Memos, (array_type_code, serialize_array Memo memo_object ms))]).
      value_ok field_values fv"
proof -
  have sq: "\<forall>fv \<in> set (sequence_fields sq). value_ok field_values fv" for sq
    by (cases sq) (simp_all add: value_oks)
  have cc: "\<forall>fv \<in> set (cross_currency_fields lib cc). value_ok field_values fv"
    if "case cc of None \<Rightarrow> True | Some c \<Rightarrow> cross_currency_wf c" for cc
    using that assms(1)
    by (auto simp: cross_currency_fields_def cross_currency_wf_def value_oks split: option.splits
        simp del: serialize_amount.simps)
  have ms: "value_ok field_values (Memos, (array_type_code, serialize_array Memo memo_object ms))"
    by (rule value_ok_array [where flds = memo_fields]) (rule memo_flat)
  have es: "value_ok field_values (SignerEntries, (array_type_code, serialize_array SignerEntry signer_entry_object es))"
    if "\<forall>e \<in> set es. length (se_account e) = 20" for es
    by (rule value_ok_array [where flds = signer_entry_fields]) (use that signer_entry_flat in blast)
  show ?thesis
    using assms sq cc ms es by (cases tx) (auto simp: value_oks simp del: serialize_amount.simps)
qed

lemma sequence_fields_case:
  "sequence_fields sq =
     (case sq of Plain n \<Rightarrow> [(Sequence, v_u32 n)] | Ticket n \<Rightarrow> [(Sequence, v_u32 0), (TicketSequence, v_u32 n)])"
  by (cases sq) simp_all

lemma sequence_keys:
  "map field_key (sequence_fields sq) = (case sq of Plain _ \<Rightarrow> [(2, 4)] | Ticket _ \<Rightarrow> [(2, 4), (2, 41)])"
  by (cases sq) (simp_all add: field_key_def)

lemma cross_currency_keys:
  "map field_key (cross_currency_fields lib cc) =
     (case cc of None \<Rightarrow> [] | Some c \<Rightarrow> (case cco_paths c of None \<Rightarrow> [(6, 9)] | Some _ \<Rightarrow> [(6, 9), (18, 1)]))"
  by (simp add: cross_currency_fields_def field_key_def split: option.split)

lemma payment_keys_distinct:
  "distinct (map field_key (tx_fields lib (Payment tx) @ [(Memos, (array_type_code, v))]))"
proof -
  have "map field_key (tx_fields lib (Payment tx) @ [(Memos, (array_type_code, v))]) =
      [(1, 2), (2, 2), (6, 1), (6, 8), (8, 1), (7, 3), (8, 3)] @ map field_key (sequence_fields (pay_sequence tx)) @
      map field_key (cross_currency_fields lib (pay_cross_currency tx)) @ [(15, 9)]"
    by (simp add: field_key_def)
  then show ?thesis
    unfolding sequence_keys cross_currency_keys by (simp only:) (simp split: xrpl_sequence.split option.split)
qed

lemma tx_fields_distinct:
  "distinct (map field_key (tx_fields lib tx @ [(Memos, (array_type_code, v))]))"
  by (cases tx)
    (simp_all only: payment_keys_distinct, simp_all add: field_key_def sequence_fields_case split: xrpl_sequence.split)

lemma memos_cc_id:
  assumes "tx_to_sign_memos lib a = Inr ms" "tx_to_sign_memos lib b = Inr ms"
  shows "tts_cc_id a = tts_cc_id b"
  using assms by (auto simp: tx_to_sign_memos_def rbind_Inr_iff string_bytes_inj split: option.splits)

definition same_fields :: "(field \<times> xrpl_value) list \<Rightarrow> (field \<times> xrpl_value) list \<Rightarrow> bool" where
  "same_fields fvs fvs' \<longleftrightarrow>
     (\<forall>k. field_result fvs k = field_result fvs' k) \<and>
     (\<forall>k res. field_result fvs k = Some res \<longrightarrow> (\<exists>b. res = Inr b))"

lemma same_fieldsD:
  assumes "same_fields fvs fvs'"
  shows "field_result fvs k = field_result fvs' k"
    and "field_result fvs k = Some res \<Longrightarrow> \<exists>b. res = Inr b"
  using assms unfolding same_fields_def by blast+

lemma drops_determined:
  assumes "serialize_amount lib (Drops v) = serialize_amount lib (Drops w)" "\<exists>b. serialize_amount lib (Drops v) = Inr b"
  shows "v = w"
  using assms by (auto split: if_splits intro: drops_inj)

lemma path_sets_determined:
  assumes "map_option serialize_path_set x = map_option serialize_path_set y"
    and "\<And>res. map_option serialize_path_set x = Some res \<Longrightarrow> \<exists>b. res = Inr b"
    and "case x of None \<Rightarrow> True | Some ps \<Rightarrow> \<forall>p \<in> set ps. list_all path_step_wf p"
      "case y of None \<Rightarrow> True | Some ps \<Rightarrow> \<forall>p \<in> set ps. list_all path_step_wf p"
  shows "x = y"
proof (cases x; cases y)
  fix ps qs assume xy: "x = Some ps" "y = Some qs"
  then obtain b where "serialize_path_set ps = Inr b" "serialize_path_set qs = Inr b"
    using assms(1,2) by auto
  then have "ps = qs" by (rule path_set.injective [rotated 2]) (use assms(3,4) xy in simp_all)
  then show "x = y" using xy by simp
qed (use assms(1) in simp_all)

lemma cross_currency_determined:
  assumes "map_option (\<lambda>c. serialize_amount lib (cco_send_max c)) x = map_option (\<lambda>c. serialize_amount lib (cco_send_max c)) y"
    and "Option.bind x (\<lambda>c. map_option serialize_path_set (cco_paths c)) =
      Option.bind y (\<lambda>c. map_option serialize_path_set (cco_paths c))"
    and ok: "\<And>res. map_option (\<lambda>c. serialize_amount lib (cco_send_max c)) x = Some res \<Longrightarrow> \<exists>b. res = Inr b"
      "\<And>res. Option.bind x (\<lambda>c. map_option serialize_path_set (cco_paths c)) = Some res \<Longrightarrow> \<exists>b. res = Inr b"
    and wf: "case x of None \<Rightarrow> True | Some c \<Rightarrow> cross_currency_wf c" "case y of None \<Rightarrow> True | Some c \<Rightarrow> cross_currency_wf c"
    and lib: "amount_codec lib"
  shows "x = y"
proof (cases x; cases y)
  fix c d assume xy: "x = Some c" "y = Some d"
  then obtain b where "serialize_amount lib (cco_send_max c) = Inr b" "serialize_amount lib (cco_send_max d) = Inr b"
    using assms(1) ok(1) by auto
  then have "cco_send_max c = cco_send_max d"
    by (rule amount.injective [rotated 2]) (use wf xy lib in \<open>simp_all add: cross_currency_wf_def\<close>)
  moreover have "cco_paths c = cco_paths d"
  proof (rule path_sets_determined)
    show "map_option serialize_path_set (cco_paths c) = map_option serialize_path_set (cco_paths d)"
      using assms(2) xy by simp
    show "\<exists>b. res = Inr b" if "map_option serialize_path_set (cco_paths c) = Some res" for res
      using ok(2) that xy by simp
  qed (use wf xy in \<open>simp_all add: cross_currency_wf_def\<close>)
  ultimately show "x = y" using xy by simp
qed (use assms(1) in simp_all)

lemma payment_results:
  assumes "fst v = 15"
  shows "field_result (tx_fields lib (Payment p) @ [(Memos, v)]) (6, 9) =
      map_option (\<lambda>c. serialize_amount lib (cco_send_max c)) (pay_cross_currency p)"
    and "field_result (tx_fields lib (Payment p) @ [(Memos, v)]) (18, 1) =
      Option.bind (pay_cross_currency p) (\<lambda>c. map_option serialize_path_set (cco_paths c))"
    and "field_result (tx_fields lib (Payment p) @ [(Memos, v)]) (6, 1) = Some (serialize_amount lib (pay_amount p))"
    and "field_result (tx_fields lib (Payment p) @ [(Memos, v)]) (6, 8) = Some (serialize_amount lib (Drops (pay_fee p)))"
    and "field_result (tx_fields lib (Payment p) @ [(Memos, v)]) (2, 4) =
      Some (serialize_u32 (case pay_sequence p of Plain n \<Rightarrow> n | Ticket _ \<Rightarrow> 0))"
    and "field_result (tx_fields lib (Payment p) @ [(Memos, v)]) (2, 41) =
      (case pay_sequence p of Plain n \<Rightarrow> None | Ticket n \<Rightarrow> Some (serialize_u32 n))"
    and "field_result (tx_fields lib (Payment p) @ [(Memos, v)]) (8, 1) = Some (serialize_account_id (pay_account p))"
    and "field_result (tx_fields lib (Payment p) @ [(Memos, v)]) (8, 3) = Some (serialize_account_id (pay_destination p))"
  using assms
  by (simp_all add: field_result_def field_key_def sequence_fields_case cross_currency_fields_def
      del: serialize_amount.simps split: option.split xrpl_sequence.split)

lemma sequence_determined:
  assumes "serialize_u32 (case x of Plain n \<Rightarrow> n | Ticket _ \<Rightarrow> 0) = serialize_u32 (case y of Plain n \<Rightarrow> n | Ticket _ \<Rightarrow> 0)"
    and "(case x of Plain n \<Rightarrow> None | Ticket n \<Rightarrow> Some (serialize_u32 n)) =
      (case y of Plain n \<Rightarrow> None | Ticket n \<Rightarrow> Some (serialize_u32 n))"
  shows "x = y"
  using assms by (simp add: serialize_u32_def split: xrpl_sequence.splits)

lemma payment_determined:
  assumes "same_fields (tx_fields lib (Payment p) @ [(Memos, v)]) (tx_fields lib (Payment q) @ [(Memos, v')])"
    and "amount_codec lib" "unsigned_tx_wf (Payment p)" "unsigned_tx_wf (Payment q)"
    and "fst v = 15" "fst v' = 15"
  shows "p\<lparr>pay_cc_id := None\<rparr> = q\<lparr>pay_cc_id := None\<rparr>"
proof -
  note eq = same_fieldsD(1) [OF assms(1)] and ok = same_fieldsD(2) [OF assms(1)]
  note r = payment_results [OF assms(5)] payment_results [OF assms(6)]
  have "pay_sequence p = pay_sequence q"
    using eq [of "(2, 4)"] eq [of "(2, 41)"] unfolding r by (intro sequence_determined) simp_all
  moreover have "pay_fee p = pay_fee q"
    using eq [of "(6, 8)"] ok [of "(6, 8)"] unfolding r
    by (intro drops_determined [of lib]) (simp_all del: serialize_amount.simps)
  moreover have "pay_account p = pay_account q" "pay_destination p = pay_destination q"
    using eq [of "(8, 1)"] eq [of "(8, 3)"] unfolding r by (simp_all add: serialize_account_id_def)
  moreover have "pay_amount p = pay_amount q"
  proof -
    obtain b where "serialize_amount lib (pay_amount p) = Inr b" "serialize_amount lib (pay_amount q) = Inr b"
      using eq [of "(6, 1)"] ok [of "(6, 1)"] unfolding r by auto
    then show ?thesis by (rule amount.injective [rotated 2]) (use assms(2-4) in auto)
  qed
  moreover have "pay_cross_currency p = pay_cross_currency q"
    by (rule cross_currency_determined [OF eq [of "(6, 9)", unfolded r] eq [of "(18, 1)", unfolded r]
          ok [of "(6, 9)", unfolded r] ok [of "(18, 1)", unfolded r]])
      (use assms(2-4) in simp_all)
  ultimately show ?thesis by simp
qed

lemma other_results:
  assumes "fst v = 15"
  shows "field_result (tx_fields lib (TicketCreate t) @ [(Memos, v)]) (6, 8) = Some (serialize_amount lib (Drops (tc_fee t)))"
    and "field_result (tx_fields lib (TicketCreate t) @ [(Memos, v)]) (2, 4) =
      Some (serialize_u32 (case tc_sequence t of Plain n \<Rightarrow> n | Ticket _ \<Rightarrow> 0))"
    and "field_result (tx_fields lib (TicketCreate t) @ [(Memos, v)]) (2, 41) =
      (case tc_sequence t of Plain n \<Rightarrow> None | Ticket n \<Rightarrow> Some (serialize_u32 n))"
    and "field_result (tx_fields lib (TicketCreate t) @ [(Memos, v)]) (8, 1) = Some (serialize_account_id (tc_account t))"
    and "field_result (tx_fields lib (TicketCreate t) @ [(Memos, v)]) (2, 40) = Some (serialize_u32 (tc_ticket_count t))"
    and "field_result (tx_fields lib (SignerListSet l) @ [(Memos, v)]) (6, 8) = Some (serialize_amount lib (Drops (sl_fee l)))"
    and "field_result (tx_fields lib (SignerListSet l) @ [(Memos, v)]) (2, 4) =
      Some (serialize_u32 (case sl_sequence l of Plain n \<Rightarrow> n | Ticket _ \<Rightarrow> 0))"
    and "field_result (tx_fields lib (SignerListSet l) @ [(Memos, v)]) (2, 41) =
      (case sl_sequence l of Plain n \<Rightarrow> None | Ticket n \<Rightarrow> Some (serialize_u32 n))"
    and "field_result (tx_fields lib (SignerListSet l) @ [(Memos, v)]) (8, 1) = Some (serialize_account_id (sl_account l))"
    and "field_result (tx_fields lib (SignerListSet l) @ [(Memos, v)]) (2, 35) = Some (serialize_u32 (sl_signer_quorum l))"
    and "field_result (tx_fields lib (SignerListSet l) @ [(Memos, v)]) (15, 4) =
      Some (serialize_array SignerEntry signer_entry_object (sl_signer_entries l))"
    and "field_result (tx_fields lib (TrustSet s) @ [(Memos, v)]) (6, 8) = Some (serialize_amount lib (Drops (ts_fee s)))"
    and "field_result (tx_fields lib (TrustSet s) @ [(Memos, v)]) (2, 4) =
      Some (serialize_u32 (case ts_sequence s of Plain n \<Rightarrow> n | Ticket _ \<Rightarrow> 0))"
    and "field_result (tx_fields lib (TrustSet s) @ [(Memos, v)]) (2, 41) =
      (case ts_sequence s of Plain n \<Rightarrow> None | Ticket n \<Rightarrow> Some (serialize_u32 n))"
    and "field_result (tx_fields lib (TrustSet s) @ [(Memos, v)]) (8, 1) = Some (serialize_account_id (ts_account s))"
    and "field_result (tx_fields lib (TrustSet s) @ [(Memos, v)]) (6, 3) =
      Some (serialize_amount lib (Issued (ts_token s) (token_amount_max lib)))"
  using assms
  by (simp_all add: field_result_def field_key_def sequence_fields_case
      del: serialize_amount.simps split: xrpl_sequence.split)

lemma ticket_create_determined:
  assumes "same_fields (tx_fields lib (TicketCreate p) @ [(Memos, v)]) (tx_fields lib (TicketCreate q) @ [(Memos, v')])"
    and "fst v = 15" "fst v' = 15"
  shows "p = q"
proof -
  note eq = same_fieldsD(1) [OF assms(1)] and ok = same_fieldsD(2) [OF assms(1)]
  note r = other_results [OF assms(2)] other_results [OF assms(3)]
  have "tc_sequence p = tc_sequence q"
    by (rule sequence_determined) (use eq [of "(2, 4)", unfolded r] eq [of "(2, 41)", unfolded r] in simp_all)
  moreover have "tc_fee p = tc_fee q"
    by (rule drops_determined [of lib])
      (use eq [of "(6, 8)", unfolded r] ok [of "(6, 8)", unfolded r] in \<open>simp_all del: serialize_amount.simps\<close>)
  moreover have "tc_account p = tc_account q" "tc_ticket_count p = tc_ticket_count q"
    using eq [of "(8, 1)"] eq [of "(2, 40)"] unfolding r
    by (simp_all add: serialize_account_id_def serialize_u32_def)
  ultimately show ?thesis by simp
qed

lemma signer_list_set_determined:
  assumes "same_fields (tx_fields lib (SignerListSet p) @ [(Memos, v)]) (tx_fields lib (SignerListSet q) @ [(Memos, v')])"
    and "unsigned_tx_wf (SignerListSet p)" "unsigned_tx_wf (SignerListSet q)" "fst v = 15" "fst v' = 15"
  shows "p = q"
proof -
  note eq = same_fieldsD(1) [OF assms(1)] and ok = same_fieldsD(2) [OF assms(1)]
  note r = other_results [OF assms(4)] other_results [OF assms(5)]
  have "sl_sequence p = sl_sequence q"
    by (rule sequence_determined) (use eq [of "(2, 4)", unfolded r] eq [of "(2, 41)", unfolded r] in simp_all)
  moreover have "sl_fee p = sl_fee q"
    by (rule drops_determined [of lib])
      (use eq [of "(6, 8)", unfolded r] ok [of "(6, 8)", unfolded r] in \<open>simp_all del: serialize_amount.simps\<close>)
  moreover have "sl_account p = sl_account q" "sl_signer_quorum p = sl_signer_quorum q"
    using eq [of "(8, 1)"] eq [of "(2, 35)"] unfolding r
    by (simp_all add: serialize_account_id_def serialize_u32_def)
  moreover have "sl_signer_entries p = sl_signer_entries q"
  proof -
    obtain b where "serialize_array SignerEntry signer_entry_object (sl_signer_entries p) = Inr b"
      "serialize_array SignerEntry signer_entry_object (sl_signer_entries q) = Inr b"
      using eq [of "(15, 4)"] ok [of "(15, 4)"] unfolding r by auto
    then show ?thesis by (rule signer_entries_determined) (use assms(2,3) in simp_all)
  qed
  ultimately show ?thesis by simp
qed

lemma limit_amount_determined:
  assumes "amount_codec lib" "token_wf t" "token_wf u"
    and "serialize_amount lib (Issued t a) = Inr b" "serialize_amount lib (Issued u a) = Inr b"
  shows "t = u"
  using assms by (auto simp: rbind_Inr_iff token_wf_def)

lemma trust_set_determined:
  assumes "same_fields (tx_fields lib (TrustSet p) @ [(Memos, v)]) (tx_fields lib (TrustSet q) @ [(Memos, v')])"
    and "amount_codec lib" "unsigned_tx_wf (TrustSet p)" "unsigned_tx_wf (TrustSet q)" "fst v = 15" "fst v' = 15"
  shows "p = q"
proof -
  note eq = same_fieldsD(1) [OF assms(1)] and ok = same_fieldsD(2) [OF assms(1)]
  note r = other_results [OF assms(5)] other_results [OF assms(6)]
  have "ts_sequence p = ts_sequence q"
    by (rule sequence_determined) (use eq [of "(2, 4)", unfolded r] eq [of "(2, 41)", unfolded r] in simp_all)
  moreover have "ts_fee p = ts_fee q"
    by (rule drops_determined [of lib])
      (use eq [of "(6, 8)", unfolded r] ok [of "(6, 8)", unfolded r] in \<open>simp_all del: serialize_amount.simps\<close>)
  moreover have "ts_account p = ts_account q"
    using eq [of "(8, 1)"] unfolding r by (simp_all add: serialize_account_id_def)
  moreover have "ts_token p = ts_token q"
  proof -
    obtain b where "serialize_amount lib (Issued (ts_token p) (token_amount_max lib)) = Inr b"
      "serialize_amount lib (Issued (ts_token q) (token_amount_max lib)) = Inr b"
      using eq [of "(6, 3)"] ok [of "(6, 3)"] unfolding r by auto
    then show ?thesis by (rule limit_amount_determined [OF assms(2), rotated 2]) (use assms(3,4) in simp_all)
  qed
  ultimately show ?thesis by simp
qed

section \<open>Properties\<close>

lemma to_sign_same_fields:
  assumes "amount_codec lib" "unsigned_tx_wf (tts_unsigned_tx a)" "unsigned_tx_wf (tts_unsigned_tx b)"
    and "serialize_tx_to_sign lib a = Inr x" "serialize_tx_to_sign lib b = Inr x"
  obtains ms ms' where "tx_to_sign_memos lib a = Inr ms" "tx_to_sign_memos lib b = Inr ms'"
    "same_fields
       (tx_fields lib (tts_unsigned_tx a) @ [(Memos, (array_type_code, serialize_array Memo memo_object ms))])
       (tx_fields lib (tts_unsigned_tx b) @ [(Memos, (array_type_code, serialize_array Memo memo_object ms'))])"
proof -
  obtain oa ob where o: "tx_to_sign_object lib a = Inr oa" "tx_to_sign_object lib b = Inr ob"
    "serialize_object oa = serialize_object ob"
    using assms(4,5) by (auto simp: serialize_tx_to_sign_def rbind_Inr_iff)
  obtain ms where ms: "tx_to_sign_memos lib a = Inr ms"
    "xrpl_json (tx_fields lib (tts_unsigned_tx a) @
       [(Memos, (array_type_code, serialize_array Memo memo_object ms))]) = Inr oa"
    using tx_to_sign_object_fields [OF o(1)] .
  obtain ms' where ms': "tx_to_sign_memos lib b = Inr ms'"
    "xrpl_json (tx_fields lib (tts_unsigned_tx b) @
       [(Memos, (array_type_code, serialize_array Memo memo_object ms'))]) = Inr ob"
    using tx_to_sign_object_fields [OF o(2)] .
  note d = fields_determined [OF ms(2) ms'(2) o(3) tx_fields_ok [OF assms(1,2)] tx_fields_ok [OF assms(1,3)]
      tx_fields_distinct tx_fields_distinct]
  show ?thesis by (rule that [OF ms(1) ms'(1)]) (use d in \<open>unfold same_fields_def, blast\<close>)
qed

primrec tx_type_code :: "xrpl_unsigned_tx \<Rightarrow> u16" where
  "tx_type_code (Payment _) = 0"
| "tx_type_code (TicketCreate _) = 10"
| "tx_type_code (SignerListSet _) = 12"
| "tx_type_code (TrustSet _) = 20"

lemma type_code_result: "field_result (tx_fields lib tx @ fvs) (1, 2) = Some (serialize_u16 (tx_type_code tx))"
  by (cases tx) (simp_all add: field_result_def field_key_def PAYMENT_TX_TYPE_def TICKET_CREATE_TX_TYPE_def
      SIGNER_LIST_SET_TX_TYPE_def TRUST_SET_TX_TYPE_def)

lemma tx_determined:
  assumes "same_fields (tx_fields lib tx @ [(Memos, v)]) (tx_fields lib tx' @ [(Memos, v')])"
    and "amount_codec lib" "unsigned_tx_wf tx" "unsigned_tx_wf tx'" "fst v = 15" "fst v' = 15"
  shows "erase_cc_id tx = erase_cc_id tx'"
proof -
  have "tx_type_code tx = tx_type_code tx'"
    using same_fieldsD(1) [OF assms(1), of "(1, 2)"] unfolding type_code_result serialize_u16_def by simp
  then show ?thesis
    using payment_determined [of lib _ v _ v'] ticket_create_determined [of lib _ v _ v']
      signer_list_set_determined [of lib _ v _ v'] trust_set_determined [of lib _ v _ v'] assms
    by (cases tx; cases tx') (simp_all del: tx_fields.simps unsigned_tx_wf.simps)
qed

lemma memos_result:
  "field_result (tx_fields lib tx @ [(Memos, (array_type_code, v))]) (15, 9) = Some v"
  by (cases tx)
    (simp_all add: field_result_def field_key_def sequence_fields_case cross_currency_fields_def
      split: xrpl_sequence.split option.split)

text \<open>
  C9: Different transactions have different bytes to sign. If two well-formed transactions differ in
  anything but the cross-chain id recorded in a payment, or if the cross-chain ids given to the signers
  differ, then the bytes the prover sends to the multisig differ. Relies on issued amounts having their
  documented format: eight bytes starting with the bit of issued amounts, one encoding per amount.
\<close>

theorem tx_to_sign_unique:
  assumes "amount_codec lib" "unsigned_tx_wf (tts_unsigned_tx a)" "unsigned_tx_wf (tts_unsigned_tx b)"
    and "serialize_tx_to_sign lib a = Inr x" "serialize_tx_to_sign lib b = Inr y"
    and "erase_cc_id (tts_unsigned_tx a) \<noteq> erase_cc_id (tts_unsigned_tx b) \<or> tts_cc_id a \<noteq> tts_cc_id b"
  shows "x \<noteq> y"
proof
  assume "x = y"
  then obtain ms ms' where ms: "tx_to_sign_memos lib a = Inr ms" "tx_to_sign_memos lib b = Inr ms'"
    and s: "same_fields
       (tx_fields lib (tts_unsigned_tx a) @ [(Memos, (array_type_code, serialize_array Memo memo_object ms))])
       (tx_fields lib (tts_unsigned_tx b) @ [(Memos, (array_type_code, serialize_array Memo memo_object ms'))])"
    using to_sign_same_fields [OF assms(1-4)] assms(5) by blast
  have "\<exists>c. serialize_array Memo memo_object ms = Inr c \<and> serialize_array Memo memo_object ms' = Inr c"
    using same_fieldsD [OF s, of "(15, 9)"] unfolding memos_result by auto
  then have "ms = ms'" using memos_determined by blast
  then have "tts_cc_id a = tts_cc_id b" using memos_cc_id ms by blast
  moreover have "erase_cc_id (tts_unsigned_tx a) = erase_cc_id (tts_unsigned_tx b)"
    by (rule tx_determined [OF s assms(1-3)]) simp_all
  ultimately show False using assms(6) by blast
qed

section \<open>A concrete payment\<close>

definition demo_payment :: "u64 \<Rightarrow> xrpl_unsigned_tx_to_sign" where
  "demo_payment drops =
     \<lparr>tts_unsigned_tx = Payment
        \<lparr>pay_account = replicate 20 1, pay_fee = 330, pay_sequence = Ticket 7, pay_amount = Drops drops,
         pay_destination = replicate 20 2, pay_cross_currency = None, pay_cc_id = None\<rparr>,
      tts_unsigned_tx_hash = [], tts_cc_id = None\<rparr>"

definition demo_bytes :: "u64 \<Rightarrow> bytes" where
  "demo_bytes drops = (case serialize_tx_to_sign demo_lib (demo_payment drops) of Inr b \<Rightarrow> b | Inl _ \<Rightarrow> [])"

theorem tx_to_sign_unique_witness:
  "serialize_tx_to_sign demo_lib (demo_payment 100) = Inr (demo_bytes 100) \<and>
   serialize_tx_to_sign demo_lib (demo_payment 101) = Inr (demo_bytes 101) \<and> demo_bytes 100 \<noteq> demo_bytes 101"
proof -
  have 1: "serialize_tx_to_sign demo_lib (demo_payment 100) = Inr (demo_bytes 100)" by code_simp
  have 2: "serialize_tx_to_sign demo_lib (demo_payment 101) = Inr (demo_bytes 101)" by code_simp
  have "demo_bytes 100 \<noteq> demo_bytes 101"
    by (rule tx_to_sign_unique [OF demo_lib_codec _ _ 1 2]) (simp_all add: demo_payment_def)
  with 1 2 show ?thesis by simp
qed

end
