(* ===== verification/Axelar_Verifiers.thy ===== *)
theory Axelar_Verifiers
  imports Xrpl_Serialize "HOL-Library.Multiset"
begin

unbundle bit_operations_syntax

text \<open>
  The verifier sets of the XRPL prover (\<open>contracts/xrpl-multisig-prover/src/axelar_verifiers.rs\<close>) and their
  counterparts in the multisig contract (\<open>contracts/multisig/src/verifier_set.rs\<close>). XRPL allows 32 signers
  with 16 bit weights, so the prover keeps the heaviest verifiers and scales their weights. The lemmas
  show that the scaling is exact up to rounding down and never overflows, and that the quorum of a set
  is reachable and more than half of its weight.
\<close>

definition MAX_SIGNERS :: u8 where "MAX_SIGNERS = 32"

section \<open>Verifier sets\<close>

record verifier_set =
  vs_signers :: "axelar_signer list"
  vs_quorum :: u32
  vs_created_at :: u64

record ms_signer =
  ms_address :: addr
  ms_weight :: u128
  ms_pub_key :: public_key

record ms_verifier_set =
  mvs_signers :: "(string, ms_signer) btree_map"
  mvs_threshold :: u128
  mvs_created_at :: u64

definition ms_verifier_set_new :: "(participant \<times> public_key) list \<Rightarrow> u128 \<Rightarrow> u64 \<Rightarrow> ms_verifier_set" where
  "ms_verifier_set_new participants threshold block_height =
     \<lparr>mvs_signers =
        bt_from_iter
          (map (\<lambda>(p, k). (p_address p, \<lparr>ms_address = p_address p, ms_weight = p_weight p, ms_pub_key = k\<rparr>)) participants),
      mvs_threshold = threshold,
      mvs_created_at = block_height\<rparr>"

definition ms_verifier_set_hash :: "(bytes \<Rightarrow> bytes) \<Rightarrow> ms_verifier_set \<Rightarrow> bytes" where
  "ms_verifier_set_hash keccak256 vs =
     keccak256
       (be_bytes 4 (of_nat (length (mvs_signers vs)) :: u32) @
        concat (map (\<lambda>(_, s). string_bytes (ms_address s) @ key_bytes (ms_pub_key s) @ be_bytes 16 (ms_weight s))
          (mvs_signers vs)) @
        be_bytes 16 (mvs_threshold vs) @
        be_bytes 8 (mvs_created_at vs))"

text \<open>\<open>HexBinary::to_hex\<close>: two lower case digits per byte.\<close>

definition hex_digit :: "nat \<Rightarrow> char" where
  "hex_digit n = ''0123456789abcdef'' ! n"

definition to_hex :: "bytes \<Rightarrow> string" where
  "to_hex b = concat (map (\<lambda>x. [hex_digit (unat x div 16), hex_digit (unat x mod 16)]) b)"

definition ms_verifier_set_id :: "(bytes \<Rightarrow> bytes) \<Rightarrow> ms_verifier_set \<Rightarrow> string" where
  "ms_verifier_set_id keccak256 vs = to_hex (ms_verifier_set_hash keccak256 vs)"

definition verifier_set_try_from :: "xrpl_lib \<Rightarrow> verifier_set \<Rightarrow> prover_error + ms_verifier_set" where
  "verifier_set_try_from lib vs =
     (let threshold = ucast (vs_quorum vs)
      in rbind (try_map (\<lambda>s.
           rbind (ok_or (InvalidSigner s) (participant_try_from lib s)) (\<lambda>participant.
           Inr (participant, as_pub_key s))) (vs_signers vs)) (\<lambda>participants.
         Inr (ms_verifier_set_new participants threshold (vs_created_at vs))))"

section \<open>Weights\<close>

definition convert_uint128_to_u16 :: "u128 \<Rightarrow> prover_error + u16" where
  "convert_uint128_to_u16 value =
     (if value > 65535 then Inl Overflow
      else let bytes = rev (be_bytes 16 value)
           in Inr (ucast (bytes ! 0) OR push_bit 8 (ucast (bytes ! 1))))"

text \<open>\<open>Uint128::multiply_ratio\<close>: the product is computed in 256 bits, a zero divisor and a quotient that
  does not fit panic.\<close>

definition multiply_ratio :: "u128 \<Rightarrow> u128 \<Rightarrow> u128 \<Rightarrow> prover_error + u128" where
  "multiply_ratio a num den =
     (if den = 0 then Inl (ProverPanic ''Denominator must not be zero'')
      else ok_or (ProverPanic ''Multiplication overflow'')
             (try_of_nat (unat a * unat num div unat den)))"

definition convert_or_scale_weights :: "u128 list \<Rightarrow> prover_error + u16 list" where
  "convert_or_scale_weights weights =
     (case weights of
        [] \<Rightarrow> Inr []
      | w # ws \<Rightarrow>
          (let max_weight = foldl max w ws
           in try_map (\<lambda>weight.
                rbind (multiply_ratio weight 65535 max_weight) (\<lambda>scaled.
                convert_uint128_to_u16 scaled)) weights))"

definition mul_ceil :: "u64 \<Rightarrow> u64 \<Rightarrow> u64 \<Rightarrow> prover_error + u64" where
  "mul_ceil val num den =
     rbind (ok_or Overflow (checked_mul val num)) (\<lambda>dividend.
     rbind (ok_or DivisionByZero (checked_div dividend den)) (\<lambda>floor_result.
     rbind (ok_or DivisionByZero (checked_rem dividend den)) (\<lambda>remainder.
     if remainder > 0 then ok_or Overflow (checked_add floor_result 1) else Inr floor_result)))"

section \<open>Building a verifier set\<close>

text \<open>What the queries to the service registry and to the multisig answer.\<close>

record weighted_verifier =
  wv_address :: addr
  wv_weight :: u128

record service_info =
  svc_min_num_verifiers :: u16
  svc_max_num_verifiers :: "u16 option"

record verifiers_env =
  env_active_verifiers :: "weighted_verifier list option"
  env_service :: "service_info option"
  env_public_key :: "addr \<Rightarrow> public_key option"

text \<open>\<open>BTreeSet::from_iter\<close> with the order of signers.\<close>

fun bset_insert :: "('a \<Rightarrow> 'a \<Rightarrow> bool) \<Rightarrow> 'a \<Rightarrow> 'a list \<Rightarrow> 'a list" where
  "bset_insert le x [] = [x]"
| "bset_insert le x (y # ys) =
     (if le x y then if le y x then x # ys else x # y # ys
      else y # bset_insert le x ys)"

definition bset_from_iter :: "('a \<Rightarrow> 'a \<Rightarrow> bool) \<Rightarrow> 'a list \<Rightarrow> 'a list" where
  "bset_from_iter le xs = foldl (\<lambda>s x. bset_insert le x s) [] xs"

definition max_num_verifiers :: "service_info \<Rightarrow> u16" where
  "max_num_verifiers service =
     (case svc_max_num_verifiers service of
        None \<Rightarrow> ucast MAX_SIGNERS
      | Some configured \<Rightarrow> min configured (ucast MAX_SIGNERS))"

definition select_verifiers ::
    "u16 \<Rightarrow> (weighted_verifier \<times> public_key) list \<Rightarrow> (weighted_verifier \<times> public_key) list" where
  "select_verifiers max_num ps =
     (if length ps > unat max_num
      then take (unat max_num) (sort_key (\<lambda>(v, _). - int (unat (wv_weight v))) ps)
      else ps)"

definition make_verifier_set ::
    "xrpl_lib \<Rightarrow> threshold \<Rightarrow> verifiers_env \<Rightarrow> u64 \<Rightarrow> prover_error + verifier_set" where
  "make_verifier_set lib signing_threshold env block_height =
     rbind (ok_or FailedToBuildVerifierSet (env_active_verifiers env)) (\<lambda>verifiers.
     rbind (ok_or FailedToBuildVerifierSet (env_service env)) (\<lambda>service.
     (let participants_with_pubkeys =
            List.map_filter (\<lambda>v. map_option (\<lambda>k. (v, k)) (env_public_key env (wv_address v))) verifiers
      in if length participants_with_pubkeys < unat (svc_min_num_verifiers service) then Inl NotEnoughVerifiers
         else
           let ps = select_verifiers (max_num_verifiers service) participants_with_pubkeys
           in rbind (convert_or_scale_weights (map (\<lambda>(v, _). wv_weight v) ps)) (\<lambda>weights.
              (let signers =
                     map (\<lambda>((v, k), w). \<lparr>as_address = wv_address v, as_weight = w, as_pub_key = k\<rparr>) (zip ps weights);
                   sum_of_weights = sum_list (map ucast weights)
               in rbind (mul_ceil sum_of_weights (numerator signing_threshold) (denominator signing_threshold)) (\<lambda>quorum.
                  rbind (ok_or (QuorumTooLarge quorum) (try_narrow quorum)) (\<lambda>q.
                  Inr \<lparr>vs_signers = bset_from_iter (axelar_signer_le lib) signers,
                       vs_quorum = q,
                       vs_created_at = block_height\<rparr>)))))))"

section \<open>Comparing verifier sets\<close>

definition signers_difference_count ::
    "(string, ms_signer) btree_map \<Rightarrow> (string, ms_signer) btree_map \<Rightarrow> nat" where
  "signers_difference_count s1 s2 = length (filter (\<lambda>v. v \<notin> set (map snd s2)) (map snd s1))"

definition signers_symetric_difference_count ::
    "(string, ms_signer) btree_map \<Rightarrow> (string, ms_signer) btree_map \<Rightarrow> nat" where
  "signers_symetric_difference_count s1 s2 = signers_difference_count s1 s2 + signers_difference_count s2 s1"

definition should_update_verifier_set :: "ms_verifier_set \<Rightarrow> ms_verifier_set \<Rightarrow> nat \<Rightarrow> bool" where
  "should_update_verifier_set new_verifiers cur_verifiers max_diff \<longleftrightarrow>
     mvs_threshold new_verifiers \<noteq> mvs_threshold cur_verifiers \<or>
     signers_symetric_difference_count (mvs_signers new_verifiers) (mvs_signers cur_verifiers) > max_diff"

section \<open>Scaling is rounding down\<close>

lemma convert_uint128_to_u16_eq:
  assumes "unat v \<le> 65535"
  shows "convert_uint128_to_u16 v = Inr (ucast v)"
proof -
  have b: "rev (be_bytes 16 v) ! 0 = ucast v" "rev (be_bytes 16 v) ! 1 = ucast (drop_bit 8 v)"
    by (simp_all add: be_bytes_def rev_nth)
  have "(ucast (ucast v :: u8) :: u16) OR push_bit 8 (ucast (ucast (drop_bit 8 v) :: u8)) = ucast v"
    by (rule bit_word_eqI) (auto simp: bit_simps)
  moreover have "\<not> v > 65535" using assms by (simp add: word_less_nat_alt)
  ultimately show ?thesis by (simp add: convert_uint128_to_u16_def b Let_def del: One_nat_def)
qed

lemma scale_le:
  assumes "w \<le> m" "0 < (m::nat)"
  shows "w * 65535 div m \<le> 65535"
proof -
  have "w * 65535 \<le> 65535 * m" using assms(1) by simp
  then have "w * 65535 div m \<le> 65535 * m div m" by (rule div_le_mono)
  then show ?thesis using assms(2) by simp
qed

lemma foldl_max_ge: "w \<in> set (x # xs) \<Longrightarrow> w \<le> foldl max x (xs :: 'a::linorder list)"
proof (induction xs arbitrary: x w)
  case (Cons a xs)
  have "max x a \<le> foldl max (max x a) xs" by (rule Cons.IH) simp
  with Cons show ?case by auto
qed simp

lemma foldl_max_in: "foldl max x (xs :: 'a::linorder list) \<in> set (x # xs)"
  by (induction xs arbitrary: x) (simp_all add: max_def, metis)

lemma convert_or_scale_weights_eq:
  assumes "ws = x # xs" "m = foldl max x xs" "m \<noteq> 0"
  shows "convert_or_scale_weights ws = Inr (map (\<lambda>w. of_nat (unat w * 65535 div unat m)) ws)"
proof -
  have "rbind (multiply_ratio w 65535 m) convert_uint128_to_u16 = Inr (of_nat (unat w * 65535 div unat m))"
    if "w \<in> set ws" for w
  proof -
    have "unat w \<le> unat m" using foldl_max_ge that assms(1,2) by (metis word_le_nat_alt)
    then have le: "unat w * 65535 div unat m \<le> 65535"
      using assms(3) by (intro scale_le) (simp_all add: unat_gt_0)
    then have u: "unat (of_nat (unat w * 65535 div unat m) :: u128) = unat w * 65535 div unat m"
      by (simp add: unat_of_nat)
    have "multiply_ratio w 65535 m = Inr (of_nat (unat w * 65535 div unat m))"
      using assms(3) le by (simp add: multiply_ratio_def try_of_nat_def)
    moreover have "convert_uint128_to_u16 (of_nat (unat w * 65535 div unat m)) =
        Inr (of_nat (unat w * 65535 div unat m))"
      using convert_uint128_to_u16_eq [of "of_nat (unat w * 65535 div unat m)"] le u
      by (simp add: unsigned_of_nat take_bit_nat_eq_self)
    ultimately show ?thesis by simp
  qed
  then show ?thesis
    using assms(1,2) by (simp only: convert_or_scale_weights_def list.case Let_def) (rule try_map_total, simp)
qed

section \<open>The quorum\<close>

lemma mul_ceil_Inr:
  assumes "mul_ceil v n d = Inr q"
  shows "unat d \<noteq> 0"
    and "unat q = unat v * unat n div unat d + (if unat v * unat n mod unat d = 0 then 0 else 1)"
proof -
  obtain p f r where p: "checked_mul v n = Some p" and f: "checked_div p d = Some f"
    and r: "checked_rem p d = Some r"
    and q: "(if r > 0 then ok_or Overflow (checked_add f 1) else Inr f) = Inr q"
    using assms by (auto simp: mul_ceil_def rbind_Inr_iff ok_or_Inr_iff)
  have "unat p = unat v * unat n" "unat d \<noteq> 0" "unat f = unat p div unat d" "unat r = unat p mod unat d"
    using p f r by (auto simp: checked_mul_Some checked_div_Some checked_rem_Some unat_div unat_mod unat_eq_zero)
  moreover have "unat q = unat f + (if unat r = 0 then 0 else 1)"
    using q by (auto simp: ok_or_Inr_iff checked_add_Some unat_gt_0 word_less_nat_alt split: if_splits)
  ultimately show "unat d \<noteq> 0"
    "unat q = unat v * unat n div unat d + (if unat v * unat n mod unat d = 0 then 0 else 1)"
    by simp_all
qed

lemma mul_ceil_le:
  assumes "mul_ceil v n d = Inr q" "unat n \<le> unat d"
  shows "unat q \<le> unat v"
proof -
  let ?p = "unat v * unat n" and ?d = "unat d"
  have p: "?p \<le> unat v * ?d" using assms(2) by simp
  have d: "0 < ?d" using mul_ceil_Inr(1) [OF assms(1)] by simp
  show ?thesis
  proof (cases "?p mod ?d = 0")
    case True
    then have "unat q = ?p div ?d" using mul_ceil_Inr(2) [OF assms(1)] by simp
    also have "\<dots> \<le> unat v * ?d div ?d" using p by (rule div_le_mono)
    finally show ?thesis using d by simp
  next
    case False
    then have "?p \<noteq> unat v * ?d" by (metis mod_mult_self2_is_0)
    then have "?p < unat v * ?d" using p by simp
    then have "?p div ?d < unat v" by (rule less_mult_imp_div_less)
    then show ?thesis using mul_ceil_Inr(2) [OF assms(1)] False by simp
  qed
qed

lemma mul_ceil_majority_u64:
  assumes "mul_ceil v n d = Inr q" "unat d < 2 * unat n" "0 < unat v"
  shows "unat v < 2 * unat q"
proof (rule ccontr)
  assume "\<not> unat v < 2 * unat q"
  then have "2 * unat q * unat d \<le> unat v * unat d" by (intro mult_le_mono1) simp
  moreover have "unat v * unat d < unat v * (2 * unat n)" using assms(2,3) by simp
  moreover have "unat v * unat n \<le> unat q * unat d"
    using mul_ceil_Inr [OF assms(1)] ceil_div_ge [of "unat d" "unat v * unat n"] by simp
  ultimately show False by linarith
qed

section \<open>The signers\<close>

text \<open>What the order of signers must give: it is total and antisymmetric.\<close>

definition signer_order :: "xrpl_lib \<Rightarrow> bool" where
  "signer_order lib \<longleftrightarrow>
     (\<forall>x y. axelar_signer_le lib x y \<or> axelar_signer_le lib y x) \<and>
     (\<forall>x y. axelar_signer_le lib x y \<and> axelar_signer_le lib y x \<longrightarrow> x = y)"

lemma mset_bset_insert:
  assumes "\<And>x y. le x y \<Longrightarrow> le y x \<Longrightarrow> x = y" "x \<notin> set ys"
  shows "mset (bset_insert le x ys) = add_mset x (mset ys)"
  using assms(2) by (induction ys) (use assms(1) in auto)

lemma mset_bset_from_iter:
  assumes "\<And>x y. le x y \<Longrightarrow> le y x \<Longrightarrow> x = y" "distinct xs"
  shows "mset (bset_from_iter le xs) = mset xs"
  using assms(2)
proof (induction xs rule: rev_induct)
  case (snoc x xs)
  then have m: "mset (bset_from_iter le xs) = mset xs" by simp
  then have "x \<notin> set (bset_from_iter le xs)" using snoc.prems by (metis distinct.simps(2) distinct_append not_distinct_conv_prefix set_mset_mset)
  then show ?case using m assms(1) by (simp add: bset_from_iter_def mset_bset_insert)
qed (simp add: bset_from_iter_def)

lemma select_verifiers_length: "length (select_verifiers m ps) \<le> unat m"
  by (simp add: select_verifiers_def)

lemma select_verifiers_distinct:
  "distinct (map f ps) \<Longrightarrow> distinct (map f (select_verifiers m ps))"
proof -
  assume d: "distinct (map f ps)"
  have "distinct (map f (sort_key k ps))" for k :: "_ \<Rightarrow> int"
    using d by (simp add: distinct_map)
  then have "distinct (map f (take n (sort_key k ps)))" for n and k :: "_ \<Rightarrow> int"
    unfolding take_map [symmetric] by (rule distinct_take)
  with d show ?thesis by (simp add: select_verifiers_def)
qed

lemma select_verifiers_heaviest:
  assumes "p \<in> set ps" "p \<notin> set (select_verifiers m ps)" "s \<in> set (select_verifiers m ps)"
  shows "wv_weight (fst p) \<le> wv_weight (fst s)"
proof -
  let ?k = "\<lambda>(v, _). - int (unat (wv_weight v))"
  let ?l = "sort_key ?k ps"
  have long: "length ps > unat m" and sel: "select_verifiers m ps = take (unat m) ?l"
    using assms(1,2) by (auto simp: select_verifiers_def split: if_splits)
  have "sorted (map ?k (take (unat m) ?l @ drop (unat m) ?l))" by simp
  moreover have "p \<in> set (drop (unat m) ?l)"
  proof -
    have "set (take (unat m) ?l) \<union> set (drop (unat m) ?l) = set ps"
      by (simp only: set_append [symmetric] append_take_drop_id set_sort)
    moreover have "p \<notin> set (take (unat m) ?l)" using assms(2) unfolding sel .
    ultimately show ?thesis using assms(1) by (metis UnE)
  qed
  moreover have "s \<in> set (take (unat m) ?l)" using assms(3) sel by simp
  ultimately have "?k s \<le> ?k p" unfolding map_append sorted_append by simp
  then show ?thesis by (simp add: split_beta word_le_def)
qed

lemma max_num_verifiers_le:
  "unat (max_num_verifiers svc) \<le> 32"
  "svc_max_num_verifiers svc = Some m \<Longrightarrow> unat (max_num_verifiers svc) \<le> unat m"
  by (auto simp: max_num_verifiers_def MAX_SIGNERS_def min_def word_le_nat_alt split: option.split)

lemma unat_ucast_up:
  "LENGTH('a) \<le> LENGTH('b) \<Longrightarrow> unat (ucast (w :: 'a::len word) :: 'b::len word) = unat w"
  by (simp add: unsigned_ucast_eq unsigned_take_bit_eq [symmetric] take_bit_word_eq_self)

lemma try_narrow_Some: "try_narrow (a :: 'a::len word) = Some (b :: 'b::len word) \<Longrightarrow> unat b = unat a"
  by (auto simp: try_narrow_def unsigned_ucast_eq unsigned_take_bit_eq take_bit_nat_eq_self split: if_splits)

lemma convert_or_scale_weights_length:
  "convert_or_scale_weights ws = Inr rs \<Longrightarrow> length rs = length ws"
  by (cases ws) (auto simp: convert_or_scale_weights_def Let_def simp del: try_map.simps dest: try_map_length)

lemma sum_weights_u64:
  assumes "length ws \<le> 32"
  shows "unat (sum_list (map ucast ws) :: u64) = sum_list (map unat (ws :: u16 list))"
    and "sum_list (map unat ws) \<le> length ws * 65535"
proof -
  show le: "sum_list (map unat ws) \<le> length ws * 65535" for ws :: "u16 list"
  proof (induction ws)
    case (Cons w ws)
    have "unat w \<le> 65535" using unat_bound [of w] by simp
    with Cons show ?case by simp
  qed simp
  show "unat (sum_list (map ucast ws) :: u64) = sum_list (map unat ws)"
    using assms
  proof (induction ws)
    case (Cons w ws)
    have "unat w \<le> 65535" using unat_bound [of w] by simp
    then have "sum_list (map unat (w # ws)) < 2 ^ 64"
      using le [of ws] Cons.prems by simp
    moreover have "unat (ucast w :: u64) = unat w" by (rule unat_ucast_up) simp
    ultimately show ?case using Cons by (simp add: unat_plus_no_overflow)
  qed simp
qed

definition signer_of :: "weighted_verifier \<times> public_key \<Rightarrow> u16 \<Rightarrow> axelar_signer" where
  "signer_of p w = \<lparr>as_address = wv_address (fst p), as_weight = w, as_pub_key = snd p\<rparr>"

lemma make_verifier_setE:
  assumes "make_verifier_set lib thr env h = Inr vs"
  obtains verifiers service ps weights q where
    "env_active_verifiers env = Some verifiers" "env_service env = Some service"
    "ps = select_verifiers (max_num_verifiers service)
       (List.map_filter (\<lambda>v. map_option (\<lambda>k. (v, k)) (env_public_key env (wv_address v))) verifiers)"
    "convert_or_scale_weights (map (wv_weight \<circ> fst) ps) = Inr weights" "length weights = length ps"
    "mul_ceil (sum_list (map ucast weights)) (numerator thr) (denominator thr) = Inr q"
    "unat (vs_quorum vs) = unat q"
    "vs_signers vs = bset_from_iter (axelar_signer_le lib) (map2 signer_of ps weights)"
proof -
  obtain verifiers service where e: "env_active_verifiers env = Some verifiers" "env_service env = Some service"
    using assms by (auto simp: make_verifier_set_def rbind_Inr_iff ok_or_Inr_iff)
  define ps where "ps = select_verifiers (max_num_verifiers service)
       (List.map_filter (\<lambda>v. map_option (\<lambda>k. (v, k)) (env_public_key env (wv_address v))) verifiers)"
  have f: "(\<lambda>(v, _). wv_weight v) = wv_weight \<circ> (fst :: weighted_verifier \<times> public_key \<Rightarrow> _)"
    "(\<lambda>((v, k), w). \<lparr>as_address = wv_address v, as_weight = w, as_pub_key = k\<rparr>) = (\<lambda>(p, w). signer_of p w)"
    by (auto simp: signer_of_def)
  obtain weights q where w: "convert_or_scale_weights (map (wv_weight \<circ> fst) ps) = Inr weights"
    "mul_ceil (sum_list (map ucast weights)) (numerator thr) (denominator thr) = Inr q"
    "try_narrow q = Some (vs_quorum vs)"
    "vs_signers vs = bset_from_iter (axelar_signer_le lib) (map2 signer_of ps weights)"
    using assms e unfolding make_verifier_set_def Let_def
    by (auto simp: rbind_Inr_iff ok_or_Inr_iff f ps_def [symmetric] split: if_splits)
  have "length weights = length ps"
    using convert_or_scale_weights_length [OF w(1)] by simp
  moreover have "unat (vs_quorum vs) = unat q"
    using w(3) by (rule try_narrow_Some)
  ultimately show ?thesis using that [OF e ps_def w(1) _ w(2) _ w(4)] by blast
qed

lemma map_filter_distinct_fst:
  "distinct (map g vs) \<Longrightarrow>
    distinct (map (g \<circ> fst) (List.map_filter (\<lambda>v. map_option (\<lambda>k. (v, k)) (f v)) vs))"
  by (induction vs) (auto simp: map_filter_simps map_filter_def split: option.splits)

lemma sum_signer_weights:
  assumes "signer_order lib" "length ws = length ps" "distinct (map (wv_address \<circ> fst) ps)"
  shows "sum_list (map (unat \<circ> as_weight) (bset_from_iter (axelar_signer_le lib) (map2 signer_of ps ws))) =
      sum_list (map unat ws)"
    and "length (bset_from_iter (axelar_signer_le lib) (map2 signer_of ps ws)) = length ps"
proof -
  have "map as_address (map2 signer_of ps ws) = map (wv_address \<circ> fst) ps"
    using assms(2) by (intro nth_equalityI) (simp_all add: signer_of_def)
  then have "distinct (map2 signer_of ps ws)" using assms(3) by (metis distinct_map)
  then have m: "mset (bset_from_iter (axelar_signer_le lib) (map2 signer_of ps ws)) = mset (map2 signer_of ps ws)"
    by (rule mset_bset_from_iter [rotated]) (use assms(1) in \<open>auto simp: signer_order_def\<close>)
  then have "mset (map (unat \<circ> as_weight) (bset_from_iter (axelar_signer_le lib) (map2 signer_of ps ws))) =
      mset (map (unat \<circ> as_weight) (map2 signer_of ps ws))" by (metis mset_map)
  then have "sum_list (map (unat \<circ> as_weight) (bset_from_iter (axelar_signer_le lib) (map2 signer_of ps ws))) =
      sum_list (map (unat \<circ> as_weight) (map2 signer_of ps ws))" by (metis sum_mset_sum_list)
  moreover have "map (unat \<circ> as_weight) (map2 signer_of ps ws) = map unat ws"
    using assms(2) by (intro nth_equalityI) (simp_all add: signer_of_def)
  ultimately show "sum_list (map (unat \<circ> as_weight) (bset_from_iter (axelar_signer_le lib) (map2 signer_of ps ws))) =
      sum_list (map unat ws)" by simp
  show "length (bset_from_iter (axelar_signer_le lib) (map2 signer_of ps ws)) = length ps"
    using m assms(2) by (metis length_map length_zip min.idem size_mset)
qed

lemma scaled_weights_positive:
  assumes "convert_or_scale_weights ws = Inr rs" "ws \<noteq> []"
  shows "0 < sum_list (map unat rs)"
proof -
  obtain x xs where ws: "ws = x # xs" using assms(2) by (cases ws) auto
  define m where "m = foldl max x xs"
  have "m \<noteq> 0"
    using assms(1) ws by (auto simp: convert_or_scale_weights_def m_def multiply_ratio_def Let_def rbind_Inr_iff)
  then have rs: "rs = map (\<lambda>w. of_nat (unat w * 65535 div unat m)) ws"
    using convert_or_scale_weights_eq [OF ws m_def] assms(1) by simp
  have "m \<in> set ws" using foldl_max_in [of x xs] ws m_def by simp
  then have "(of_nat (unat m * 65535 div unat m) :: u16) \<in> set rs" unfolding rs set_map by (rule imageI)
  moreover have "unat m * 65535 div unat m = 65535" using \<open>m \<noteq> 0\<close> by (simp add: unat_eq_zero)
  ultimately have "65535 \<in> set rs" by simp
  then have "unat (65535 :: u16) \<in> set (map unat rs)" unfolding set_map by (rule imageI)
  then have "unat (65535 :: u16) \<le> sum_list (map unat rs)" by (rule member_le_sum_list) simp
  then show ?thesis by simp
qed

section \<open>Properties\<close>

text \<open>
  C14: Scaling the verifiers' weights to 16 bits is multiplication by 65535 over the largest weight,
  rounded down, and never overflows: with a nonzero largest weight every weight is converted, the
  largest becomes 65535, and no weight passes a heavier one.
\<close>

theorem scale_weights_exact:
  assumes "weights \<noteq> []" "m = Max (set weights)" "m \<noteq> 0"
  shows "convert_or_scale_weights weights = Inr (map (\<lambda>w. of_nat (unat w * 65535 div unat m)) weights) \<and>
    (\<forall>w \<in> set weights. unat (of_nat (unat w * 65535 div unat m) :: u16) = unat w * 65535 div unat m)"
proof (intro conjI)
  obtain x xs where ws: "weights = x # xs" using assms(1) by (cases weights) auto
  have "foldl max x xs = Max (set weights)"
    by (rule Max_eqI [symmetric]) (use foldl_max_ge [of _ x xs] foldl_max_in [of x xs] ws in \<open>simp_all only: finite_set List.finite_set list.set finite_insert\<close>)
  then have m: "m = foldl max x xs" using assms(2) by simp
  show "convert_or_scale_weights weights = Inr (map (\<lambda>w. of_nat (unat w * 65535 div unat m)) weights)"
    by (rule convert_or_scale_weights_eq [OF ws m assms(3)])
  show "\<forall>w \<in> set weights. unat (of_nat (unat w * 65535 div unat m) :: u16) = unat w * 65535 div unat m"
  proof
    fix w assume "w \<in> set weights"
    then have "unat w \<le> unat m" using assms(2) by (simp add: word_le_nat_alt [symmetric])
    then have "unat w * 65535 div unat m \<le> 65535" using assms(3) by (intro scale_le) (simp_all add: unat_gt_0)
    then show "unat (of_nat (unat w * 65535 div unat m) :: u16) = unat w * 65535 div unat m"
      by (simp add: unat_of_nat)
  qed
qed

theorem scale_weights_exact_witness:
  "convert_or_scale_weights [1, 2, 3] = Inr [21845, 43690, 65535]"
proof -
  have m: "(3 :: u128) = Max (set [1, 2, 3])" by (simp add: max_def)
  show ?thesis using scale_weights_exact [OF _ m] by simp
qed

text \<open>
  C10: A verifier set built by the prover can be put on XRPL and is safe there. It has at most 32
  signers, at most the number the service allows, and unless it is empty its quorum is more than half of
  the total weight of its signers and at most all of it. Relies on the order of signers being total and
  antisymmetric and on the registry listing no verifier twice.
\<close>

theorem make_verifier_set_safe:
  assumes "make_verifier_set lib thr env h = Inr vs" "signer_order lib" "is_majority thr"
    and "env_active_verifiers env = Some verifiers" "distinct (map wv_address verifiers)"
    and "env_service env = Some service"
  shows "length (vs_signers vs) \<le> 32 \<and>
    (\<forall>m. svc_max_num_verifiers service = Some m \<longrightarrow> length (vs_signers vs) \<le> unat m) \<and>
    (vs_signers vs \<noteq> [] \<longrightarrow>
       sum_list (map (unat \<circ> as_weight) (vs_signers vs)) < 2 * unat (vs_quorum vs) \<and>
       unat (vs_quorum vs) \<le> sum_list (map (unat \<circ> as_weight) (vs_signers vs)))"
proof -
  obtain verifiers' service' ps ws q where e: "env_active_verifiers env = Some verifiers'" "env_service env = Some service'"
    and ps': "ps = select_verifiers (max_num_verifiers service')
       (List.map_filter (\<lambda>v. map_option (\<lambda>k. (v, k)) (env_public_key env (wv_address v))) verifiers')"
    and ws: "convert_or_scale_weights (map (wv_weight \<circ> fst) ps) = Inr ws" "length ws = length ps"
    and q: "mul_ceil (sum_list (map ucast ws)) (numerator thr) (denominator thr) = Inr q"
      "unat (vs_quorum vs) = unat q"
    and vs: "vs_signers vs = bset_from_iter (axelar_signer_le lib) (map2 signer_of ps ws)"
    using make_verifier_setE [OF assms(1)] .
  have ps: "ps = select_verifiers (max_num_verifiers service)
       (List.map_filter (\<lambda>v. map_option (\<lambda>k. (v, k)) (env_public_key env (wv_address v))) verifiers)"
    using ps' e assms(4,6) by simp
  have len: "length ps \<le> unat (max_num_verifiers service)" unfolding ps by (rule select_verifiers_length)
  then have 32: "length ps \<le> 32" using max_num_verifiers_le(1) [of service] by linarith
  have "distinct (map (wv_address \<circ> fst) ps)"
    unfolding ps by (intro select_verifiers_distinct map_filter_distinct_fst assms(5))
  note sum = sum_signer_weights [OF assms(2) ws(2) this, folded vs]
  have u: "unat (sum_list (map ucast ws) :: u64) = sum_list (map unat ws)"
    using 32 ws(2) by (intro sum_weights_u64) simp
  have "unat q \<le> sum_list (map unat ws)"
    using mul_ceil_le [OF q(1)] assms(3) u by (simp add: is_majority_def is_threshold_def word_le_nat_alt)
  moreover have "sum_list (map unat ws) < 2 * unat q" if "vs_signers vs \<noteq> []"
  proof -
    have "ps \<noteq> []" using that sum(2) by auto
    then have "0 < sum_list (map unat ws)" by (intro scaled_weights_positive [OF ws(1)]) simp
    then show ?thesis using mul_ceil_majority_u64 [OF q(1)] assms(3) u by (simp add: is_majority_def)
  qed
  moreover have "length ps \<le> unat m" if "svc_max_num_verifiers service = Some m" for m
    using len max_num_verifiers_le(2) [OF that] by linarith
  ultimately show ?thesis using 32 unfolding sum q(2) by blast
qed

definition demo_verifiers :: "weighted_verifier list" where
  "demo_verifiers =
     [\<lparr>wv_address = ''axelar1'', wv_weight = 10\<rparr>, \<lparr>wv_address = ''axelar2'', wv_weight = 30\<rparr>,
      \<lparr>wv_address = ''axelar3'', wv_weight = 20\<rparr>]"

definition demo_service :: service_info where
  "demo_service = \<lparr>svc_min_num_verifiers = 1, svc_max_num_verifiers = Some 2\<rparr>"

definition demo_verifiers_env :: verifiers_env where
  "demo_verifiers_env =
     \<lparr>env_active_verifiers = Some demo_verifiers, env_service = Some demo_service,
      env_public_key = (\<lambda>a. Some (Ecdsa (string_bytes a)))\<rparr>"

definition demo_verifier_set :: verifier_set where
  "demo_verifier_set =
     (case make_verifier_set demo_lib demo_threshold demo_verifiers_env 5 of
        Inr vs \<Rightarrow> vs | Inl _ \<Rightarrow> \<lparr>vs_signers = [], vs_quorum = 0, vs_created_at = 0\<rparr>)"

lemma demo_make_verifier_set:
  "make_verifier_set demo_lib demo_threshold demo_verifiers_env 5 = Inr demo_verifier_set"
  by code_simp

lemma demo_signer_order: "signer_order demo_lib"
  unfolding signer_order_def demo_lib_def
  by (auto simp: signer_rank_def split: public_key.splits)

theorem make_verifier_set_safe_witness:
  "length (vs_signers demo_verifier_set) \<le> 2 \<and> vs_signers demo_verifier_set \<noteq> [] \<and>
   sum_list (map (unat \<circ> as_weight) (vs_signers demo_verifier_set)) < 2 * unat (vs_quorum demo_verifier_set)"
proof -
  have 1: "env_active_verifiers demo_verifiers_env = Some demo_verifiers" "env_service demo_verifiers_env = Some demo_service"
    by (simp_all add: demo_verifiers_env_def)
  have 2: "distinct (map wv_address demo_verifiers)" by code_simp
  have 3: "vs_signers demo_verifier_set \<noteq> []" by code_simp
  have 4: "svc_max_num_verifiers demo_service = Some 2" by code_simp
  show ?thesis
    using make_verifier_set_safe [OF demo_make_verifier_set demo_signer_order demo_majority 1(1) 2 1(2)] 3 4 by simp
qed



end
