(* ===== verification/Router_Api.thy ===== *)
theory Router_Api
  imports Xrpl_Types
begin

text \<open>
  The vocabulary of the router (\<open>packages/router-api/src/primitives.rs\<close>): chain names, addresses,
  cross-chain ids and messages, and the hash that identifies a message. A string is the list of its
  bytes. The lemmas show that parsing establishes what the types promise and that the text a message is
  hashed from determines the message, which is what the delimiter is for.
\<close>

datatype router_error =
    RouterStd std_error
  | RoutingDisabled
  | ChainAlreadyExists
  | InvalidChainName
  | InvalidMessageId
  | ChainNotFound
  | GatewayNotRegistered
  | GatewayAlreadyRegistered
  | ChainFrozen chain_name
  | InvalidAddress
  | WrongSourceChain
  | StoreFailure
  | Nexus
  | RouterPermission permission_error
  | RouterPanic string

definition FIELD_DELIMITER :: char where "FIELD_DELIMITER = CHR ''_''"

section \<open>Chain names and addresses\<close>

definition MAX_LEN :: nat where "MAX_LEN = 20"

definition is_ascii :: "string \<Rightarrow> bool" where
  "is_ascii s \<longleftrightarrow> (\<forall>c \<in> set s. of_char c < (128 :: nat))"

definition chain_name_raw_from_str :: "string \<Rightarrow> router_error + chain_name" where
  "chain_name_raw_from_str s =
     (if s = [] \<or> length s > MAX_LEN \<or> \<not> is_ascii s \<or> FIELD_DELIMITER \<in> set s then Inl InvalidChainName
      else Inr s)"

text \<open>\<open>to_lowercase\<close> of an ASCII string.\<close>

definition char_to_lowercase :: "char \<Rightarrow> char" where
  "char_to_lowercase c =
     (let n = of_char c :: nat in if 65 \<le> n \<and> n \<le> 90 then char_of (n + 32) else c)"

definition to_lowercase :: "string \<Rightarrow> string" where
  "to_lowercase s = map char_to_lowercase s"

definition chain_name_from_str :: "string \<Rightarrow> router_error + chain_name" where
  "chain_name_from_str s = rbind (chain_name_raw_from_str s) (\<lambda>raw. Inr (to_lowercase raw))"

definition normalize :: "chain_name \<Rightarrow> router_error + chain_name" where
  "normalize self = map_err (\<lambda>_. RouterPanic ''invalid chain name'') (chain_name_from_str self)"

definition address_try_from :: "string \<Rightarrow> router_error + string" where
  "address_try_from value =
     (if FIELD_DELIMITER \<in> set value then Inl InvalidAddress
      else if value = [] then Inl InvalidAddress else Inr value)"

definition cross_chain_id_new :: "string \<Rightarrow> string \<Rightarrow> router_error + cross_chain_id" where
  "cross_chain_id_new chain mid =
     rbind (map_err (\<lambda>_. InvalidChainName) (chain_name_raw_from_str chain)) (\<lambda>c.
     if mid = [] then Inl InvalidMessageId else Inr \<lparr>source_chain = c, message_id = mid\<rparr>)"

definition cross_chain_id_to_string :: "cross_chain_id \<Rightarrow> string" where
  "cross_chain_id_to_string self = source_chain self @ [FIELD_DELIMITER] @ message_id self"

section \<open>Messages\<close>

record router_message =
  msg_cc_id :: cross_chain_id
  msg_source_address :: string
  msg_destination_chain :: chain_name
  msg_destination_address :: string
  msg_payload_hash :: bytes

text \<open>The bytes that \<open>Message::hash\<close> feeds to the hasher.\<close>

definition message_preimage :: "router_message \<Rightarrow> bytes" where
  "message_preimage self =
     string_bytes (cross_chain_id_to_string (msg_cc_id self)) @ string_bytes [FIELD_DELIMITER] @
     string_bytes (msg_source_address self) @ string_bytes [FIELD_DELIMITER] @
     string_bytes (msg_destination_chain self) @ string_bytes [FIELD_DELIMITER] @
     string_bytes (msg_destination_address self) @ string_bytes [FIELD_DELIMITER] @
     msg_payload_hash self"

definition router_message_hash :: "xrpl_lib \<Rightarrow> router_message \<Rightarrow> bytes" where
  "router_message_hash lib self = keccak256_digest lib (message_preimage self)"

section \<open>Gateways of chains\<close>

type_synonym gateway_direction = u8

abbreviation (input) DirectionNone :: gateway_direction where "DirectionNone \<equiv> 0"
abbreviation (input) Incoming :: gateway_direction where "Incoming \<equiv> 1"
abbreviation (input) Outgoing :: gateway_direction where "Outgoing \<equiv> 2"
abbreviation (input) Bidirectional :: gateway_direction where "Bidirectional \<equiv> 3"

section \<open>What parsing establishes\<close>

text \<open>The values of the types \<open>ChainNameRaw\<close>, \<open>ChainName\<close> and \<open>Address\<close>: what their parsers return.\<close>

definition chain_name_raw_ok :: "chain_name \<Rightarrow> bool" where
  "chain_name_raw_ok s \<longleftrightarrow> chain_name_raw_from_str s = Inr s"

definition chain_name_ok :: "chain_name \<Rightarrow> bool" where
  "chain_name_ok s \<longleftrightarrow> chain_name_raw_ok s \<and> to_lowercase s = s"

definition address_ok :: "string \<Rightarrow> bool" where
  "address_ok s \<longleftrightarrow> address_try_from s = Inr s"

definition cross_chain_id_ok :: "cross_chain_id \<Rightarrow> bool" where
  "cross_chain_id_ok i \<longleftrightarrow> chain_name_raw_ok (source_chain i) \<and> message_id i \<noteq> []"

definition router_message_ok :: "router_message \<Rightarrow> bool" where
  "router_message_ok m \<longleftrightarrow>
     cross_chain_id_ok (msg_cc_id m) \<and> address_ok (msg_source_address m) \<and> chain_name_ok (msg_destination_chain m) \<and>
     address_ok (msg_destination_address m) \<and> length (msg_payload_hash m) = 32"

lemma chain_name_raw_ok_iff:
  "chain_name_raw_ok s \<longleftrightarrow> s \<noteq> [] \<and> length s \<le> MAX_LEN \<and> is_ascii s \<and> FIELD_DELIMITER \<notin> set s"
  by (auto simp: chain_name_raw_ok_def chain_name_raw_from_str_def)

lemma address_ok_iff: "address_ok s \<longleftrightarrow> s \<noteq> [] \<and> FIELD_DELIMITER \<notin> set s"
  by (simp add: address_ok_def address_try_from_def)

lemma chain_name_raw_Inr_iff [result_simps]: "chain_name_raw_from_str s = Inr t \<longleftrightarrow> chain_name_raw_ok s \<and> t = s"
  by (auto simp: chain_name_raw_ok_iff chain_name_raw_from_str_def)

lemma address_Inr_iff [result_simps]: "address_try_from s = Inr t \<longleftrightarrow> address_ok s \<and> t = s"
  by (auto simp: address_ok_iff address_try_from_def)

lemma cross_chain_id_Inr_iff [result_simps]:
  "cross_chain_id_new chain mid = Inr i \<longleftrightarrow>
     i = \<lparr>source_chain = chain, message_id = mid\<rparr> \<and> cross_chain_id_ok i"
  by (auto simp: cross_chain_id_new_def cross_chain_id_ok_def result_simps)

lemma of_char_to_lowercase:
  "(of_char (char_to_lowercase c) :: nat) = (if 65 \<le> (of_char c :: nat) \<and> (of_char c :: nat) \<le> 90 then of_char c + 32 else of_char c)"
  by (simp add: char_to_lowercase_def Let_def of_char_of)

lemma char_to_lowercase_idem [simp]: "char_to_lowercase (char_to_lowercase c) = char_to_lowercase c"
  by (subst char_to_lowercase_def) (auto simp: of_char_to_lowercase Let_def)

lemma to_lowercase_idem [simp]: "to_lowercase (to_lowercase s) = to_lowercase s"
  by (simp add: to_lowercase_def)

lemma char_to_lowercase_delimiter: "char_to_lowercase c = FIELD_DELIMITER \<longleftrightarrow> c = FIELD_DELIMITER"
proof
  assume a: "char_to_lowercase c = FIELD_DELIMITER"
  have "(of_char FIELD_DELIMITER :: nat) = 95" by (simp add: FIELD_DELIMITER_def)
  then have "(of_char (char_to_lowercase c) :: nat) = 95" by (simp add: a)
  then have "\<not> (65 \<le> (of_char c :: nat) \<and> (of_char c :: nat) \<le> 90)" by (auto simp: of_char_to_lowercase split: if_splits)
  then have "char_to_lowercase c = c" by (auto simp: char_to_lowercase_def Let_def)
  with a show "c = FIELD_DELIMITER" by simp
qed (simp add: char_to_lowercase_def FIELD_DELIMITER_def)

lemma chain_name_raw_ok_lowercase: "chain_name_raw_ok s \<Longrightarrow> chain_name_ok (to_lowercase s)"
  by (auto simp: chain_name_ok_def chain_name_raw_ok_iff to_lowercase_def is_ascii_def of_char_to_lowercase
      char_to_lowercase_delimiter dest: char_to_lowercase_delimiter [THEN iffD1, OF sym])

lemma chain_name_Inr_iff [result_simps]: "chain_name_from_str s = Inr t \<longleftrightarrow> chain_name_raw_ok s \<and> t = to_lowercase s"
  by (auto simp: chain_name_from_str_def result_simps)

lemma normalize_total: "chain_name_raw_ok s \<Longrightarrow> normalize s = Inr (to_lowercase s)"
  by (simp add: normalize_def map_err_Inr_iff chain_name_Inr_iff)

section \<open>Fields and delimiters\<close>

lemma split_at_first:
  assumes "xs @ d # ys = xs' @ d # ys'" "d \<notin> set xs" "d \<notin> set xs'"
  shows "xs = xs' \<and> ys = ys'"
  using assms
proof (induction xs arbitrary: xs')
  case Nil
  then show ?case by (cases xs') auto
next
  case (Cons x xs)
  then show ?case by (cases xs') auto
qed

lemma split_at_last:
  assumes "xs @ d # ys = xs' @ d # ys'" "d \<notin> set ys" "d \<notin> set ys'"
  shows "xs = xs' \<and> ys = ys'"
proof -
  from assms(1) have "rev ys @ d # rev xs = rev ys' @ d # rev xs'"
    by (metis append_Cons append_Nil append_assoc rev.simps(2) rev_append rev_rev_ident)
  from split_at_first [OF this] assms show ?thesis by simp
qed

lemma string_bytes_append: "string_bytes (s @ t) = string_bytes s @ string_bytes t"
  by (simp add: string_bytes_def)

lemma message_preimage_text:
  "message_preimage m =
     string_bytes (cross_chain_id_to_string (msg_cc_id m) @ FIELD_DELIMITER # msg_source_address m @ FIELD_DELIMITER #
       msg_destination_chain m @ FIELD_DELIMITER # msg_destination_address m @ [FIELD_DELIMITER]) @ msg_payload_hash m"
  by (simp add: message_preimage_def string_bytes_append [symmetric])

lemma cross_chain_id_to_string_inj:
  assumes "cross_chain_id_to_string i = cross_chain_id_to_string j" "cross_chain_id_ok i" "cross_chain_id_ok j"
  shows "i = j"
  using split_at_first [of "source_chain i" FIELD_DELIMITER "message_id i" "source_chain j" "message_id j"] assms
  by (simp add: cross_chain_id_to_string_def cross_chain_id_ok_def chain_name_raw_ok_iff)

lemma message_preimage_inj:
  assumes "message_preimage m = message_preimage m'" "router_message_ok m" "router_message_ok m'"
  shows "m = m'"
proof -
  let ?D = FIELD_DELIMITER
  have t: "cross_chain_id_to_string (msg_cc_id m) @ ?D # msg_source_address m @ ?D #
       msg_destination_chain m @ ?D # msg_destination_address m @ [?D] =
     cross_chain_id_to_string (msg_cc_id m') @ ?D # msg_source_address m' @ ?D #
       msg_destination_chain m' @ ?D # msg_destination_address m' @ [?D]"
    and p: "msg_payload_hash m = msg_payload_hash m'"
    using assms append_eq_append_conv [of _ _ "msg_payload_hash m" "msg_payload_hash m'"]
    by (auto simp: message_preimage_text router_message_ok_def string_bytes_inj)
  have ok: "?D \<notin> set (msg_source_address n)" "?D \<notin> set (msg_destination_chain n)" "?D \<notin> set (msg_destination_address n)"
    if "router_message_ok n" for n
    using that by (auto simp: router_message_ok_def address_ok_iff chain_name_ok_def chain_name_raw_ok_iff)
  have d: "msg_destination_address m = msg_destination_address m'" and
    t1: "cross_chain_id_to_string (msg_cc_id m) @ ?D # msg_source_address m @ ?D # msg_destination_chain m =
      cross_chain_id_to_string (msg_cc_id m') @ ?D # msg_source_address m' @ ?D # msg_destination_chain m'"
    using t ok [OF assms(2)] ok [OF assms(3)]
      split_at_last [of "cross_chain_id_to_string (msg_cc_id m) @ ?D # msg_source_address m @ ?D # msg_destination_chain m" ?D
        "msg_destination_address m"
        "cross_chain_id_to_string (msg_cc_id m') @ ?D # msg_source_address m' @ ?D # msg_destination_chain m'"
        "msg_destination_address m'"] by simp_all
  have c: "msg_destination_chain m = msg_destination_chain m'" and
    t2: "cross_chain_id_to_string (msg_cc_id m) @ ?D # msg_source_address m =
      cross_chain_id_to_string (msg_cc_id m') @ ?D # msg_source_address m'"
    using t1 ok [OF assms(2)] ok [OF assms(3)]
      split_at_last [of "cross_chain_id_to_string (msg_cc_id m) @ ?D # msg_source_address m" ?D "msg_destination_chain m"
        "cross_chain_id_to_string (msg_cc_id m') @ ?D # msg_source_address m'" "msg_destination_chain m'"] by simp_all
  have s: "msg_source_address m = msg_source_address m'" and
    "cross_chain_id_to_string (msg_cc_id m) = cross_chain_id_to_string (msg_cc_id m')"
    using split_at_last [OF t2] ok [OF assms(2)] ok [OF assms(3)] by simp_all
  then have "msg_cc_id m = msg_cc_id m'"
    using cross_chain_id_to_string_inj assms by (simp add: router_message_ok_def)
  with p d c s show ?thesis by simp
qed

section \<open>Properties\<close>

text \<open>
  C30: The text a message is hashed from determines the message: two different messages, with the chain
  names, addresses and hashes that the types allow, are hashed from different bytes, even though message ids
  may contain the delimiter.\<close>

theorem message_text_unique:
  assumes "router_message_ok m" "router_message_ok m'" "m \<noteq> m'"
  shows "message_preimage m \<noteq> message_preimage m'"
  using message_preimage_inj assms by blast

theorem message_text_unique_witness:
  "message_preimage \<lparr>msg_cc_id = \<lparr>source_chain = ''a'', message_id = ''b_c''\<rparr>, msg_source_address = ''d'',
     msg_destination_chain = ''e'', msg_destination_address = ''f'', msg_payload_hash = replicate 32 0\<rparr> \<noteq>
   message_preimage \<lparr>msg_cc_id = \<lparr>source_chain = ''a'', message_id = ''b''\<rparr>, msg_source_address = ''c'',
     msg_destination_chain = ''d'', msg_destination_address = ''e'', msg_payload_hash = replicate 32 0\<rparr>"
  by (rule message_text_unique) code_simp+



end
