(* ===== verification/Xrpl_Multisig.thy ===== *)
theory Xrpl_Multisig
  imports Axelar_Verifiers Router_Api
begin

text \<open>
  The multisig account on XRPL as the prover sees it (\<open>xrpl-multisig-prover/src/state.rs\<close> and
  \<open>xrpl_multisig.rs\<close>): the storage of the prover, the assignment of sequence and ticket numbers, the
  fee reserve, the issuing of transactions and the confirmation of their outcome. A function on storage
  maps the state before to the state after and its result, or to the error that reverts it.
\<close>

section \<open>Storage of the prover\<close>

record prover_config =
  pc_multisig :: addr
  pc_coordinator :: addr
  pc_gateway :: addr
  pc_signing_threshold :: threshold
  pc_xrpl_multisig :: xrpl_account_id
  pc_voting_verifier :: addr
  pc_service_registry :: addr
  pc_service_name :: string
  pc_chain_name :: chain_name
  pc_verifier_set_diff_threshold :: u32
  pc_xrpl_transaction_fee :: u64
  pc_xrpl_base_reserve :: u64
  pc_xrpl_owner_reserve :: u64
  pc_ticket_count_threshold :: u32

record multisig_session =
  ses_id :: u64
  ses_expires_at :: u64

record tx_info =
  ti_status :: xrpl_tx_status
  ti_unsigned_tx :: xrpl_unsigned_tx
  ti_original_cc_id :: "cross_chain_id option"

record prover_state =
  CONFIG :: "prover_config option"
  REPLY_UNSIGNED_TX_HASH :: "tx_hash option"
  NEXT_SEQUENCE_NUMBER :: "u32 option"
  LAST_ASSIGNED_TICKET_NUMBER :: "u32 option"
  AVAILABLE_TICKETS :: "u32 list option"
  MULTISIG_SESSION_ID_TO_UNSIGNED_TX_HASH :: "u64 \<rightharpoonup> tx_hash"
  CROSS_CHAIN_ID_TO_TICKET :: "cross_chain_id \<rightharpoonup> u32"
  CROSS_CHAIN_ID_TO_MULTISIG_SESSION :: "cross_chain_id \<rightharpoonup> multisig_session"
  CONSUMED_TICKET_TO_UNSIGNED_TX_HASH :: "u32 \<rightharpoonup> tx_hash"
  UNSIGNED_TX_HASH_TO_TX_INFO :: "tx_hash \<rightharpoonup> tx_info"
  TRUST_LINE :: "xrpl_token \<rightharpoonup> unit"
  TRUST_LINE_COUNT :: "u64 option"
  SEQUENCE_NUMBER_MAX_OBJECT_COUNT :: "u32 \<rightharpoonup> u8"
  FEE_RESERVE :: "u64 option"
  FEE_RESERVE_TOP_UP_COUNTED :: "tx_hash \<rightharpoonup> unit"
  CURRENT_VERIFIER_SET :: "verifier_set option"
  NEXT_VERIFIER_SET :: "verifier_set option"
  PERMISSIONS :: permission_state
  KILLSWITCH :: killswitch

type_synonym 'a prover_result = "prover_error + prover_state \<times> 'a"

text \<open>What the prover reads from the gateway; \<open>None\<close> is a failed query.\<close>

record gateway_client =
  gq_linked_token_id :: "xrpl_token \<Rightarrow> token_id option"
  gq_xrp_token_id :: "token_id option"
  gq_xrpl_token :: "token_id \<Rightarrow> xrpl_token option"
  gq_token_instance_decimals :: "chain_name \<Rightarrow> token_id \<Rightarrow> u8 option"
  gq_outgoing_messages :: "cross_chain_id list \<Rightarrow> router_message list option"

datatype prover_event =
    ProofUnderConstruction chain_name tx_hash u64 "cross_chain_id list option"
  | XRPLSigningStarted "(string \<times> string) list" bytes
  | EvExecutionDisabled
  | EvExecutionEnabled
  | InterchainTransferReceived string token_id chain_name xrpl_account_id xrpl_payment_amount
  | TicketsCreated string u32 u32
  | TrustLineCreated string token_id xrpl_token
  | VerifierSetUpdated string string nat u32

definition load :: "'a option \<Rightarrow> prover_error + 'a" where
  "load item = map_err Std (item_load item)"

lemma load_simps [simp]: "load None = Inl (Std NotFound)" "load (Some x) = Inr x"
  by (simp_all add: load_def item_load_def)

lemma load_Inr_iff [result_simps]: "load item = Inr x \<longleftrightarrow> item = Some x"
  by (cases item) simp_all

section \<open>Issuing a transaction\<close>

definition MAX_TICKET_COUNT :: u32 where "MAX_TICKET_COUNT = 250"

definition XRPL_MULTISIG_FIXED_OWNED_OBJECTS :: u32 where
  "XRPL_MULTISIG_FIXED_OWNED_OBJECTS = MAX_TICKET_COUNT + 1"

definition issue_tx ::
    "xrpl_lib \<Rightarrow> prover_state \<Rightarrow> xrpl_unsigned_tx \<Rightarrow> cross_chain_id option \<Rightarrow>
     xrpl_unsigned_tx_to_sign prover_result" where
  "issue_tx lib s unsigned_tx original_cc_id =
     rbind (map_err XRPLTypeConversionError (hash_unsigned_tx lib unsigned_tx)) (\<lambda>unsigned_tx_hash.
       let tx_info = \<lparr>ti_status = TxPending, ti_unsigned_tx = unsigned_tx, ti_original_cc_id = original_cc_id\<rparr>
       in Inr (s\<lparr>UNSIGNED_TX_HASH_TO_TX_INFO := (UNSIGNED_TX_HASH_TO_TX_INFO s)(unsigned_tx_hash \<mapsto> tx_info)\<rparr>,
               \<lparr>tts_unsigned_tx = unsigned_tx, tts_unsigned_tx_hash = unsigned_tx_hash,
                tts_cc_id = original_cc_id\<rparr>))"

definition should_assert_sufficient_reserve :: "u8 \<Rightarrow> u8 option \<Rightarrow> bool" where
  "should_assert_sufficient_reserve tx_object_count previous_max_object_count_opt =
     (case previous_max_object_count_opt of
        Some previous_max_object_count \<Rightarrow>
          if tx_object_count > previous_max_object_count then True else False
      | None \<Rightarrow> True)"

definition account_reserve :: "prover_state \<Rightarrow> prover_config \<Rightarrow> prover_error + u64" where
  "account_reserve s config =
     (let trust_line_count = (case load (TRUST_LINE_COUNT s) of Inl _ \<Rightarrow> 0 | Inr n \<Rightarrow> n) in
      rbind (ok_or Overflow (checked_add (ucast XRPL_MULTISIG_FIXED_OWNED_OBJECTS) trust_line_count)) (\<lambda>owned_objects.
      rbind (ok_or Overflow (checked_mul (pc_xrpl_owner_reserve config) owned_objects)) (\<lambda>owner_reserve.
      ok_or Overflow (checked_add (pc_xrpl_base_reserve config) owner_reserve))))"

definition ensure_sufficient_fee_reserve ::
    "prover_state \<Rightarrow> prover_config \<Rightarrow> u32 \<Rightarrow> u64 \<Rightarrow> u8 \<Rightarrow> unit prover_result" where
  "ensure_sufficient_fee_reserve s config sequence_number tx_fee tx_object_count =
     (let previous_max_object_count_opt = SEQUENCE_NUMBER_MAX_OBJECT_COUNT s sequence_number in
      if should_assert_sufficient_reserve tx_object_count previous_max_object_count_opt then
        rbind (load (FEE_RESERVE s)) (\<lambda>current_reserve.
        rbind (account_reserve s config) (\<lambda>account_reserve.
        rbind (ok_or Overflow (checked_mul (pc_xrpl_owner_reserve config) (ucast tx_object_count))) (\<lambda>objects_reserve.
        rbind (ok_or Overflow (checked_add tx_fee objects_reserve)) (\<lambda>tx_reserve_increment.
        rbind (ok_or Overflow (checked_add account_reserve tx_reserve_increment)) (\<lambda>required_reserve.
        if current_reserve < required_reserve then Inl (InsufficientFeeReserve current_reserve required_reserve)
        else
          (let s = s\<lparr>SEQUENCE_NUMBER_MAX_OBJECT_COUNT :=
                        (SEQUENCE_NUMBER_MAX_OBJECT_COUNT s)(sequence_number \<mapsto> tx_object_count)\<rparr>;
               unassigned_sequence_number = (previous_max_object_count_opt = None)
           in if unassigned_sequence_number then
                rbind (ok_or Underflow (checked_sub current_reserve tx_fee)) (\<lambda>new_fee_reserve.
                  Inr (s\<lparr>FEE_RESERVE := Some new_fee_reserve\<rparr>, ()))
              else Inr (s, ())))))))
      else Inr (s, ()))"

definition tx_fee ::
    "xrpl_lib \<Rightarrow> prover_state \<Rightarrow> prover_config \<Rightarrow> u32 \<Rightarrow> xrpl_unsigned_tx_type \<Rightarrow> u64 prover_result" where
  "tx_fee lib s config sequence_number tx_type =
     rbind (ok_or Overflow (checked_mul (pc_xrpl_transaction_fee config) (ucast (1 + MAX_SIGNERS)))) (\<lambda>tx_fee.
     let owned_object_increment = object_count_increment lib tx_type in
     rbind (ensure_sufficient_fee_reserve s config sequence_number tx_fee owned_object_increment) (\<lambda>(s, _).
     Inr (s, tx_fee)))"

section \<open>Sequence and ticket numbers\<close>

definition next_sequence_number :: "prover_state \<Rightarrow> prover_error + u32" where
  "next_sequence_number s = load (NEXT_SEQUENCE_NUMBER s)"

definition next_ticket_number :: "prover_state \<Rightarrow> u32 prover_result" where
  "next_ticket_number s =
     rbind (load (LAST_ASSIGNED_TICKET_NUMBER s)) (\<lambda>last_assigned_ticket_number.
     rbind (load (AVAILABLE_TICKETS s)) (\<lambda>available_tickets.
     case available_tickets of
       first_ticket_number # _ \<Rightarrow>
         (let ticket_number =
            (case find (\<lambda>x. x > last_assigned_ticket_number) available_tickets of
               Some x \<Rightarrow> x | None \<Rightarrow> first_ticket_number)
          in Inr (s\<lparr>LAST_ASSIGNED_TICKET_NUMBER := Some ticket_number\<rparr>, ticket_number))
     | [] \<Rightarrow> Inl NoAvailableTickets))"

definition assign_ticket_number :: "prover_state \<Rightarrow> cross_chain_id \<Rightarrow> u32 prover_result" where
  "assign_ticket_number s cc_id =
     (let fresh =
        rbind (next_ticket_number s) (\<lambda>(s, new_ticket_number).
          Inr (s\<lparr>CROSS_CHAIN_ID_TO_TICKET := (CROSS_CHAIN_ID_TO_TICKET s)(cc_id \<mapsto> new_ticket_number)\<rparr>,
               new_ticket_number))
      in case CROSS_CHAIN_ID_TO_TICKET s cc_id of
        Some ticket_number \<Rightarrow>
          (case CONSUMED_TICKET_TO_UNSIGNED_TX_HASH s ticket_number of
             Some confirmed_unsigned_tx_hash \<Rightarrow>
               rbind (load (UNSIGNED_TX_HASH_TO_TX_INFO s confirmed_unsigned_tx_hash)) (\<lambda>tx_info.
                 if ti_original_cc_id tx_info = Some cc_id \<and> ti_status tx_info \<noteq> TxFailedOnChain
                 then Inr (s, ticket_number) else fresh)
           | None \<Rightarrow> Inr (s, ticket_number))
      | None \<Rightarrow> fresh)"

definition num_of_tickets_to_create :: "prover_state \<Rightarrow> prover_error + u32" where
  "num_of_tickets_to_create s =
     rbind (load (AVAILABLE_TICKETS s)) (\<lambda>available_tickets.
     rbind (ok_or TooManyAvailableTickets (try_of_nat (length available_tickets))) (\<lambda>available_ticket_count.
     if available_ticket_count > MAX_TICKET_COUNT then Inl TooManyAvailableTickets
     else ok_or Overflow (checked_sub MAX_TICKET_COUNT available_ticket_count)))"

definition mark_tickets_available :: "prover_state \<Rightarrow> u32 list \<Rightarrow> unit prover_result" where
  "mark_tickets_available s tickets =
     rbind (load (AVAILABLE_TICKETS s)) (\<lambda>available_tickets.
     let available_tickets = available_tickets @ tickets in
     if length available_tickets > unat MAX_TICKET_COUNT then Inl TooManyAvailableTickets
     else Inr (s\<lparr>AVAILABLE_TICKETS := Some available_tickets\<rparr>, ()))"

definition mark_ticket_unavailable :: "prover_state \<Rightarrow> u32 \<Rightarrow> unit prover_result" where
  "mark_ticket_unavailable s ticket =
     rbind (item_update Std (\<lambda>available_tickets. Inr (filter (\<lambda>x. x \<noteq> ticket) available_tickets))
              (AVAILABLE_TICKETS s)) (\<lambda>available_tickets.
     Inr (s\<lparr>AVAILABLE_TICKETS := Some available_tickets\<rparr>, ()))"

definition issue_payment ::
    "xrpl_lib \<Rightarrow> prover_state \<Rightarrow> prover_config \<Rightarrow> xrpl_account_id \<Rightarrow> xrpl_payment_amount \<Rightarrow> cross_chain_id \<Rightarrow>
     xrpl_cross_currency_options option \<Rightarrow> xrpl_unsigned_tx_to_sign prover_result" where
  "issue_payment lib s config destination amount cc_id cross_currency =
     rbind (assign_ticket_number s cc_id) (\<lambda>(s, ticket_number).
     rbind (tx_fee lib s config ticket_number TypePayment) (\<lambda>(s, fee).
     issue_tx lib s
       (Payment \<lparr>pay_account = pc_xrpl_multisig config, pay_fee = fee, pay_sequence = Ticket ticket_number,
                 pay_amount = amount, pay_destination = destination, pay_cross_currency = cross_currency,
                 pay_cc_id = Some cc_id\<rparr>)
       (Some cc_id)))"

definition issue_ticket_create ::
    "xrpl_lib \<Rightarrow> prover_state \<Rightarrow> prover_config \<Rightarrow> u32 \<Rightarrow> xrpl_unsigned_tx_to_sign prover_result" where
  "issue_ticket_create lib s config ticket_count =
     rbind (next_sequence_number s) (\<lambda>sequence_number.
     rbind (tx_fee lib s config sequence_number TypeTicketCreate) (\<lambda>(s, fee).
     issue_tx lib s
       (TicketCreate \<lparr>tc_account = pc_xrpl_multisig config, tc_fee = fee, tc_sequence = Plain sequence_number,
                      tc_ticket_count = ticket_count\<rparr>)
       None))"

definition issue_trust_set ::
    "xrpl_lib \<Rightarrow> prover_state \<Rightarrow> prover_config \<Rightarrow> xrpl_token \<Rightarrow> xrpl_unsigned_tx_to_sign prover_result" where
  "issue_trust_set lib s config xrpl_token =
     rbind (next_sequence_number s) (\<lambda>sequence_number.
     rbind (tx_fee lib s config sequence_number TypeTrustSet) (\<lambda>(s, fee).
     issue_tx lib s
       (TrustSet \<lparr>ts_account = pc_xrpl_multisig config, ts_fee = fee, ts_sequence = Plain sequence_number,
                  ts_token = xrpl_token\<rparr>)
       None))"

definition issue_signer_list_set ::
    "xrpl_lib \<Rightarrow> prover_state \<Rightarrow> prover_config \<Rightarrow> verifier_set \<Rightarrow> xrpl_unsigned_tx_to_sign prover_result" where
  "issue_signer_list_set lib s config verifier_set =
     rbind (next_sequence_number s) (\<lambda>sequence_number.
     rbind (tx_fee lib s config sequence_number TypeSignerListSet) (\<lambda>(s, fee).
     issue_tx lib s
       (SignerListSet \<lparr>sl_account = pc_xrpl_multisig config, sl_fee = fee, sl_sequence = Plain sequence_number,
                       sl_signer_quorum = vs_quorum verifier_set,
                       sl_signer_entries = map (signer_entry_from lib) (vs_signers verifier_set)\<rparr>)
       None))"

section \<open>Confirming a transaction\<close>

definition token_to_token_id :: "gateway_client \<Rightarrow> xrpl_token \<Rightarrow> prover_error + token_id" where
  "token_to_token_id gateway token = ok_or (FailedToGetLinkedTokenId token) (gq_linked_token_id gateway token)"

definition payment_amount_to_token_id :: "gateway_client \<Rightarrow> xrpl_payment_amount \<Rightarrow> prover_error + token_id" where
  "payment_amount_to_token_id gateway amount =
     (case amount of
        Drops _ \<Rightarrow> ok_or FailedToGetXrpTokenId (gq_xrp_token_id gateway)
      | Issued token _ \<Rightarrow> token_to_token_id gateway token)"

definition word_range :: "u32 \<Rightarrow> u32 \<Rightarrow> u32 list" where
  "word_range a b = map of_nat [unat a ..< unat b]"

text \<open>
  The bookkeeping every confirmation does (the status, the sequence number, the consumed ticket), and
  the effect of a transaction that succeeded.
\<close>

definition advance_sequence_number :: "prover_state \<Rightarrow> u32 \<Rightarrow> u32 \<Rightarrow> prover_error + prover_state" where
  "advance_sequence_number s number increment =
     (if increment > 0 then
        rbind (load (NEXT_SEQUENCE_NUMBER s)) (\<lambda>next.
          if number = next then
            rbind (ok_or Overflow (checked_add number increment)) (\<lambda>n.
              Inr (s\<lparr>NEXT_SEQUENCE_NUMBER := Some n\<rparr>))
          else Inr s)
      else Inr s)"

definition record_confirmation ::
    "xrpl_lib \<Rightarrow> prover_state \<Rightarrow> tx_hash \<Rightarrow> xrpl_tx_status \<Rightarrow> tx_info prover_result" where
  "record_confirmation lib s unsigned_tx_hash new_status =
     rbind (load (UNSIGNED_TX_HASH_TO_TX_INFO s unsigned_tx_hash)) (\<lambda>tx_info.
     if ti_status tx_info \<noteq> TxPending then Inl TxStatusAlreadyConfirmed
     else if new_status = TxPending \<or> new_status = TxInconclusive then Inl (InvalidTxStatus new_status)
     else
       (let tx_info = tx_info\<lparr>ti_status := new_status\<rparr>;
            number = tx_sequence_number lib (ti_unsigned_tx tx_info) in
        rbind (map_err XRPLTypeConversionError
                 (sequence_number_increment lib (ti_unsigned_tx tx_info) new_status)) (\<lambda>increment.
        rbind (advance_sequence_number s number increment) (\<lambda>s.
        rbind (if new_status = TxSucceeded \<or> new_status = TxFailedOnChain then
                 mark_ticket_unavailable
                   (s\<lparr>CONSUMED_TICKET_TO_UNSIGNED_TX_HASH :=
                        (CONSUMED_TICKET_TO_UNSIGNED_TX_HASH s)(number \<mapsto> unsigned_tx_hash)\<rparr>) number
               else Inr (s, ())) (\<lambda>(s, _).
        Inr (s\<lparr>UNSIGNED_TX_HASH_TO_TX_INFO := (UNSIGNED_TX_HASH_TO_TX_INFO s)(unsigned_tx_hash \<mapsto> tx_info)\<rparr>,
             tx_info))))))"

definition apply_confirmed ::
    "xrpl_lib \<Rightarrow> prover_state \<Rightarrow> gateway_client \<Rightarrow> tx_hash \<Rightarrow> tx_info \<Rightarrow>
     (verifier_set option \<times> prover_event option) prover_result" where
  "apply_confirmed lib s gateway tx_id tx_info =
     (let number = tx_sequence_number lib (ti_unsigned_tx tx_info) in
      case ti_unsigned_tx tx_info of
        TicketCreate tx \<Rightarrow>
          rbind (ok_or Overflow (checked_add number 1)) (\<lambda>start.
          rbind (ok_or Overflow (Option.bind (checked_add number (tc_ticket_count tx)) (\<lambda>sum. checked_add sum 1))) (\<lambda>end.
          rbind (mark_tickets_available s (word_range start end)) (\<lambda>(s, _).
          Inr (s, None, Some (TicketsCreated (tx_hash_as_hex_no_prefix lib tx_id) start end)))))
      | SignerListSet tx \<Rightarrow>
          rbind (ok_or NoVerifierSetToConfirm (NEXT_VERIFIER_SET s)) (\<lambda>next_verifier_set.
          let signer_entries = map (signer_entry_from lib) (vs_signers next_verifier_set) in
          if signer_entries \<noteq> sl_signer_entries tx \<or> sl_signer_quorum tx \<noteq> vs_quorum next_verifier_set
          then Inl SignerListMismatch
          else
            (let s = s\<lparr>CURRENT_VERIFIER_SET := Some next_verifier_set, NEXT_VERIFIER_SET := None\<rparr> in
             rbind (verifier_set_try_from lib next_verifier_set) (\<lambda>new_verifier_set.
             Inr (s, Some next_verifier_set,
                  Some (VerifierSetUpdated (tx_hash_as_hex_no_prefix lib tx_id)
                          (ms_verifier_set_id (keccak256_digest lib) new_verifier_set)
                          (length (vs_signers next_verifier_set)) (vs_quorum next_verifier_set))))))
      | Payment tx \<Rightarrow>
          (case ti_original_cc_id tx_info of
             Some cc_id \<Rightarrow>
               rbind (payment_amount_to_token_id gateway (pay_amount tx)) (\<lambda>token_id.
               Inr (s, None, Some (InterchainTransferReceived (message_id cc_id) token_id (source_chain cc_id)
                                     (pay_destination tx) (pay_amount tx))))
           | None \<Rightarrow> Inl PaymentMissingCrossChainId)
      | TrustSet tx \<Rightarrow>
          (case TRUST_LINE s (ts_token tx) of
             Some _ \<Rightarrow> Inr (s, None, None)
           | None \<Rightarrow>
               (let s = s\<lparr>TRUST_LINE := (TRUST_LINE s)(ts_token tx \<mapsto> ())\<rparr>;
                    count = (case TRUST_LINE_COUNT s of None \<Rightarrow> 0 | Some n \<Rightarrow> n) in
                rbind (ok_or Overflow (checked_add count 1)) (\<lambda>count.
                let s = s\<lparr>TRUST_LINE_COUNT := Some count\<rparr> in
                rbind (token_to_token_id gateway (ts_token tx)) (\<lambda>token_id.
                Inr (s, None, Some (TrustLineCreated (tx_hash_as_hex_no_prefix lib tx_id) token_id (ts_token tx))))))))"

definition ms_confirm_prover_message ::
    "xrpl_lib \<Rightarrow> prover_state \<Rightarrow> gateway_client \<Rightarrow> tx_hash \<Rightarrow> tx_hash \<Rightarrow> xrpl_tx_status \<Rightarrow>
     (verifier_set option \<times> prover_event option) prover_result" where
  "ms_confirm_prover_message lib s gateway tx_id unsigned_tx_hash new_status =
     rbind (record_confirmation lib s unsigned_tx_hash new_status) (\<lambda>(s, tx_info).
     if new_status \<noteq> TxSucceeded then Inr (s, None, None)
     else apply_confirmed lib s gateway tx_id tx_info)"

section \<open>What issuing a transaction changes\<close>

lemma issue_tx_effect:
  assumes "issue_tx lib s tx cc = Inr (s', tts)"
  obtains h where "hash_unsigned_tx lib tx = Inr h"
    and "tts = \<lparr>tts_unsigned_tx = tx, tts_unsigned_tx_hash = h, tts_cc_id = cc\<rparr>"
    and "s' = s\<lparr>UNSIGNED_TX_HASH_TO_TX_INFO := (UNSIGNED_TX_HASH_TO_TX_INFO s)
                 (h \<mapsto> \<lparr>ti_status = TxPending, ti_unsigned_tx = tx, ti_original_cc_id = cc\<rparr>)\<rparr>"
  using assms by (auto simp: issue_tx_def result_simps)

text \<open>
  The check of the fee reserve, as one statement: the reserve covers the account, the fee and the objects
  the transaction may add whenever the number is new or the transaction adds more objects than any other
  with this number; the fee is deducted only for a new number.
\<close>

lemma should_assert_iff:
  "should_assert_sufficient_reserve n prev \<longleftrightarrow> (\<forall>m. prev = Some m \<longrightarrow> m < n)"
  by (auto simp: should_assert_sufficient_reserve_def split: option.splits)

lemma fee_reserve_kept:
  assumes "\<not> should_assert_sufficient_reserve n (SEQUENCE_NUMBER_MAX_OBJECT_COUNT s q)"
  shows "ensure_sufficient_fee_reserve s config q fee n = Inr (s, ())"
  using assms by (simp add: ensure_sufficient_fee_reserve_def)

lemma fee_reserve_charged:
  assumes "should_assert_sufficient_reserve n (SEQUENCE_NUMBER_MAX_OBJECT_COUNT s q)"
    and "ensure_sufficient_fee_reserve s config q fee n = Inr (s', u)"
  obtains current reserve new where "FEE_RESERVE s = Some current" "account_reserve s config = Inr reserve"
    "unat reserve + unat fee + unat (pc_xrpl_owner_reserve config) * unat n \<le> unat current"
    "unat new = unat current - (if SEQUENCE_NUMBER_MAX_OBJECT_COUNT s q = None then unat fee else 0)"
    "s' = s\<lparr>SEQUENCE_NUMBER_MAX_OBJECT_COUNT := (SEQUENCE_NUMBER_MAX_OBJECT_COUNT s)(q \<mapsto> n),
            FEE_RESERVE := Some new\<rparr>"
proof -
  have un: "unat (ucast n :: u64) = unat n"
    by (simp add: unat_ucast_up)
  from assms obtain current reserve objs inc req where *: "FEE_RESERVE s = Some current"
      "account_reserve s config = Inr reserve"
      "checked_mul (pc_xrpl_owner_reserve config) (ucast n) = Some objs"
      "checked_add fee objs = Some inc" "checked_add reserve inc = Some req" "\<not> current < req"
    and res: "(if SEQUENCE_NUMBER_MAX_OBJECT_COUNT s q = None then
           rbind (ok_or Underflow (checked_sub current fee)) (\<lambda>new. Inr
             (s\<lparr>SEQUENCE_NUMBER_MAX_OBJECT_COUNT := (SEQUENCE_NUMBER_MAX_OBJECT_COUNT s)(q \<mapsto> n),
                FEE_RESERVE := Some new\<rparr>, ()))
         else Inr (s\<lparr>SEQUENCE_NUMBER_MAX_OBJECT_COUNT := (SEQUENCE_NUMBER_MAX_OBJECT_COUNT s)(q \<mapsto> n)\<rparr>, ()))
       = Inr (s', u)"
    by (auto simp: ensure_sufficient_fee_reserve_def result_simps Let_def)
  have le: "unat reserve + unat fee + unat (pc_xrpl_owner_reserve config) * unat n \<le> unat current"
    using * by (simp add: checked_simps un word_less_nat_alt)
  show thesis
  proof (cases "SEQUENCE_NUMBER_MAX_OBJECT_COUNT s q = None")
    case True
    with res obtain new where new: "checked_sub current fee = Some new"
      "s' = s\<lparr>SEQUENCE_NUMBER_MAX_OBJECT_COUNT := (SEQUENCE_NUMBER_MAX_OBJECT_COUNT s)(q \<mapsto> n),
              FEE_RESERVE := Some new\<rparr>"
      by (auto simp: result_simps)
    show thesis
      by (rule that [OF *(1,2) le _ new(2)]) (use new(1) True in \<open>simp add: checked_sub_Some\<close>)
  next
    case False
    with res have "s' = s\<lparr>SEQUENCE_NUMBER_MAX_OBJECT_COUNT := (SEQUENCE_NUMBER_MAX_OBJECT_COUNT s)(q \<mapsto> n)\<rparr>"
      by simp
    then have "s' = s\<lparr>SEQUENCE_NUMBER_MAX_OBJECT_COUNT := (SEQUENCE_NUMBER_MAX_OBJECT_COUNT s)(q \<mapsto> n),
                      FEE_RESERVE := Some current\<rparr>"
      using *(1) by simp
    then show thesis
      by (rule that [OF *(1,2) le, rotated]) (use False in auto)
  qed
qed

lemma tx_fee_frame:
  assumes "tx_fee lib s config q ty = Inr (s', fee)"
  obtains m f where "s' = s\<lparr>SEQUENCE_NUMBER_MAX_OBJECT_COUNT := m, FEE_RESERVE := f\<rparr>"
proof -
  from assms have e: "ensure_sufficient_fee_reserve s config q fee (object_count_increment lib ty) = Inr (s', ())"
    by (auto simp: tx_fee_def result_simps Let_def)
  show thesis
  proof (cases "should_assert_sufficient_reserve (object_count_increment lib ty) (SEQUENCE_NUMBER_MAX_OBJECT_COUNT s q)")
    case True
    then show thesis using fee_reserve_charged [OF _ e] that by metis
  next
    case False
    have "s' = s\<lparr>SEQUENCE_NUMBER_MAX_OBJECT_COUNT := SEQUENCE_NUMBER_MAX_OBJECT_COUNT s, FEE_RESERVE := FEE_RESERVE s\<rparr>"
      using e fee_reserve_kept [OF False] by simp
    then show thesis by (rule that)
  qed
qed

lemma next_ticket_number_eq:
  assumes "LAST_ASSIGNED_TICKET_NUMBER s = Some prev" "AVAILABLE_TICKETS s = Some tickets" "tickets \<noteq> []"
    and "t = (case find (\<lambda>x. x > prev) tickets of Some x \<Rightarrow> x | None \<Rightarrow> hd tickets)"
  shows "next_ticket_number s = Inr (s\<lparr>LAST_ASSIGNED_TICKET_NUMBER := Some t\<rparr>, t)"
  using assms by (cases tickets) (simp_all add: next_ticket_number_def Let_def split: option.split)

lemma next_ticket_number_effect:
  assumes "next_ticket_number s = Inr (s', t)"
  obtains last tickets where "LAST_ASSIGNED_TICKET_NUMBER s = Some last" "AVAILABLE_TICKETS s = Some tickets"
    "t \<in> set tickets" "s' = s\<lparr>LAST_ASSIGNED_TICKET_NUMBER := Some t\<rparr>"
    "t = (case find (\<lambda>x. x > last) tickets of Some x \<Rightarrow> x | None \<Rightarrow> hd tickets)"
proof -
  from assms obtain last tickets where l: "LAST_ASSIGNED_TICKET_NUMBER s = Some last"
      "AVAILABLE_TICKETS s = Some tickets"
    by (auto simp: next_ticket_number_def result_simps)
  have ne: "tickets \<noteq> []"
    using assms l by (cases tickets) (simp_all add: next_ticket_number_def)
  define t0 where "t0 = (case find (\<lambda>x. x > last) tickets of Some x \<Rightarrow> x | None \<Rightarrow> hd tickets)"
  have "next_ticket_number s = Inr (s\<lparr>LAST_ASSIGNED_TICKET_NUMBER := Some t0\<rparr>, t0)"
    by (rule next_ticket_number_eq [OF l ne t0_def])
  then have t: "t = t0" "s' = s\<lparr>LAST_ASSIGNED_TICKET_NUMBER := Some t\<rparr>"
    using assms by simp_all
  have "t \<in> set tickets"
    using ne by (auto simp: t t0_def find_Some_iff split: option.splits)
  then show thesis using that l t t0_def by simp
qed

text \<open>A message keeps its ticket unless another message, or a failed attempt of its own, consumed it.\<close>

definition ticket_spent :: "prover_state \<Rightarrow> cross_chain_id \<Rightarrow> u32 \<Rightarrow> bool" where
  "ticket_spent s cc t \<longleftrightarrow>
     (case CONSUMED_TICKET_TO_UNSIGNED_TX_HASH s t of
        None \<Rightarrow> False
      | Some h \<Rightarrow>
          (case UNSIGNED_TX_HASH_TO_TX_INFO s h of
             None \<Rightarrow> False
           | Some ti \<Rightarrow> ti_original_cc_id ti \<noteq> Some cc \<or> ti_status ti = TxFailedOnChain))"

lemma assign_ticket_number_effect:
  assumes "assign_ticket_number s cc = Inr (s', t)"
  obtains
    (kept) "s' = s" "CROSS_CHAIN_ID_TO_TICKET s cc = Some t" "\<not> ticket_spent s cc t"
  | (fresh) u where "next_ticket_number s = Inr (u, t)"
      "s' = u\<lparr>CROSS_CHAIN_ID_TO_TICKET := (CROSS_CHAIN_ID_TO_TICKET s)(cc \<mapsto> t)\<rparr>"
      "\<And>t'. CROSS_CHAIN_ID_TO_TICKET s cc = Some t' \<Longrightarrow> ticket_spent s cc t'"
proof -
  have fresh': thesis
    if new: "rbind (next_ticket_number s) (\<lambda>(s, n). Inr (s\<lparr>CROSS_CHAIN_ID_TO_TICKET :=
               (CROSS_CHAIN_ID_TO_TICKET s)(cc \<mapsto> n)\<rparr>, n)) = Inr (s', t)"
      and spent: "\<And>t'. CROSS_CHAIN_ID_TO_TICKET s cc = Some t' \<Longrightarrow> ticket_spent s cc t'"
  proof -
    from new obtain u where u: "next_ticket_number s = Inr (u, t)"
        "s' = u\<lparr>CROSS_CHAIN_ID_TO_TICKET := (CROSS_CHAIN_ID_TO_TICKET u)(cc \<mapsto> t)\<rparr>"
      by (auto simp: result_simps)
    have "CROSS_CHAIN_ID_TO_TICKET u = CROSS_CHAIN_ID_TO_TICKET s"
      using u(1) by (rule next_ticket_number_effect) simp
    then show thesis using fresh [OF u(1) _ spent] u(2) by simp
  qed
  show thesis
  proof (cases "CROSS_CHAIN_ID_TO_TICKET s cc")
    case None
    show thesis
      by (rule fresh') (use assms None in \<open>simp_all add: assign_ticket_number_def Let_def\<close>)
  next
    case t': (Some t')
    show thesis
    proof (cases "ticket_spent s cc t'")
      case True
      then show thesis
        using assms t' by (intro fresh')
          (simp_all add: assign_ticket_number_def Let_def ticket_spent_def split: option.splits if_splits)
    next
      case False
      then have "s' = s \<and> t = t'"
        using assms t' by (auto simp: assign_ticket_number_def Let_def ticket_spent_def result_simps split: option.splits if_splits)
      then show thesis using kept t' False by simp
    qed
  qed
qed

lemma issue_payment_effect:
  assumes "issue_payment lib s config dest amount cc cco = Inr (s', tts)"
  obtains t l m f h fee where
    "hash_unsigned_tx lib (Payment \<lparr>pay_account = pc_xrpl_multisig config, pay_fee = fee, pay_sequence = Ticket t,
       pay_amount = amount, pay_destination = dest, pay_cross_currency = cco, pay_cc_id = Some cc\<rparr>) = Inr h"
    "tts_unsigned_tx_hash tts = h"
    "s' = s\<lparr>LAST_ASSIGNED_TICKET_NUMBER := l,
            CROSS_CHAIN_ID_TO_TICKET := (CROSS_CHAIN_ID_TO_TICKET s)(cc \<mapsto> t),
            SEQUENCE_NUMBER_MAX_OBJECT_COUNT := m, FEE_RESERVE := f,
            UNSIGNED_TX_HASH_TO_TX_INFO := (UNSIGNED_TX_HASH_TO_TX_INFO s)
              (h \<mapsto> \<lparr>ti_status = TxPending, ti_unsigned_tx = Payment \<lparr>pay_account = pc_xrpl_multisig config,
                    pay_fee = fee, pay_sequence = Ticket t, pay_amount = amount, pay_destination = dest,
                    pay_cross_currency = cco, pay_cc_id = Some cc\<rparr>, ti_original_cc_id = Some cc\<rparr>)\<rparr>"
    "CROSS_CHAIN_ID_TO_TICKET s cc = Some t \<and> \<not> ticket_spent s cc t
     \<or> (\<exists>tickets. AVAILABLE_TICKETS s = Some tickets \<and> t \<in> set tickets)
       \<and> (\<forall>t'. CROSS_CHAIN_ID_TO_TICKET s cc = Some t' \<longrightarrow> ticket_spent s cc t')"
proof -
  from assms obtain u t v fee where u: "assign_ticket_number s cc = Inr (u, t)"
      and v: "tx_fee lib u config t TypePayment = Inr (v, fee)"
      and tx: "issue_tx lib v (Payment \<lparr>pay_account = pc_xrpl_multisig config, pay_fee = fee, pay_sequence = Ticket t,
         pay_amount = amount, pay_destination = dest, pay_cross_currency = cco, pay_cc_id = Some cc\<rparr>) (Some cc) = Inr (s', tts)"
    by (auto simp: issue_payment_def result_simps)
  from u obtain l where l: "u = s\<lparr>LAST_ASSIGNED_TICKET_NUMBER := l,
      CROSS_CHAIN_ID_TO_TICKET := (CROSS_CHAIN_ID_TO_TICKET s)(cc \<mapsto> t)\<rparr>"
    and c: "CROSS_CHAIN_ID_TO_TICKET s cc = Some t \<and> \<not> ticket_spent s cc t
     \<or> (\<exists>tickets. AVAILABLE_TICKETS s = Some tickets \<and> t \<in> set tickets)
       \<and> (\<forall>t'. CROSS_CHAIN_ID_TO_TICKET s cc = Some t' \<longrightarrow> ticket_spent s cc t')"
  proof (cases rule: assign_ticket_number_effect)
    case kept
    have "u = s\<lparr>LAST_ASSIGNED_TICKET_NUMBER := LAST_ASSIGNED_TICKET_NUMBER s,
        CROSS_CHAIN_ID_TO_TICKET := (CROSS_CHAIN_ID_TO_TICKET s)(cc \<mapsto> t)\<rparr>"
      using kept(1,2) by (simp add: map_upd_triv)
    then show thesis using that kept(2,3) by blast
  next
    case (fresh w)
    from fresh(1) obtain tickets where "AVAILABLE_TICKETS s = Some tickets" "t \<in> set tickets"
        "w = s\<lparr>LAST_ASSIGNED_TICKET_NUMBER := Some t\<rparr>"
      by (rule next_ticket_number_effect)
    then show thesis using that [of "Some t"] fresh(2,3) by simp
  qed
  obtain m f where v': "v = u\<lparr>SEQUENCE_NUMBER_MAX_OBJECT_COUNT := m, FEE_RESERVE := f\<rparr>"
    using v by (rule tx_fee_frame)
  show thesis
    using tx by (rule issue_tx_effect) (rule that [OF _ _ _ c], simp_all add: v' l)
qed

text \<open>The three transactions that carry a plain sequence number: which one, and what it changes.\<close>

definition plain_issued :: "xrpl_lib \<Rightarrow> prover_state \<Rightarrow> prover_state \<Rightarrow> tx_hash \<Rightarrow> bool" where
  "plain_issued lib s s' h \<longleftrightarrow>
     (\<exists>n tx m f. NEXT_SEQUENCE_NUMBER s = Some n \<and> unsigned_tx_sequence tx = Plain n \<and> (\<forall>p. tx \<noteq> Payment p) \<and>
        hash_unsigned_tx lib tx = Inr h \<and>
        s' = s\<lparr>SEQUENCE_NUMBER_MAX_OBJECT_COUNT := m, FEE_RESERVE := f,
               UNSIGNED_TX_HASH_TO_TX_INFO := (UNSIGNED_TX_HASH_TO_TX_INFO s)
                 (h \<mapsto> \<lparr>ti_status = TxPending, ti_unsigned_tx = tx, ti_original_cc_id = None\<rparr>)\<rparr>)"

lemma issue_plain_effect:
  assumes "rbind (next_sequence_number s) (\<lambda>n. rbind (tx_fee lib s config n ty) (\<lambda>(s, fee).
             issue_tx lib s (mk n fee) None)) = Inr (s', tts)"
    and mk: "\<And>n fee. unsigned_tx_sequence (mk n fee) = Plain n" "\<And>n fee p. mk n fee \<noteq> Payment p"
  shows "plain_issued lib s s' (tts_unsigned_tx_hash tts)"
proof -
  from assms(1) obtain n u fee where n: "NEXT_SEQUENCE_NUMBER s = Some n"
      and u: "tx_fee lib s config n ty = Inr (u, fee)" and tx: "issue_tx lib u (mk n fee) None = Inr (s', tts)"
    by (auto simp: next_sequence_number_def result_simps)
  obtain m f where u': "u = s\<lparr>SEQUENCE_NUMBER_MAX_OBJECT_COUNT := m, FEE_RESERVE := f\<rparr>"
    using u by (rule tx_fee_frame)
  show ?thesis
    using tx
  proof (rule issue_tx_effect)
    fix h assume h: "hash_unsigned_tx lib (mk n fee) = Inr h"
      "tts = \<lparr>tts_unsigned_tx = mk n fee, tts_unsigned_tx_hash = h, tts_cc_id = None\<rparr>"
      "s' = u\<lparr>UNSIGNED_TX_HASH_TO_TX_INFO := (UNSIGNED_TX_HASH_TO_TX_INFO u)
         (h \<mapsto> \<lparr>ti_status = TxPending, ti_unsigned_tx = mk n fee, ti_original_cc_id = None\<rparr>)\<rparr>"
    show ?thesis
      unfolding plain_issued_def
      by (rule exI [of _ n], rule exI [of _ "mk n fee"], rule exI [of _ m], rule exI [of _ f])
        (simp add: n mk h u')
  qed
qed

lemma issue_ticket_create_effect:
  "issue_ticket_create lib s config n = Inr (s', tts) \<Longrightarrow> plain_issued lib s s' (tts_unsigned_tx_hash tts)"
  unfolding issue_ticket_create_def by (rule issue_plain_effect) auto

lemma issue_trust_set_effect:
  "issue_trust_set lib s config token = Inr (s', tts) \<Longrightarrow> plain_issued lib s s' (tts_unsigned_tx_hash tts)"
  unfolding issue_trust_set_def by (rule issue_plain_effect) auto

lemma issue_signer_list_set_effect:
  "issue_signer_list_set lib s config vs = Inr (s', tts) \<Longrightarrow> plain_issued lib s s' (tts_unsigned_tx_hash tts)"
  unfolding issue_signer_list_set_def by (rule issue_plain_effect) auto

section \<open>What a confirmation changes\<close>

lemma advance_sequence_number_effect:
  assumes "advance_sequence_number s number inc = Inr s'"
  shows "s' = s\<lparr>NEXT_SEQUENCE_NUMBER := NEXT_SEQUENCE_NUMBER s'\<rparr>"
    and "if 0 < inc \<and> NEXT_SEQUENCE_NUMBER s = Some number
         then \<exists>n. NEXT_SEQUENCE_NUMBER s' = Some n \<and> unat n = unat number + unat inc
         else NEXT_SEQUENCE_NUMBER s' = NEXT_SEQUENCE_NUMBER s"
proof -
  have *: "(0 < inc \<and> NEXT_SEQUENCE_NUMBER s = Some number \<and>
            (\<exists>n. s' = s\<lparr>NEXT_SEQUENCE_NUMBER := Some n\<rparr> \<and> unat n = unat number + unat inc))
         \<or> (\<not> (0 < inc \<and> NEXT_SEQUENCE_NUMBER s = Some number) \<and> s' = s)"
    using assms by (cases "0 < inc"; cases "NEXT_SEQUENCE_NUMBER s"; cases "NEXT_SEQUENCE_NUMBER s = Some number")
      (auto simp: advance_sequence_number_def result_simps checked_add_Some)
  then show "s' = s\<lparr>NEXT_SEQUENCE_NUMBER := NEXT_SEQUENCE_NUMBER s'\<rparr>"
    by (elim disjE conjE exE) simp_all
  from * show "if 0 < inc \<and> NEXT_SEQUENCE_NUMBER s = Some number
         then \<exists>n. NEXT_SEQUENCE_NUMBER s' = Some n \<and> unat n = unat number + unat inc
         else NEXT_SEQUENCE_NUMBER s' = NEXT_SEQUENCE_NUMBER s"
    by (elim disjE conjE exE) auto
qed

lemma record_confirmation_effect:
  assumes "record_confirmation lib s h new_status = Inr (s', ti')"
  obtains ti tickets inc nxt where "UNSIGNED_TX_HASH_TO_TX_INFO s h = Some ti" "ti_status ti = TxPending"
    "new_status = TxSucceeded \<or> new_status = TxFailedOnChain"
    "AVAILABLE_TICKETS s = Some tickets" "ti' = ti\<lparr>ti_status := new_status\<rparr>"
    "sequence_number_increment lib (ti_unsigned_tx ti) new_status = Inr inc"
    "if 0 < inc \<and> NEXT_SEQUENCE_NUMBER s = Some (tx_sequence_number lib (ti_unsigned_tx ti))
     then \<exists>n. nxt = Some n \<and> unat n = unat (tx_sequence_number lib (ti_unsigned_tx ti)) + unat inc
     else nxt = NEXT_SEQUENCE_NUMBER s"
    "s' = s\<lparr>NEXT_SEQUENCE_NUMBER := nxt,
            CONSUMED_TICKET_TO_UNSIGNED_TX_HASH :=
              (CONSUMED_TICKET_TO_UNSIGNED_TX_HASH s)(tx_sequence_number lib (ti_unsigned_tx ti) \<mapsto> h),
            AVAILABLE_TICKETS := Some (filter (\<lambda>x. x \<noteq> tx_sequence_number lib (ti_unsigned_tx ti)) tickets),
            UNSIGNED_TX_HASH_TO_TX_INFO := (UNSIGNED_TX_HASH_TO_TX_INFO s)(h \<mapsto> ti\<lparr>ti_status := new_status\<rparr>)\<rparr>"
proof -
  define num where "num ti = tx_sequence_number lib (ti_unsigned_tx ti)" for ti :: tx_info
  from assms obtain ti where ti: "UNSIGNED_TX_HASH_TO_TX_INFO s h = Some ti" "ti_status ti = TxPending"
      and st: "new_status \<noteq> TxPending" "new_status \<noteq> TxInconclusive"
    by (auto simp: record_confirmation_def result_simps)
  then have new: "new_status = TxSucceeded \<or> new_status = TxFailedOnChain"
    by (cases new_status) auto
  from assms ti st obtain inc u v where inc: "sequence_number_increment lib (ti_unsigned_tx ti) new_status = Inr inc"
    and u: "advance_sequence_number s (num ti) inc = Inr u"
    and v: "mark_ticket_unavailable (u\<lparr>CONSUMED_TICKET_TO_UNSIGNED_TX_HASH :=
              (CONSUMED_TICKET_TO_UNSIGNED_TX_HASH u)(num ti \<mapsto> h)\<rparr>) (num ti) = Inr (v, ())"
    and s': "s' = v\<lparr>UNSIGNED_TX_HASH_TO_TX_INFO := (UNSIGNED_TX_HASH_TO_TX_INFO v)(h \<mapsto> ti\<lparr>ti_status := new_status\<rparr>)\<rparr>"
    and ti': "ti' = ti\<lparr>ti_status := new_status\<rparr>"
    using new by (auto simp: record_confirmation_def result_simps Let_def num_def split: if_splits)
  note u' = advance_sequence_number_effect(1) [OF u] and next_no = advance_sequence_number_effect(2) [OF u]
  have other: "CONSUMED_TICKET_TO_UNSIGNED_TX_HASH u = CONSUMED_TICKET_TO_UNSIGNED_TX_HASH s"
    "AVAILABLE_TICKETS u = AVAILABLE_TICKETS s" "UNSIGNED_TX_HASH_TO_TX_INFO u = UNSIGNED_TX_HASH_TO_TX_INFO s"
    by (subst u', simp)+
  from v obtain tickets where tk: "AVAILABLE_TICKETS s = Some tickets"
    "v = u\<lparr>CONSUMED_TICKET_TO_UNSIGNED_TX_HASH := (CONSUMED_TICKET_TO_UNSIGNED_TX_HASH s)(num ti \<mapsto> h),
           AVAILABLE_TICKETS := Some (filter (\<lambda>x. x \<noteq> num ti) tickets)\<rparr>"
    by (auto simp: mark_ticket_unavailable_def item_update_def item_load_def result_simps other)
  have final: "s' = s\<lparr>NEXT_SEQUENCE_NUMBER := NEXT_SEQUENCE_NUMBER u,
            CONSUMED_TICKET_TO_UNSIGNED_TX_HASH := (CONSUMED_TICKET_TO_UNSIGNED_TX_HASH s)(num ti \<mapsto> h),
            AVAILABLE_TICKETS := Some (filter (\<lambda>x. x \<noteq> num ti) tickets),
            UNSIGNED_TX_HASH_TO_TX_INFO := (UNSIGNED_TX_HASH_TO_TX_INFO s)(h \<mapsto> ti\<lparr>ti_status := new_status\<rparr>)\<rparr>"
    unfolding s' tk(2) by (subst (1) u') (simp add: other)
  show thesis
    by (rule that [OF ti new tk(1) ti' inc next_no [unfolded num_def] final [unfolded num_def]])
qed

lemma length_word_range [simp]: "length (word_range a b) = unat b - unat a"
  by (simp add: word_range_def)

lemma set_word_range: "x \<in> set (word_range a b) \<longleftrightarrow> unat a \<le> unat x \<and> unat x < unat b"
proof
  assume "x \<in> set (word_range a b)"
  then obtain i where i: "x = of_nat i" "unat a \<le> i" "i < unat b"
    by (auto simp: word_range_def)
  then have "i < 2 ^ 32"
    using unat_bound [of b] by simp
  then show "unat a \<le> unat x \<and> unat x < unat b"
    using i by (simp add: unat_of_nat)
next
  assume *: "unat a \<le> unat x \<and> unat x < unat b"
  then have "of_nat (unat x) \<in> set (word_range a b)"
    unfolding word_range_def set_map by (intro imageI) simp
  then show "x \<in> set (word_range a b)" by simp
qed

lemma sorted_word_range: "sorted_wrt (<) (word_range a b)"
proof -
  have "sorted_wrt (\<lambda>i j. (of_nat i :: u32) < of_nat j) [unat a ..< unat b]"
  proof (rule sorted_wrt_mono_rel [OF _ sorted_wrt_upt [of "unat a" "unat b"]])
    fix i j assume "i \<in> set [unat a ..< unat b]" "j \<in> set [unat a ..< unat b]" "i < j"
    then show "(of_nat i :: u32) < of_nat j"
      using unat_bound [of b] by (simp add: word_less_nat_alt unat_of_nat)
  qed
  then show ?thesis by (simp add: word_range_def sorted_wrt_map)
qed

lemma apply_confirmed_effect:
  assumes "apply_confirmed lib s gateway tx_id ti = Inr (s', vs, ev)"
  obtains
    (tickets) tx start end' tks where "ti_unsigned_tx ti = TicketCreate tx" "AVAILABLE_TICKETS s = Some tks"
      "unat start = unat (tx_sequence_number lib (ti_unsigned_tx ti)) + 1"
      "unat end' = unat (tx_sequence_number lib (ti_unsigned_tx ti)) + unat (tc_ticket_count tx) + 1"
      "length tks + unat (tc_ticket_count tx) \<le> 250"
      "s' = s\<lparr>AVAILABLE_TICKETS := Some (tks @ word_range start end')\<rparr>" "vs = None"
  | (signers) tx nvs where "ti_unsigned_tx ti = SignerListSet tx" "NEXT_VERIFIER_SET s = Some nvs"
      "sl_signer_entries tx = map (signer_entry_from lib) (vs_signers nvs)" "sl_signer_quorum tx = vs_quorum nvs"
      "s' = s\<lparr>CURRENT_VERIFIER_SET := Some nvs, NEXT_VERIFIER_SET := None\<rparr>" "vs = Some nvs"
  | (unchanged) "s' = s" "vs = None"
  | (trust_line) tx n where "ti_unsigned_tx ti = TrustSet tx" "TRUST_LINE s (ts_token tx) = None"
      "unat n = (case TRUST_LINE_COUNT s of None \<Rightarrow> 0 | Some m \<Rightarrow> unat m) + 1"
      "s' = s\<lparr>TRUST_LINE := (TRUST_LINE s)(ts_token tx \<mapsto> ()), TRUST_LINE_COUNT := Some n\<rparr>" "vs = None"
proof (cases "ti_unsigned_tx ti")
  case (Payment p)
  then show thesis
    using assms unchanged by (auto simp: apply_confirmed_def result_simps split: option.splits)
next
  case (TicketCreate tx)
  define number where "number = tx_sequence_number lib (ti_unsigned_tx ti)"
  from assms TicketCreate obtain start sum end' tks where *: "checked_add number 1 = Some start"
      "checked_add number (tc_ticket_count tx) = Some sum" "checked_add sum 1 = Some end'"
      "AVAILABLE_TICKETS s = Some tks" "\<not> unat MAX_TICKET_COUNT < length tks + (unat end' - unat start)"
      "s' = s\<lparr>AVAILABLE_TICKETS := Some (tks @ word_range start end')\<rparr>" "vs = None"
    by (auto simp: apply_confirmed_def mark_tickets_available_def result_simps Let_def number_def
        bind_eq_Some_conv not_less)
  show thesis
    by (rule tickets [OF TicketCreate *(4) _ _ _ *(6,7)])
      (use * in \<open>auto simp: checked_add_Some number_def MAX_TICKET_COUNT_def\<close>)
next
  case (SignerListSet tx)
  from assms SignerListSet obtain nvs where *: "NEXT_VERIFIER_SET s = Some nvs"
      "\<not> (map (signer_entry_from lib) (vs_signers nvs) \<noteq> sl_signer_entries tx
           \<or> sl_signer_quorum tx \<noteq> vs_quorum nvs)"
      "s' = s\<lparr>CURRENT_VERIFIER_SET := Some nvs, NEXT_VERIFIER_SET := None\<rparr>" "vs = Some nvs"
    by (auto simp: apply_confirmed_def result_simps Let_def)
  then show thesis using signers [OF SignerListSet] by simp
next
  case (TrustSet tx)
  show thesis
  proof (cases "TRUST_LINE s (ts_token tx)")
    case None
    with assms TrustSet obtain n where *: "checked_add (case TRUST_LINE_COUNT s of None \<Rightarrow> 0 | Some n \<Rightarrow> n) 1 = Some n"
        "s' = s\<lparr>TRUST_LINE := (TRUST_LINE s)(ts_token tx \<mapsto> ()), TRUST_LINE_COUNT := Some n\<rparr>" "vs = None"
      by (auto simp: apply_confirmed_def result_simps Let_def)
    show thesis
      by (rule trust_line [OF TrustSet None _ *(2,3)])
        (use *(1) in \<open>simp add: checked_add_Some split: option.splits\<close>)
  next
    case (Some u)
    then show thesis
      using assms TrustSet unchanged by (simp add: apply_confirmed_def)
  qed
qed

lemma apply_confirmed_frame:
  assumes "apply_confirmed lib s gateway tx_id ti = Inr (s', r)"
  obtains a c n t k where "s' = s\<lparr>AVAILABLE_TICKETS := a, TRUST_LINE := t, TRUST_LINE_COUNT := k,
    CURRENT_VERIFIER_SET := c, NEXT_VERIFIER_SET := n\<rparr>"
proof -
  obtain vs ev where "apply_confirmed lib s gateway tx_id ti = Inr (s', vs, ev)"
    using assms by (cases r) auto
  then have "s' = s\<lparr>AVAILABLE_TICKETS := AVAILABLE_TICKETS s', TRUST_LINE := TRUST_LINE s',
      TRUST_LINE_COUNT := TRUST_LINE_COUNT s', CURRENT_VERIFIER_SET := CURRENT_VERIFIER_SET s',
      NEXT_VERIFIER_SET := NEXT_VERIFIER_SET s'\<rparr>"
    by (cases rule: apply_confirmed_effect) simp_all
  then show thesis by (rule that)
qed

lemma confirm_not_pending:
  assumes "ms_confirm_prover_message lib s gateway tx_id h st = Inr (s', r)"
  shows "\<exists>ti. UNSIGNED_TX_HASH_TO_TX_INFO s' h = Some ti \<and> ti_status ti = st \<and> st \<noteq> TxPending"
proof -
  from assms obtain u ti' where u: "record_confirmation lib s h st = Inr (u, ti')"
    and r: "(if st \<noteq> TxSucceeded then Inr (u, None, None) else apply_confirmed lib u gateway tx_id ti') = Inr (s', r)"
    by (auto simp: ms_confirm_prover_message_def result_simps)
  have "UNSIGNED_TX_HASH_TO_TX_INFO s' = UNSIGNED_TX_HASH_TO_TX_INFO u"
    using r by (auto split: if_splits elim: apply_confirmed_frame)
  then show ?thesis
    using u by (elim record_confirmation_effect) auto
qed

section \<open>Tickets go round\<close>

text \<open>The ticket numbers of \<open>n\<close> assignments in a row.\<close>

fun next_tickets :: "nat \<Rightarrow> prover_state \<Rightarrow> (u32 list) prover_result" where
  "next_tickets 0 s = Inr (s, [])"
| "next_tickets (Suc n) s =
     rbind (next_ticket_number s) (\<lambda>(s, t). rbind (next_tickets n s) (\<lambda>(s, ts). Inr (s, t # ts)))"

lemma find_takeWhile:
  "find P xs = (let p = length (takeWhile (\<lambda>x. \<not> P x) xs) in if p < length xs then Some (xs ! p) else None)"
  by (induction xs) (auto simp: Let_def)

abbreviation (input) ticket_position :: "u32 \<Rightarrow> u32 list \<Rightarrow> nat" where
  "ticket_position prev tickets \<equiv> length (takeWhile (\<lambda>x. \<not> prev < x) tickets)"

lemma next_ticket_number_position:
  assumes "LAST_ASSIGNED_TICKET_NUMBER s = Some prev" "AVAILABLE_TICKETS s = Some tickets" "tickets \<noteq> []"
  shows "next_ticket_number s =
    Inr (s\<lparr>LAST_ASSIGNED_TICKET_NUMBER := Some (tickets ! (ticket_position prev tickets mod length tickets))\<rparr>,
         tickets ! (ticket_position prev tickets mod length tickets))"
proof -
  have "ticket_position prev tickets \<le> length tickets"
    by (rule length_takeWhile_le)
  then consider "ticket_position prev tickets < length tickets" | "ticket_position prev tickets = length tickets"
    by linarith
  then have "(case find (\<lambda>x. x > prev) tickets of Some x \<Rightarrow> x | None \<Rightarrow> hd tickets)
      = tickets ! (ticket_position prev tickets mod length tickets)"
    using assms(3) by cases (simp_all add: find_takeWhile Let_def hd_conv_nth)
  then show ?thesis
    by (rule next_ticket_number_eq [OF assms sym])
qed

lemma ticket_position_nth:
  assumes "sorted_wrt (<) tickets" "i < length tickets"
  shows "ticket_position (tickets ! i) tickets = Suc i"
proof -
  have "takeWhile (\<lambda>x. \<not> tickets ! i < x) tickets = take (Suc i) tickets"
  proof (rule takeWhile_eq_take_P_nth)
    fix j assume "j < Suc i" "j < length tickets"
    then show "\<not> tickets ! i < tickets ! j"
      using sorted_wrt_nth_less [OF assms(1), of j i] assms(2) by (cases "j = i") auto
  next
    assume "Suc i < length tickets"
    then show "\<not> \<not> tickets ! i < tickets ! Suc i"
      using sorted_wrt_nth_less [OF assms(1), of i "Suc i"] by simp
  qed
  then show ?thesis using assms(2) by simp
qed

lemma next_tickets_positions:
  assumes "LAST_ASSIGNED_TICKET_NUMBER s = Some prev" "AVAILABLE_TICKETS s = Some tickets" "tickets \<noteq> []"
    and "sorted_wrt (<) tickets"
  shows "\<exists>l. next_tickets n s =
    Inr (s\<lparr>LAST_ASSIGNED_TICKET_NUMBER := l\<rparr>,
         map (\<lambda>j. tickets ! ((ticket_position prev tickets + j) mod length tickets)) [0..<n])"
  using assms(1,2)
proof (induction n arbitrary: s prev)
  case 0
  show ?case by (rule exI [of _ "LAST_ASSIGNED_TICKET_NUMBER s"]) simp
next
  case (Suc n)
  define t where "t = tickets ! (ticket_position prev tickets mod length tickets)"
  have pos: "ticket_position t tickets = Suc (ticket_position prev tickets mod length tickets)"
    unfolding t_def by (rule ticket_position_nth [OF assms(4)]) (simp add: assms(3))
  have eq: "(ticket_position t tickets + j) mod length tickets = (ticket_position prev tickets + Suc j) mod length tickets" for j
    using mod_add_left_eq [of "ticket_position prev tickets" "length tickets" "Suc j"] unfolding pos by simp
  obtain l where "next_tickets n (s\<lparr>LAST_ASSIGNED_TICKET_NUMBER := Some t\<rparr>) =
      Inr (s\<lparr>LAST_ASSIGNED_TICKET_NUMBER := l\<rparr>,
           map (\<lambda>j. tickets ! ((ticket_position prev tickets + Suc j) mod length tickets)) [0..<n])"
    using Suc.IH [of "s\<lparr>LAST_ASSIGNED_TICKET_NUMBER := Some t\<rparr>" t] Suc.prems eq by auto
  then show ?case
    using next_ticket_number_position [OF Suc.prems assms(3)]
    by (auto simp: t_def [symmetric] upt_conv_Cons map_Suc_upt [symmetric] o_def simp del: upt_Suc)
qed

section \<open>A prover for the examples\<close>

definition demo_config :: prover_config where
  "demo_config =
     \<lparr>pc_multisig = ''multisig'', pc_coordinator = ''coordinator'', pc_gateway = ''gateway'',
      pc_signing_threshold = demo_threshold, pc_xrpl_multisig = replicate 20 7, pc_voting_verifier = ''verifier'',
      pc_service_registry = ''registry'', pc_service_name = ''amplifier'', pc_chain_name = ''xrpl'',
      pc_verifier_set_diff_threshold = 0, pc_xrpl_transaction_fee = 10, pc_xrpl_base_reserve = 1000,
      pc_xrpl_owner_reserve = 10, pc_ticket_count_threshold = 2\<rparr>"

definition demo_prover :: prover_state where
  "demo_prover =
     \<lparr>CONFIG = Some demo_config, REPLY_UNSIGNED_TX_HASH = None, NEXT_SEQUENCE_NUMBER = Some 10,
      LAST_ASSIGNED_TICKET_NUMBER = Some 4, AVAILABLE_TICKETS = Some [3, 5, 8],
      MULTISIG_SESSION_ID_TO_UNSIGNED_TX_HASH = Map.empty, CROSS_CHAIN_ID_TO_TICKET = Map.empty,
      CROSS_CHAIN_ID_TO_MULTISIG_SESSION = Map.empty, CONSUMED_TICKET_TO_UNSIGNED_TX_HASH = Map.empty,
      UNSIGNED_TX_HASH_TO_TX_INFO = Map.empty, TRUST_LINE = Map.empty, TRUST_LINE_COUNT = None,
      SEQUENCE_NUMBER_MAX_OBJECT_COUNT = Map.empty, FEE_RESERVE = Some 100000, FEE_RESERVE_TOP_UP_COUNTED = Map.empty,
      CURRENT_VERIFIER_SET = None, NEXT_VERIFIER_SET = None,
      PERMISSIONS = \<lparr>admin = Some ''admin'', governance = Some ''governance''\<rparr>, KILLSWITCH = Some Disengaged\<rparr>"

definition demo_gateway :: gateway_client where
  "demo_gateway =
     \<lparr>gq_linked_token_id = (\<lambda>_. Some (replicate 32 1)), gq_xrp_token_id = Some (replicate 32 9),
      gq_xrpl_token = (\<lambda>_. Some \<lparr>tok_issuer = replicate 20 2, tok_currency = replicate 20 3\<rparr>),
      gq_token_instance_decimals = (\<lambda>_ _. Some 6), gq_outgoing_messages = (\<lambda>_. Some [])\<rparr>"

definition demo_cc :: cross_chain_id where
  "demo_cc = \<lparr>source_chain = ''axelar'', message_id = ''m1''\<rparr>"

definition demo_issue :: "xrpl_unsigned_tx_to_sign prover_result" where
  "demo_issue = issue_payment demo_lib demo_prover demo_config (replicate 20 4) (Drops 50) demo_cc None"

section \<open>Properties\<close>

text \<open>
  C17: When the available tickets are in ascending order, as many consecutive ticket assignments as there
  are available tickets hand out every one of them exactly once, starting with the first one after the
  ticket assigned last and wrapping around; no ticket is reused before all others were used.\<close>

theorem tickets_go_round:
  assumes "LAST_ASSIGNED_TICKET_NUMBER s = Some prev" "AVAILABLE_TICKETS s = Some tickets"
    and "sorted_wrt (<) tickets"
  shows "\<exists>s'. next_tickets (length tickets) s =
    Inr (s', rotate (length (takeWhile (\<lambda>x. \<not> prev < x) tickets)) tickets) \<and> AVAILABLE_TICKETS s' = Some tickets"
proof (cases "tickets = []")
  case False
  have "map (\<lambda>j. tickets ! ((ticket_position prev tickets + j) mod length tickets)) [0..<length tickets]
      = rotate (ticket_position prev tickets) tickets"
    by (rule nth_equalityI) (simp_all add: nth_rotate)
  then show ?thesis
    using next_tickets_positions [OF assms(1,2) False assms(3), of "length tickets"] assms(2) by auto
qed (use assms in simp)

theorem tickets_go_round_witness:
  "\<exists>s'. next_tickets 3 demo_prover = Inr (s', [5, 8, 3]) \<and> AVAILABLE_TICKETS s' = Some [3, 5, 8]"
proof -
  have d: "LAST_ASSIGNED_TICKET_NUMBER demo_prover = Some 4" "AVAILABLE_TICKETS demo_prover = Some [3, 5, 8]"
    "sorted_wrt (<) [3, 5, 8 :: u32]"
    by (simp_all add: demo_prover_def)
  have "rotate (length (takeWhile (\<lambda>x. \<not> 4 < x) [3, 5, 8 :: u32])) [3, 5, 8] = [5, 8, 3 :: u32]"
    and "length [3, 5, 8 :: u32] = 3"
    by (simp_all add: rotate_def)
  then show ?thesis using tickets_go_round [OF d] by metis
qed

text \<open>
  C18: Charging a transaction for the sequence or ticket number it uses. The fee is the configured fee
  times one plus the largest number of signers. The first transaction with a number pays it out of the
  fee reserve, and what is left still covers the reserve of the account and of the objects the
  transaction may create; a later transaction with the same number pays nothing. Either way the number
  is remembered with at least the objects of this transaction, and no other number is touched.\<close>

theorem fee_charged_once:
  assumes "tx_fee lib s config q ty = Inr (s', fee)" and "FEE_RESERVE s = Some reserve"
  shows "unat fee = 33 * unat (pc_xrpl_transaction_fee config) \<and>
    (if SEQUENCE_NUMBER_MAX_OBJECT_COUNT s q = None
     then \<exists>left account. FEE_RESERVE s' = Some left \<and> unat left + unat fee = unat reserve \<and>
            account_reserve s config = Inr account \<and>
            unat account + unat (pc_xrpl_owner_reserve config) * unat (object_count_increment lib ty) \<le> unat left
     else FEE_RESERVE s' = Some reserve) \<and>
    (\<exists>m. SEQUENCE_NUMBER_MAX_OBJECT_COUNT s' q = Some m \<and> object_count_increment lib ty \<le> m) \<and>
    (\<forall>q'. q' \<noteq> q \<longrightarrow> SEQUENCE_NUMBER_MAX_OBJECT_COUNT s' q' = SEQUENCE_NUMBER_MAX_OBJECT_COUNT s q')"
proof -
  let ?n = "object_count_increment lib ty"
  from assms(1) have fee: "checked_mul (pc_xrpl_transaction_fee config) (ucast (1 + MAX_SIGNERS)) = Some fee"
    and e: "ensure_sufficient_fee_reserve s config q fee ?n = Inr (s', ())"
    by (auto simp: tx_fee_def result_simps Let_def)
  have f: "unat fee = 33 * unat (pc_xrpl_transaction_fee config)"
    using fee by (simp add: checked_mul_Some MAX_SIGNERS_def)
  show ?thesis
  proof (cases "should_assert_sufficient_reserve ?n (SEQUENCE_NUMBER_MAX_OBJECT_COUNT s q)")
    case True
    then show ?thesis
      using e
    proof (rule fee_reserve_charged)
      fix current account new
      assume *: "FEE_RESERVE s = Some current" "account_reserve s config = Inr account"
        "unat account + unat fee + unat (pc_xrpl_owner_reserve config) * unat ?n \<le> unat current"
        "unat new = unat current - (if SEQUENCE_NUMBER_MAX_OBJECT_COUNT s q = None then unat fee else 0)"
        "s' = s\<lparr>SEQUENCE_NUMBER_MAX_OBJECT_COUNT := (SEQUENCE_NUMBER_MAX_OBJECT_COUNT s)(q \<mapsto> ?n), FEE_RESERVE := Some new\<rparr>"
      show ?thesis
      proof (cases "SEQUENCE_NUMBER_MAX_OBJECT_COUNT s q")
        case None
        then show ?thesis using * assms(2) f by auto
      next
        case (Some m)
        then have "new = current" using *(4) by (simp add: word_unat_eq_iff)
        then show ?thesis using Some * assms(2) f by simp
      qed
    qed
  next
    case False
    then have "s' = s" and "\<exists>m. SEQUENCE_NUMBER_MAX_OBJECT_COUNT s q = Some m \<and> ?n \<le> m"
      using e fee_reserve_kept [OF False] by (auto simp: should_assert_iff)
    then show ?thesis using assms(2) f by auto
  qed
qed

theorem fee_charged_once_witness:
  "\<exists>s'. tx_fee demo_lib demo_prover demo_config 5 TypePayment = Inr (s', 330) \<and> FEE_RESERVE s' = Some 99670"
proof -
  have "case tx_fee demo_lib demo_prover demo_config 5 TypePayment of Inl _ \<Rightarrow> False | Inr (_, fee) \<Rightarrow> fee = 330"
    by code_simp
  then obtain s' where s': "tx_fee demo_lib demo_prover demo_config 5 TypePayment = Inr (s', 330)"
    by (auto split: sum.splits)
  have "FEE_RESERVE demo_prover = Some 100000" and "SEQUENCE_NUMBER_MAX_OBJECT_COUNT demo_prover 5 = None"
    by (simp_all add: demo_prover_def)
  then obtain left where "FEE_RESERVE s' = Some left" "unat left + 330 = 100000"
    using fee_charged_once [OF s'] by auto
  then have "FEE_RESERVE s' = Some 99670" by (simp add: word_unat_eq_iff)
  with s' show ?thesis by blast
qed



end
