(* ===== verification/Multisig_Contract.thy ===== *)
theory Multisig_Contract
  imports Axelar_Verifiers "HOL-Library.AList"
begin

text \<open>
  The multisig contract (\<open>contracts/multisig\<close>): keys and signatures, the verifier sets it knows, and
  signing sessions, which collect signatures of the participants of a set until their weight reaches the
  threshold. The primitives of \<open>cosmwasm_crypto\<close> and the signature verifier contract a session may name are
  fields of an environment. The lemmas show that a session is completed exactly when a quorum of
  participants has submitted signatures that verify, in every state the contract can reach.
\<close>

section \<open>Keys and signatures\<close>

datatype key_type = KeyEcdsa | KeyEd25519

datatype signature = SigEcdsa bytes | SigEcdsaRecoverable bytes | SigEd25519 bytes

datatype multisig_error =
    MsStd std_error
  | MsOverflow
  | NoActiveVerifierSetFound string
  | DuplicateSignature u64 addr
  | NotAParticipant u64 addr
  | SignatureVerificationFailed string
  | MsInvalidSignature u64 addr
  | InvalidPublicKeyRegistrationSignature
  | DuplicatePublicKey
  | InvalidMessageFormat
  | InvalidSignatureFormat key_type nat
  | SigningSessionClosed u64
  | SigningSessionNotFound u64
  | KeyTypeMismatch
  | SigningDisabled
  | WrongChainName chain_name
  | MsPermission permission_error
  | MsInvalidAddress string
  | MsPanic string

record multisig_env =
  secp256k1_verify :: "bytes \<Rightarrow> bytes \<Rightarrow> bytes \<Rightarrow> string + bool"
  ed25519_verify :: "bytes \<Rightarrow> bytes \<Rightarrow> bytes \<Rightarrow> string + bool"
  digest :: "bytes \<Rightarrow> bytes"
  call_verifier_contract :: "addr \<Rightarrow> bytes \<Rightarrow> bytes \<Rightarrow> bytes \<Rightarrow> addr \<Rightarrow> u64 \<Rightarrow> string + bool"
  validate_address :: "string \<Rightarrow> addr option"

primrec pub_key_type :: "public_key \<Rightarrow> key_type" where
  "pub_key_type (Ecdsa _) = KeyEcdsa"
| "pub_key_type (Ed25519 _) = KeyEd25519"

primrec signature_type :: "signature \<Rightarrow> key_type" where
  "signature_type (SigEcdsa _) = KeyEcdsa"
| "signature_type (SigEcdsaRecoverable _) = KeyEcdsa"
| "signature_type (SigEd25519 _) = KeyEd25519"

primrec signature_bytes :: "signature \<Rightarrow> bytes" where
  "signature_bytes (SigEcdsa b) = b"
| "signature_bytes (SigEcdsaRecoverable b) = b"
| "signature_bytes (SigEd25519 b) = b"

definition signature_try_from :: "key_type \<Rightarrow> bytes \<Rightarrow> multisig_error + signature" where
  "signature_try_from kt sig =
     (if kt = KeyEcdsa \<and> length sig = 65 then Inr (SigEcdsaRecoverable sig)
      else if kt = KeyEcdsa \<and> length sig = 64 then Inr (SigEcdsa sig)
      else if kt = KeyEd25519 \<and> length sig = 64 then Inr (SigEd25519 sig)
      else Inl (InvalidSignatureFormat kt (length sig)))"

definition signature_verify :: "multisig_env \<Rightarrow> signature \<Rightarrow> bytes \<Rightarrow> public_key \<Rightarrow> multisig_error + unit" where
  "signature_verify env sig msg pub_key =
     (if signature_type sig \<noteq> pub_key_type pub_key then Inl KeyTypeMismatch
      else
        rbind (map_err SignatureVerificationFailed
          (case signature_type sig of
             KeyEcdsa \<Rightarrow> secp256k1_verify env msg (signature_bytes sig) (key_bytes pub_key)
           | KeyEd25519 \<Rightarrow> ed25519_verify env msg (signature_bytes sig) (key_bytes pub_key))) (\<lambda>res.
        if res then Inr () else Inl (SignatureVerificationFailed ''unable to verify signature'')))"

section \<open>Sessions\<close>

datatype multisig_session_state = SessionPending | SessionCompleted u64

record signing_session =
  ss_id :: u64
  ss_verifier_set_id :: string
  ss_chain_name :: chain_name
  ss_msg :: bytes
  ss_state :: multisig_session_state
  ss_expires_at :: u64
  ss_sig_verifier :: "addr option"

definition signing_session_new ::
    "u64 \<Rightarrow> string \<Rightarrow> chain_name \<Rightarrow> bytes \<Rightarrow> u64 \<Rightarrow> addr option \<Rightarrow> signing_session" where
  "signing_session_new session_id verifier_set_id chain_name msg expires_at sig_verifier =
     \<lparr>ss_id = session_id, ss_verifier_set_id = verifier_set_id, ss_chain_name = chain_name, ss_msg = msg,
      ss_state = SessionPending, ss_expires_at = expires_at, ss_sig_verifier = sig_verifier\<rparr>"

definition msg_to_sign_try_from :: "bytes \<Rightarrow> multisig_error + bytes" where
  "msg_to_sign_try_from b = (if length b \<noteq> 32 then Inl InvalidMessageFormat else Inr b)"

definition signers_weight :: "(string \<times> signature) list \<Rightarrow> ms_verifier_set \<Rightarrow> multisig_error + u128" where
  "signers_weight signatures verifier_set =
     try_fold (\<lambda>acc (addr, _).
       rbind (ok_or (MsPanic ''violated invariant: signature submitted by non-participant'')
                (map_of (mvs_signers verifier_set) addr)) (\<lambda>signer.
       ok_or (MsPanic ''attempt to add with overflow'') (checked_add acc (ms_weight signer)))) 0 signatures"

definition recalculate_session_state ::
    "signing_session \<Rightarrow> (string \<times> signature) list \<Rightarrow> ms_verifier_set \<Rightarrow> u64 \<Rightarrow> multisig_error + signing_session" where
  "recalculate_session_state session signatures verifier_set block_height =
     rbind (signers_weight signatures verifier_set) (\<lambda>weight.
     Inr (if ss_state session = SessionPending \<and> weight \<ge> mvs_threshold verifier_set
          then session\<lparr>ss_state := SessionCompleted block_height\<rparr> else session))"

definition call_sig_verifier ::
    "multisig_env \<Rightarrow> addr \<Rightarrow> bytes \<Rightarrow> bytes \<Rightarrow> bytes \<Rightarrow> addr \<Rightarrow> u64 \<Rightarrow> multisig_error + unit" where
  "call_sig_verifier env sig_verifier signature message pub_key signer session_id =
     rbind (map_err SignatureVerificationFailed
              (call_verifier_contract env sig_verifier signature message pub_key signer session_id)) (\<lambda>res.
     if \<not> res then Inl (SignatureVerificationFailed ''unable to verify signature'') else Inr ())"

definition validate_session_signature ::
    "multisig_env \<Rightarrow> signing_session \<Rightarrow> addr \<Rightarrow> signature \<Rightarrow> public_key \<Rightarrow> u64 \<Rightarrow> multisig_error + unit" where
  "validate_session_signature env session signer signature pub_key block_height =
     (if ss_expires_at session < block_height then Inl (SigningSessionClosed (ss_id session))
      else
        map_err (\<lambda>_. MsInvalidSignature (ss_id session) signer)
          (case ss_sig_verifier session of
             None \<Rightarrow> signature_verify env signature (ss_msg session) pub_key
           | Some sig_verifier \<Rightarrow>
               call_sig_verifier env sig_verifier (signature_bytes signature) (ss_msg session)
                 (key_bytes pub_key) signer (ss_id session)))"

section \<open>Storage\<close>

record multisig_config =
  mc_rewards_contract :: addr
  mc_block_expiry :: u64

record multisig_contract =
  ms_config :: "multisig_config option"
  SIGNING_SESSION_COUNTER :: "u64 option"
  SIGNING_SESSIONS :: "u64 \<rightharpoonup> signing_session"
  AUTHORIZED_CALLERS :: "addr \<rightharpoonup> chain_name"
  VERIFIER_SETS :: "string \<rightharpoonup> ms_verifier_set"
  SIGNATURES :: "(u64 \<times> string, signature) btree_map"
  pub_keys :: "((addr \<times> key_type) \<times> bytes) list"
  ms_permissions :: permission_state
  ms_killswitch :: killswitch

datatype multisig_event =
    SigningStarted u64 string "(string \<times> public_key) list" bytes chain_name u64
  | SignatureSubmitted u64 addr signature
  | SigningCompleted u64 u64 chain_name
  | PublicKeyRegistered addr public_key
  | CallerAuthorized addr chain_name
  | CallerUnauthorized addr chain_name
  | EvSigningEnabled
  | EvSigningDisabled

datatype multisig_out = RecordParticipation addr chain_name string addr

record multisig_response =
  mr_data :: "u64 option"
  mr_messages :: "multisig_out list"
  mr_events :: "multisig_event list"

abbreviation ms_response :: "multisig_event list \<Rightarrow> multisig_response" where
  "ms_response evs \<equiv> \<lparr>mr_data = None, mr_messages = [], mr_events = evs\<rparr>"

type_synonym multisig_result = "multisig_error + multisig_contract \<times> multisig_response"

abbreviation ms_load :: "'a option \<Rightarrow> multisig_error + 'a" where
  "ms_load item \<equiv> map_err MsStd (item_load item)"

definition load_session_signatures :: "multisig_contract \<Rightarrow> u64 \<Rightarrow> (string \<times> signature) list" where
  "load_session_signatures s session_id =
     map (\<lambda>((_, addr), sig). (addr, sig)) (filter (\<lambda>((i, _), _). i = session_id) (SIGNATURES s))"

definition save_signature ::
    "multisig_contract \<Rightarrow> u64 \<Rightarrow> signature \<Rightarrow> addr \<Rightarrow> multisig_error + multisig_contract \<times> signature" where
  "save_signature s session_id signature signer =
     (case map_of (SIGNATURES s) (session_id, signer) of
        Some _ \<Rightarrow> Inl (DuplicateSignature session_id signer)
      | None \<Rightarrow> Inr (s\<lparr>SIGNATURES := bt_insert (session_id, signer) signature (SIGNATURES s)\<rparr>, signature))"

definition ms_verifier_set_load :: "multisig_contract \<Rightarrow> string \<Rightarrow> multisig_error + ms_verifier_set" where
  "ms_verifier_set_load s verifier_set_id =
     ok_or (NoActiveVerifierSetFound verifier_set_id) (VERIFIER_SETS s verifier_set_id)"

definition save_pub_key :: "multisig_contract \<Rightarrow> addr \<Rightarrow> public_key \<Rightarrow> multisig_error + multisig_contract" where
  "save_pub_key s signer pub_key =
     (if key_bytes pub_key \<in> snd ` set (pub_keys s) then Inl DuplicatePublicKey
      else Inr (s\<lparr>pub_keys := AList.update (signer, pub_key_type pub_key) (key_bytes pub_key) (pub_keys s)\<rparr>))"

section \<open>Messages\<close>

datatype multisig_msg =
    StartSigningSession string bytes chain_name "string option"
  | SubmitSignature u64 bytes
  | RegisterVerifierSet ms_verifier_set
  | RegisterPublicKey public_key bytes
  | AuthorizeCallers "(string \<times> chain_name) list"
  | UnauthorizeCallers "(string \<times> chain_name) list"
  | DisableSigning
  | EnableSigning

definition ms_start_signing_session ::
    "multisig_contract \<Rightarrow> u64 \<Rightarrow> string \<Rightarrow> bytes \<Rightarrow> chain_name \<Rightarrow> addr option \<Rightarrow> multisig_result" where
  "ms_start_signing_session s height verifier_set_id msg chain_name sig_verifier =
     (if \<not> is_contract_active (ms_killswitch s) then Inl SigningDisabled
      else
        rbind (ms_load (ms_config s)) (\<lambda>config.
        rbind (ms_verifier_set_load s verifier_set_id) (\<lambda>verifier_set.
        rbind (item_update MsStd (\<lambda>counter. ok_or MsOverflow (checked_add counter 1))
                 (SIGNING_SESSION_COUNTER s)) (\<lambda>session_id.
        let s = s\<lparr>SIGNING_SESSION_COUNTER := Some session_id\<rparr> in
        rbind (ok_or MsOverflow (checked_add height (mc_block_expiry config))) (\<lambda>expires_at.
        let signing_session = signing_session_new session_id verifier_set_id chain_name msg expires_at sig_verifier;
            s = s\<lparr>SIGNING_SESSIONS := (SIGNING_SESSIONS s)(session_id \<mapsto> signing_session)\<rparr>
        in Inr (s, \<lparr>mr_data = Some session_id, mr_messages = [],
                    mr_events = [SigningStarted session_id verifier_set_id
                      (map (\<lambda>(a, sg). (a, ms_pub_key sg)) (mvs_signers verifier_set)) msg chain_name expires_at]\<rparr>))))))"

definition signing_response ::
    "signing_session \<Rightarrow> bool \<Rightarrow> addr \<Rightarrow> signature \<Rightarrow> addr \<Rightarrow> multisig_response" where
  "signing_response session state_changed signer signature rewards_contract =
     \<lparr>mr_data = None,
      mr_messages = [RecordParticipation rewards_contract (ss_chain_name session) (show_nat (unat (ss_id session))) signer],
      mr_events =
        SignatureSubmitted (ss_id session) signer signature #
        (case ss_state session of
           SessionCompleted completed_at \<Rightarrow>
             if state_changed then [SigningCompleted (ss_id session) completed_at (ss_chain_name session)] else []
         | SessionPending \<Rightarrow> [])\<rparr>"

definition submit_signature ::
    "multisig_env \<Rightarrow> multisig_contract \<Rightarrow> u64 \<Rightarrow> addr \<Rightarrow> u64 \<Rightarrow> bytes \<Rightarrow> multisig_result" where
  "submit_signature env s height sender session_id signature =
     (if \<not> is_contract_active (ms_killswitch s) then Inl SigningDisabled
      else
        rbind (ms_load (ms_config s)) (\<lambda>config.
        rbind (ok_or (SigningSessionNotFound session_id) (SIGNING_SESSIONS s session_id)) (\<lambda>session.
        rbind (ms_load (VERIFIER_SETS s (ss_verifier_set_id session))) (\<lambda>verifier_set.
        rbind (ok_or (NotAParticipant session_id sender) (map_of (mvs_signers verifier_set) sender)) (\<lambda>signer.
        let pub_key = ms_pub_key signer in
        rbind (signature_try_from (pub_key_type pub_key) signature) (\<lambda>signature.
        rbind (validate_session_signature env session sender signature pub_key height) (\<lambda>_.
        rbind (save_signature s session_id signature sender) (\<lambda>(s, signature).
        let signatures = load_session_signatures s session_id;
            old_state = ss_state session in
        rbind (recalculate_session_state session signatures verifier_set height) (\<lambda>session.
        let s = s\<lparr>SIGNING_SESSIONS := (SIGNING_SESSIONS s)(ss_id session \<mapsto> session)\<rparr>;
            state_changed = (old_state \<noteq> ss_state session)
        in Inr (s, signing_response session state_changed sender signature (mc_rewards_contract config)))))))))))"

definition register_verifier_set :: "multisig_env \<Rightarrow> multisig_contract \<Rightarrow> ms_verifier_set \<Rightarrow> multisig_result" where
  "register_verifier_set env s verifier_set =
     (let verifier_set_id = ms_verifier_set_id (digest env) verifier_set
      in Inr (s\<lparr>VERIFIER_SETS := (VERIFIER_SETS s)(verifier_set_id \<mapsto> verifier_set)\<rparr>, ms_response []))"

definition register_pub_key ::
    "multisig_env \<Rightarrow> multisig_contract \<Rightarrow> addr \<Rightarrow> public_key \<Rightarrow> bytes \<Rightarrow> multisig_result" where
  "register_pub_key env s sender public_key signed_sender_address =
     rbind (signature_try_from (pub_key_type public_key) signed_sender_address) (\<lambda>signed_sender_address.
     let address_hash = digest env (string_bytes sender) in
     rbind (map_err (\<lambda>_. InvalidPublicKeyRegistrationSignature)
              (signature_verify env signed_sender_address address_hash public_key)) (\<lambda>_.
     rbind (save_pub_key s sender public_key) (\<lambda>s.
     Inr (s, ms_response [PublicKeyRegistered sender public_key]))))"

definition require_authorized_caller ::
    "multisig_contract \<Rightarrow> addr \<Rightarrow> chain_name \<Rightarrow> multisig_error + addr" where
  "require_authorized_caller s contract_address chain_name =
     rbind (ms_load (AUTHORIZED_CALLERS s contract_address)) (\<lambda>expected_chain_name.
     if expected_chain_name \<noteq> chain_name then Inl (WrongChainName expected_chain_name) else Inr contract_address)"

definition authorize_callers :: "multisig_contract \<Rightarrow> (addr \<times> chain_name) list \<Rightarrow> multisig_result" where
  "authorize_callers s contracts =
     Inr (s\<lparr>AUTHORIZED_CALLERS := foldl (\<lambda>m (a, c). m(a \<mapsto> c)) (AUTHORIZED_CALLERS s) contracts\<rparr>,
          ms_response (map (\<lambda>(a, c). CallerAuthorized a c) contracts))"

definition unauthorize_callers :: "multisig_contract \<Rightarrow> (addr \<times> chain_name) list \<Rightarrow> multisig_result" where
  "unauthorize_callers s contracts =
     Inr (s\<lparr>AUTHORIZED_CALLERS := foldl (\<lambda>m (a, _). m(a := None)) (AUTHORIZED_CALLERS s) contracts\<rparr>,
          ms_response (map (\<lambda>(a, c). CallerUnauthorized a c) contracts))"

definition enable_signing :: "multisig_contract \<Rightarrow> multisig_result" where
  "enable_signing s =
     rbind (map_err MsStd (disengage EvSigningEnabled (ms_killswitch s))) (\<lambda>(k, evs).
     Inr (s\<lparr>ms_killswitch := k\<rparr>, ms_response evs))"

definition disable_signing :: "multisig_contract \<Rightarrow> multisig_result" where
  "disable_signing s =
     rbind (map_err MsStd (engage EvSigningDisabled (ms_killswitch s))) (\<lambda>(k, evs).
     Inr (s\<lparr>ms_killswitch := k\<rparr>, ms_response evs))"

definition ms_validate :: "multisig_env \<Rightarrow> string \<Rightarrow> multisig_error + addr" where
  "ms_validate env a = ok_or (MsInvalidAddress a) (validate_address env a)"

definition validate_contract_addresses ::
    "multisig_env \<Rightarrow> (string \<times> chain_name) list \<Rightarrow> multisig_error + (addr \<times> chain_name) list" where
  "validate_contract_addresses env contracts =
     try_map (\<lambda>(a, c). rbind (ms_validate env a) (\<lambda>a. Inr (a, c))) contracts"

definition multisig_permissions :: "multisig_contract \<Rightarrow> addr \<Rightarrow> multisig_msg \<Rightarrow> permission_error + unit" where
  "multisig_permissions s sender msg =
     (case msg of
        StartSigningSession _ _ chain_name _ \<Rightarrow>
          ensure_permissions (ms_permissions s) sender [require_authorized_caller s sender chain_name] []
      | AuthorizeCallers _ \<Rightarrow> ensure_permissions (ms_permissions s) sender ([] :: (unit + addr) list) [Governance]
      | UnauthorizeCallers _ \<Rightarrow> ensure_permissions (ms_permissions s) sender ([] :: (unit + addr) list) [Elevated]
      | DisableSigning \<Rightarrow> ensure_permissions (ms_permissions s) sender ([] :: (unit + addr) list) [Elevated]
      | EnableSigning \<Rightarrow> ensure_permissions (ms_permissions s) sender ([] :: (unit + addr) list) [Elevated]
      | _ \<Rightarrow> ensure_permissions (ms_permissions s) sender ([] :: (unit + addr) list) [AnyPermission])"

definition multisig_execute ::
    "multisig_env \<Rightarrow> u64 \<Rightarrow> addr \<Rightarrow> multisig_msg \<Rightarrow> multisig_contract \<Rightarrow> multisig_result" where
  "multisig_execute env height sender msg s =
     rbind (map_err MsPermission (multisig_permissions s sender msg)) (\<lambda>_.
     case msg of
       StartSigningSession verifier_set_id m chain_name sig_verifier \<Rightarrow>
         rbind (case sig_verifier of None \<Rightarrow> Inr None
                | Some a \<Rightarrow> rbind (ms_validate env a) (\<lambda>a. Inr (Some a))) (\<lambda>sig_verifier.
         rbind (msg_to_sign_try_from m) (\<lambda>m.
         ms_start_signing_session s height verifier_set_id m chain_name sig_verifier))
     | SubmitSignature session_id signature \<Rightarrow> submit_signature env s height sender session_id signature
     | RegisterVerifierSet verifier_set \<Rightarrow> register_verifier_set env s verifier_set
     | RegisterPublicKey public_key signed_sender_address \<Rightarrow>
         register_pub_key env s sender public_key signed_sender_address
     | AuthorizeCallers contracts \<Rightarrow>
         rbind (validate_contract_addresses env contracts) (\<lambda>contracts. authorize_callers s contracts)
     | UnauthorizeCallers contracts \<Rightarrow>
         rbind (validate_contract_addresses env contracts) (\<lambda>contracts. unauthorize_callers s contracts)
     | DisableSigning \<Rightarrow> disable_signing s
     | EnableSigning \<Rightarrow> enable_signing s)"

definition multisig_instantiate ::
    "multisig_env \<Rightarrow> string \<Rightarrow> string \<Rightarrow> string \<Rightarrow> u64 \<Rightarrow> multisig_error + multisig_contract" where
  "multisig_instantiate env admin_address governance_address rewards_address block_expiry =
     rbind (ms_validate env admin_address) (\<lambda>admin_addr.
     rbind (ms_validate env governance_address) (\<lambda>governance_addr.
     rbind (ms_validate env rewards_address) (\<lambda>rewards.
     Inr \<lparr>ms_config = Some \<lparr>mc_rewards_contract = rewards, mc_block_expiry = block_expiry\<rparr>,
          SIGNING_SESSION_COUNTER = Some 0, SIGNING_SESSIONS = Map.empty, AUTHORIZED_CALLERS = Map.empty,
          VERIFIER_SETS = Map.empty, SIGNATURES = [], pub_keys = [],
          ms_permissions = set_governance governance_addr (set_admin admin_addr \<lparr>admin = None, governance = None\<rparr>),
          ms_killswitch = killswitch_init Disengaged\<rparr>)))"

section \<open>Queries\<close>

record multisig =
  mq_state :: multisig_session_state
  mq_verifier_set :: ms_verifier_set
  mq_signatures :: "(string \<times> signature) list"

definition query_multisig :: "multisig_contract \<Rightarrow> u64 \<Rightarrow> std_error + multisig" where
  "query_multisig s session_id =
     rbind (item_load (SIGNING_SESSIONS s session_id)) (\<lambda>session.
     rbind (item_load (VERIFIER_SETS s (ss_verifier_set_id session))) (\<lambda>verifier_set.
     let signatures = load_session_signatures s (ss_id session)
     in Inr \<lparr>mq_state = ss_state session, mq_verifier_set = verifier_set, mq_signatures = signatures\<rparr>))"

definition query_verifier_set :: "multisig_contract \<Rightarrow> string \<Rightarrow> std_error + ms_verifier_set" where
  "query_verifier_set s verifier_set_id = item_load (VERIFIER_SETS s verifier_set_id)"

definition query_caller_authorized :: "multisig_contract \<Rightarrow> addr \<Rightarrow> chain_name \<Rightarrow> bool" where
  "query_caller_authorized s address chain_name \<longleftrightarrow> AUTHORIZED_CALLERS s address = Some chain_name"

text \<open>
  \<open>Multisig::optimize_signatures\<close>: the signers by descending weight (a stable sort of the hash map's
  entries), taken while the weight before them is below the threshold.
\<close>

fun scan_quorum :: "u128 \<Rightarrow> u128 \<Rightarrow> (ms_signer \<times> signature) list \<Rightarrow> (ms_signer \<times> signature) list" where
  "scan_quorum threshold acc [] = []"
| "scan_quorum threshold acc (x # xs) =
     (if acc < threshold then x # scan_quorum threshold (saturating_add acc (ms_weight (fst x))) xs else [])"

definition optimize_signatures :: "multisig \<Rightarrow> multisig_error + (ms_signer \<times> signature) list" where
  "optimize_signatures m =
     rbind (try_map (\<lambda>(addr, sig).
       rbind (ok_or (MsPanic ''signer not found in verifier set'') (map_of (mvs_signers (mq_verifier_set m)) addr))
         (\<lambda>signer. Inr (signer, sig))) (mq_signatures m)) (\<lambda>signers.
     Inr (scan_quorum (mvs_threshold (mq_verifier_set m)) 0
            (sort_key (\<lambda>x. 2 ^ 128 - unat (ms_weight (fst x))) signers)))"

section \<open>Signatures of a session\<close>

lemma mset_bt_insert_new: "map_of m k = None \<Longrightarrow> mset (bt_insert k v m) = add_mset (k, v) (mset m)"
  by (induction k v m rule: bt_insert.induct) (auto split: if_splits)

lemma filter_bt_insert_other:
  "map_of m k = None \<Longrightarrow> \<not> P (k, v) \<Longrightarrow> filter P (bt_insert k v m) = filter P m"
  by (induction k v m rule: bt_insert.induct) (auto split: if_splits)

definition signed_weight :: "ms_verifier_set \<Rightarrow> (string \<times> signature) list \<Rightarrow> nat" where
  "signed_weight vs sigs =
     sum_list (map (\<lambda>(a, _). case map_of (mvs_signers vs) a of None \<Rightarrow> 0 | Some sg \<Rightarrow> unat (ms_weight sg)) sigs)"

lemma signed_weight_mset: "mset sigs = mset sigs' \<Longrightarrow> signed_weight vs sigs = signed_weight vs sigs'"
  unfolding signed_weight_def sum_mset_sum_list [symmetric] mset_map by simp

lemma signers_weight_Inr:
  assumes "signers_weight sigs vs = Inr w"
  shows "unat w = signed_weight vs sigs"
proof -
  have "unat w = unat acc + signed_weight vs sigs"
    if "try_fold (\<lambda>acc (addr, _).
       rbind (ok_or (MsPanic ''violated invariant: signature submitted by non-participant'')
                (map_of (mvs_signers vs) addr)) (\<lambda>signer.
       ok_or (MsPanic ''attempt to add with overflow'') (checked_add acc (ms_weight signer)))) acc sigs = Inr w" for acc
    using that
  proof (induction sigs arbitrary: acc)
    case (Cons x xs)
    then show ?case
      by (cases x) (auto simp: result_simps checked_add_Some signed_weight_def)
  qed (simp add: signed_weight_def)
  from this [of 0] show ?thesis using assms by (simp add: signers_weight_def)
qed

definition signature_valid :: "multisig_env \<Rightarrow> signing_session \<Rightarrow> ms_verifier_set \<Rightarrow> addr \<Rightarrow> signature \<Rightarrow> bool" where
  "signature_valid env ses vs a sig \<longleftrightarrow>
     (case map_of (mvs_signers vs) a of
        None \<Rightarrow> False
      | Some sg \<Rightarrow>
          (case ss_sig_verifier ses of
             None \<Rightarrow> signature_verify env sig (ss_msg ses) (ms_pub_key sg) = Inr ()
           | Some c \<Rightarrow>
               call_verifier_contract env c (signature_bytes sig) (ss_msg ses) (key_bytes (ms_pub_key sg)) a (ss_id ses)
               = Inr True))"

lemma validate_session_signature_valid:
  assumes "validate_session_signature env ses a sig (ms_pub_key sg) h = Inr u" "map_of (mvs_signers vs) a = Some sg"
  shows "signature_valid env ses vs a sig" and "\<not> ss_expires_at ses < h"
  using assms
  by (auto simp: validate_session_signature_def signature_valid_def call_sig_verifier_def result_simps
      split: option.splits if_splits)

definition session_ok ::
    "multisig_env \<Rightarrow> signing_session \<Rightarrow> ms_verifier_set \<Rightarrow> (string \<times> signature) list \<Rightarrow> bool" where
  "session_ok env ses vs sigs \<longleftrightarrow>
     (\<forall>(a, sig) \<in> set sigs. signature_valid env ses vs a sig) \<and>
     (case ss_state ses of
        SessionCompleted _ \<Rightarrow> unat (mvs_threshold vs) \<le> signed_weight vs sigs
      | SessionPending \<Rightarrow> sigs = [] \<or> signed_weight vs sigs < unat (mvs_threshold vs))"

lemma session_ok_recalculate:
  assumes "session_ok env ses vs old" "mset sigs = add_mset (a, sig) (mset old)"
    and "signature_valid env ses vs a sig" "recalculate_session_state ses sigs vs h = Inr ses'"
  shows "session_ok env ses' vs sigs" and "ss_id ses' = ss_id ses"
    and "ss_verifier_set_id ses' = ss_verifier_set_id ses"
proof -
  from assms(4) obtain w where w: "unat w = signed_weight vs sigs"
    and ses': "ses' = (if ss_state ses = SessionPending \<and> w \<ge> mvs_threshold vs
        then ses\<lparr>ss_state := SessionCompleted h\<rparr> else ses)"
    by (auto simp: recalculate_session_state_def result_simps dest: signers_weight_Inr)
  have le: "signed_weight vs old \<le> signed_weight vs sigs"
    using signed_weight_mset [of sigs "(a, sig) # old" vs] assms(2) by (simp add: signed_weight_def)
  have set: "set sigs = insert (a, sig) (set old)"
    using assms(2) by (metis set_mset_add_mset_insert set_mset_mset)
  have valid: "signature_valid env ses' vs = signature_valid env ses vs"
    unfolding ses' by (auto simp: signature_valid_def fun_eq_iff split: option.splits)
  show "session_ok env ses' vs sigs"
    using assms(1,3) le w unfolding session_ok_def set valid
    by (auto simp: ses' word_le_nat_alt not_le split: multisig_session_state.splits)
  show "ss_id ses' = ss_id ses" "ss_verifier_set_id ses' = ss_verifier_set_id ses"
    by (simp_all add: ses')
qed

section \<open>The invariant\<close>

definition multisig_inv :: "multisig_env \<Rightarrow> ms_verifier_set set \<Rightarrow> multisig_contract \<Rightarrow> bool" where
  "multisig_inv env V s \<longleftrightarrow>
     bt_wf (SIGNATURES s) \<and>
     (\<forall>id vs. VERIFIER_SETS s id = Some vs \<longrightarrow> vs \<in> V \<and> id = ms_verifier_set_id (digest env) vs) \<and>
     (\<forall>i ses. SIGNING_SESSIONS s i = Some ses \<longrightarrow> ss_id ses = i \<and>
        (\<exists>vs. VERIFIER_SETS s (ss_verifier_set_id ses) = Some vs \<and>
              session_ok env ses vs (load_session_signatures s i))) \<and>
     (\<forall>k \<in> fst ` set (SIGNATURES s). SIGNING_SESSIONS s (fst k) \<noteq> None) \<and>
     (\<exists>c. SIGNING_SESSION_COUNTER s = Some c \<and> (\<forall>i. SIGNING_SESSIONS s i \<noteq> None \<longrightarrow> i \<le> c))"

lemma multisig_inv_session:
  assumes "multisig_inv env V s" "SIGNING_SESSIONS s i = Some ses" "VERIFIER_SETS s (ss_verifier_set_id ses) = Some vs"
  shows "ss_id ses = i" and "session_ok env ses vs (load_session_signatures s i)"
proof -
  from assms(1,2) have "ss_id ses = i \<and> (\<exists>vs. VERIFIER_SETS s (ss_verifier_set_id ses) = Some vs \<and>
      session_ok env ses vs (load_session_signatures s i))"
    unfolding multisig_inv_def by blast
  then show "ss_id ses = i" "session_ok env ses vs (load_session_signatures s i)"
    using assms(3) by auto
qed

text \<open>The handlers that touch none of the parts the invariant speaks of.\<close>

lemma multisig_inv_cong:
  assumes "SIGNATURES s' = SIGNATURES s" "VERIFIER_SETS s' = VERIFIER_SETS s"
    and "SIGNING_SESSIONS s' = SIGNING_SESSIONS s" "SIGNING_SESSION_COUNTER s' = SIGNING_SESSION_COUNTER s"
    and "multisig_inv env V s"
  shows "multisig_inv env V s'"
  using assms(5) unfolding multisig_inv_def load_session_signatures_def assms(1-4) .

lemma load_session_signatures_empty:
  assumes "multisig_inv env V s" "SIGNING_SESSIONS s i = None"
  shows "load_session_signatures s i = []"
proof -
  have "filter (\<lambda>((j, _), _). j = i) (SIGNATURES s) = []"
    unfolding filter_empty_conv using assms by (fastforce simp: multisig_inv_def)
  then show ?thesis by (simp add: load_session_signatures_def)
qed

lemma ms_start_effect:
  assumes "ms_start_signing_session s h vid msg chain ver = Inr (s', out)"
  obtains vs i c exp where "VERIFIER_SETS s vid = Some vs" "SIGNING_SESSION_COUNTER s = Some c" "unat i = unat c + 1"
    "s' = s\<lparr>SIGNING_SESSION_COUNTER := Some i, SIGNING_SESSIONS := (SIGNING_SESSIONS s)
        (i \<mapsto> signing_session_new i vid chain msg exp ver)\<rparr>"
  using assms by (auto simp: ms_start_signing_session_def result_simps Let_def ms_verifier_set_load_def
        item_update_def item_load_def checked_add_Some)

lemma submit_signature_effect:
  assumes "submit_signature env s h sender i sig = Inr (s', out)"
  obtains ses vs sg sg' ses' where "SIGNING_SESSIONS s i = Some ses"
    "VERIFIER_SETS s (ss_verifier_set_id ses) = Some vs" "map_of (mvs_signers vs) sender = Some sg"
    "validate_session_signature env ses sender sg' (ms_pub_key sg) h = Inr ()"
    "map_of (SIGNATURES s) (i, sender) = None"
    "recalculate_session_state ses (load_session_signatures
       (s\<lparr>SIGNATURES := bt_insert (i, sender) sg' (SIGNATURES s)\<rparr>) i) vs h = Inr ses'"
    "s' = s\<lparr>SIGNATURES := bt_insert (i, sender) sg' (SIGNATURES s),
        SIGNING_SESSIONS := (SIGNING_SESSIONS s)(ss_id ses' \<mapsto> ses')\<rparr>"
  using assms by (auto simp: submit_signature_def result_simps Let_def save_signature_def item_load_def
        split: option.splits)

lemma multisig_inv_start:
  assumes "multisig_inv env V s" "ms_start_signing_session s h vid msg chain ver = Inr (s', out)"
  shows "multisig_inv env V s'"
proof -
  from assms(2) obtain vs i c exp where vs: "VERIFIER_SETS s vid = Some vs"
      and i: "SIGNING_SESSION_COUNTER s = Some c" "unat i = unat c + 1"
      and s': "s' = s\<lparr>SIGNING_SESSION_COUNTER := Some i, SIGNING_SESSIONS := (SIGNING_SESSIONS s)
        (i \<mapsto> signing_session_new i vid chain msg exp ver)\<rparr>"
    by (rule ms_start_effect)
  have old: "SIGNING_SESSIONS s j \<noteq> None \<Longrightarrow> j \<le> c" for j
    using assms(1) i(1) by (auto simp: multisig_inv_def)
  have new: "SIGNING_SESSIONS s i = None"
    using old [of i] i(2) by (cases "SIGNING_SESSIONS s i") (auto simp: word_le_nat_alt)
  have le: "SIGNING_SESSIONS s j \<noteq> None \<Longrightarrow> j \<le> i" for j
    using old [of j] i(2) by (simp add: word_le_nat_alt)
  have load: "load_session_signatures s' j = load_session_signatures s j" for j
    by (simp add: s' load_session_signatures_def)
  have "session_ok env (signing_session_new i vid chain msg exp ver) vs (load_session_signatures s' i)"
    using load_session_signatures_empty [OF assms(1) new] unfolding load
    by (simp add: session_ok_def signing_session_new_def)
  moreover have "ss_id (signing_session_new i vid chain msg exp ver) = i"
    "ss_verifier_set_id (signing_session_new i vid chain msg exp ver) = vid"
    by (simp_all add: signing_session_new_def)
  ultimately show ?thesis
    using assms(1) vs le load unfolding multisig_inv_def by (auto simp: s')
qed

lemma multisig_inv_submit:
  assumes inv: "multisig_inv env V s" and "submit_signature env s h sender i sig = Inr (s', out)"
  shows "multisig_inv env V s'"
proof -
  from assms(2) obtain ses vs sg sg' ses' where ses: "SIGNING_SESSIONS s i = Some ses"
      and vs: "VERIFIER_SETS s (ss_verifier_set_id ses) = Some vs" and sg: "map_of (mvs_signers vs) sender = Some sg"
      and val: "validate_session_signature env ses sender sg' (ms_pub_key sg) h = Inr ()"
      and new: "map_of (SIGNATURES s) (i, sender) = None"
      and re: "recalculate_session_state ses (load_session_signatures
          (s\<lparr>SIGNATURES := bt_insert (i, sender) sg' (SIGNATURES s)\<rparr>) i) vs h = Inr ses'"
      and s': "s' = s\<lparr>SIGNATURES := bt_insert (i, sender) sg' (SIGNATURES s),
        SIGNING_SESSIONS := (SIGNING_SESSIONS s)(ss_id ses' \<mapsto> ses')\<rparr>"
    by (rule submit_signature_effect)
  let ?u = "s\<lparr>SIGNATURES := bt_insert (i, sender) sg' (SIGNATURES s)\<rparr>"
  note id = multisig_inv_session(1) [OF inv ses vs] and ok = multisig_inv_session(2) [OF inv ses vs]
  have "mset (load_session_signatures ?u i) = add_mset (sender, sg') (mset (load_session_signatures s i))"
    by (simp add: load_session_signatures_def mset_bt_insert_new [OF new] mset_filter [symmetric] mset_map [symmetric]
        del: mset_filter mset_map) (simp add: mset_bt_insert_new [OF new])
  note re' = session_ok_recalculate [OF ok this validate_session_signature_valid(1) [OF val sg] re]
  have load: "load_session_signatures s' j = (if j = i then load_session_signatures ?u i else load_session_signatures s j)" for j
    by (simp add: load_session_signatures_def s' filter_bt_insert_other [OF new])
  have keys: "fst ` set (bt_insert (i, sender) sg' (SIGNATURES s)) = insert (i, sender) (fst ` set (SIGNATURES s))"
    using mset_bt_insert_new [OF new, of sg'] by (metis image_insert set_mset_add_mset_insert set_mset_mset fst_conv)
  have eqs: "VERIFIER_SETS s' = VERIFIER_SETS s" "SIGNING_SESSION_COUNTER s' = SIGNING_SESSION_COUNTER s"
    "SIGNING_SESSIONS s' = (SIGNING_SESSIONS s)(i \<mapsto> ses')" "SIGNATURES s' = bt_insert (i, sender) sg' (SIGNATURES s)"
    by (simp_all add: s' re'(2) id)
  have "ss_id z = j \<and> (\<exists>vs. VERIFIER_SETS s' (ss_verifier_set_id z) = Some vs \<and>
      session_ok env z vs (load_session_signatures s' j))" if z: "SIGNING_SESSIONS s' j = Some z" for j z
  proof (cases "j = i")
    case True
    then show ?thesis using z re' id vs load [of i] by (simp add: eqs)
  next
    case False
    then have "SIGNING_SESSIONS s j = Some z" using z by (simp add: eqs)
    then show ?thesis using False inv load [of j] unfolding multisig_inv_def eqs(1) by simp
  qed
  moreover have "bt_wf (SIGNATURES s')"
    using inv by (simp add: s' multisig_inv_def bt_wf_insert)
  moreover have "\<exists>c. SIGNING_SESSION_COUNTER s' = Some c \<and> (\<forall>j. SIGNING_SESSIONS s' j \<noteq> None \<longrightarrow> j \<le> c)"
    using inv ses unfolding multisig_inv_def eqs by (metis fun_upd_apply option.distinct(1))
  moreover have "\<forall>k \<in> fst ` set (SIGNATURES s'). SIGNING_SESSIONS s' (fst k) \<noteq> None"
    using inv unfolding multisig_inv_def eqs keys by simp
  ultimately show ?thesis
    using inv unfolding multisig_inv_def eqs(1) by blast
qed

lemma multisig_inv_register:
  assumes "multisig_inv env V s" "inj_on (ms_verifier_set_id (digest env)) V" "vs \<in> V"
    and "register_verifier_set env s vs = Inr (s', out)"
  shows "multisig_inv env V s'"
proof -
  let ?id = "ms_verifier_set_id (digest env) vs"
  have s': "s' = s\<lparr>VERIFIER_SETS := (VERIFIER_SETS s)(?id \<mapsto> vs)\<rparr>"
    using assms(4) by (simp add: register_verifier_set_def Let_def)
  have sets: "\<forall>id vs. VERIFIER_SETS s id = Some vs \<longrightarrow> vs \<in> V \<and> id = ms_verifier_set_id (digest env) vs"
    using assms(1) unfolding multisig_inv_def by blast
  have "v = vs" if "VERIFIER_SETS s ?id = Some v" for v
  proof -
    have v: "?id = ms_verifier_set_id (digest env) v" "v \<in> V" using sets that by auto
    show ?thesis by (rule inj_onD [OF assms(2) v(1) assms(3) v(2), symmetric])
  qed
  then have kept: "VERIFIER_SETS s id = Some v \<Longrightarrow> VERIFIER_SETS s' id = Some v" for id v
    by (auto simp: s')
  have load: "load_session_signatures s' j = load_session_signatures s j" for j
    by (simp add: s' load_session_signatures_def)
  show ?thesis
    unfolding multisig_inv_def load
  proof (intro conjI)
    show "\<forall>id v. VERIFIER_SETS s' id = Some v \<longrightarrow> v \<in> V \<and> id = ms_verifier_set_id (digest env) v"
      using sets assms(3) by (auto simp: s' split: if_splits)
    show "\<forall>i ses. SIGNING_SESSIONS s' i = Some ses \<longrightarrow> ss_id ses = i \<and>
        (\<exists>v. VERIFIER_SETS s' (ss_verifier_set_id ses) = Some v \<and> session_ok env ses v (load_session_signatures s i))"
    proof (intro allI impI)
      fix i ses assume "SIGNING_SESSIONS s' i = Some ses"
      then have "SIGNING_SESSIONS s i = Some ses" by (simp add: s')
      then have "ss_id ses = i \<and> (\<exists>v. VERIFIER_SETS s (ss_verifier_set_id ses) = Some v \<and>
          session_ok env ses v (load_session_signatures s i))"
        using assms(1) unfolding multisig_inv_def by blast
      then show "ss_id ses = i \<and> (\<exists>v. VERIFIER_SETS s' (ss_verifier_set_id ses) = Some v \<and>
          session_ok env ses v (load_session_signatures s i))"
        using kept by blast
    qed
  qed (use assms(1) in \<open>simp_all add: s' multisig_inv_def\<close>)
qed

section \<open>Every reachable state\<close>

type_synonym multisig_call = "u64 \<times> addr \<times> multisig_msg"

definition registers_in :: "ms_verifier_set set \<Rightarrow> multisig_call \<Rightarrow> bool" where
  "registers_in V call \<longleftrightarrow> (case snd (snd call) of RegisterVerifierSet vs \<Rightarrow> vs \<in> V | _ \<Rightarrow> True)"

definition multisig_step :: "multisig_env \<Rightarrow> multisig_call \<Rightarrow> multisig_contract \<Rightarrow> multisig_error + multisig_contract" where
  "multisig_step env call s = (case call of (height, sender, msg) \<Rightarrow> new_state (multisig_execute env height sender msg s))"

lemma multisig_inv_step:
  assumes inv: "multisig_inv env V s" and inj: "inj_on (ms_verifier_set_id (digest env)) V"
    and ok: "registers_in V (h, sender, m)" and "multisig_execute env h sender m s = Inr (s', out)"
  shows "multisig_inv env V s'"
proof (cases m)
  case (StartSigningSession vid b chain ver)
  with assms(4) show ?thesis
    by (auto simp: multisig_execute_def result_simps intro: multisig_inv_start [OF inv])
next
  case (SubmitSignature i sig)
  with assms(4) show ?thesis
    by (auto simp: multisig_execute_def result_simps intro: multisig_inv_submit [OF inv])
next
  case (RegisterVerifierSet vs)
  with assms(4) ok show ?thesis
    by (auto simp: multisig_execute_def result_simps registers_in_def intro: multisig_inv_register [OF inv inj])
next
  case (RegisterPublicKey pk sig)
  with assms(4) have "\<exists>ks. s' = s\<lparr>pub_keys := ks\<rparr>"
    by (auto simp: multisig_execute_def result_simps register_pub_key_def save_pub_key_def Let_def)
  then show ?thesis by (elim exE) (rule multisig_inv_cong [OF _ _ _ _ inv]; simp)
next
  case (AuthorizeCallers cs)
  with assms(4) have "\<exists>c. s' = s\<lparr>AUTHORIZED_CALLERS := c\<rparr>"
    by (auto simp: multisig_execute_def result_simps authorize_callers_def)
  then show ?thesis by (elim exE) (rule multisig_inv_cong [OF _ _ _ _ inv]; simp)
next
  case (UnauthorizeCallers cs)
  with assms(4) have "\<exists>c. s' = s\<lparr>AUTHORIZED_CALLERS := c\<rparr>"
    by (auto simp: multisig_execute_def result_simps unauthorize_callers_def)
  then show ?thesis by (elim exE) (rule multisig_inv_cong [OF _ _ _ _ inv]; simp)
next
  case DisableSigning
  with assms(4) have "\<exists>k. s' = s\<lparr>ms_killswitch := k\<rparr>"
    by (auto simp: multisig_execute_def result_simps disable_signing_def)
  then show ?thesis by (elim exE) (rule multisig_inv_cong [OF _ _ _ _ inv]; simp)
next
  case EnableSigning
  with assms(4) have "\<exists>k. s' = s\<lparr>ms_killswitch := k\<rparr>"
    by (auto simp: multisig_execute_def result_simps enable_signing_def)
  then show ?thesis by (elim exE) (rule multisig_inv_cong [OF _ _ _ _ inv]; simp)
qed

text \<open>The verifier sets ever registered are told apart by their ids.\<close>

definition multisig_safe :: "multisig_env \<Rightarrow> ms_verifier_set set \<Rightarrow> multisig_contract \<Rightarrow> bool" where
  "multisig_safe env V s \<longleftrightarrow> (inj_on (ms_verifier_set_id (digest env)) V \<longrightarrow> multisig_inv env V s)"

interpretation msig: contract_invariant "only (registers_in V) (multisig_step env)" "multisig_safe env V" for env V
  by unfold_locales
    (auto simp: only_def multisig_step_def multisig_safe_def result_simps split: if_splits prod.splits
      intro: multisig_inv_step)

lemma multisig_inv_instantiate:
  "multisig_instantiate env a g r e = Inr s \<Longrightarrow> multisig_inv env V s"
  by (auto simp: multisig_instantiate_def result_simps multisig_inv_def bt_wf_def)

section \<open>The smallest quorum\<close>

lemma signers_of_signatures:
  "try_map (\<lambda>(a, sig). rbind (ok_or e (f a)) (\<lambda>signer. Inr (signer, sig))) xs = Inr l \<Longrightarrow>
    l = map (\<lambda>(a, sig). (the (f a), sig)) xs"
  by (induction xs arbitrary: l) (auto simp: result_simps)

definition weight_sum :: "(ms_signer \<times> signature) list \<Rightarrow> nat" where
  "weight_sum xs = sum_list (map (\<lambda>x. unat (ms_weight (fst x))) xs)"

lemma scan_quorum_take:
  assumes "unat acc = min a (2 ^ 128 - 1)"
  shows "\<exists>n \<le> length xs. scan_quorum thr acc xs = take n xs \<and>
    (\<forall>i < n. a + weight_sum (take i xs) < unat thr) \<and>
    (n < length xs \<longrightarrow> unat thr \<le> a + weight_sum (take n xs))"
  using assms
proof (induction xs arbitrary: acc a)
  case (Cons x xs)
  have bound: "unat thr \<le> 2 ^ 128 - 1" using unat_bound [of thr] by simp
  show ?case
  proof (cases "acc < thr")
    case False
    then have "unat thr \<le> a" using Cons.prems bound by (simp add: word_less_nat_alt)
    then show ?thesis using False by (intro exI [of _ 0]) (simp add: weight_sum_def)
  next
    case True
    then have a: "a < unat thr" using Cons.prems bound by (auto simp: word_less_nat_alt min_def split: if_splits)
    have "unat (saturating_add acc (ms_weight (fst x))) = min (a + unat (ms_weight (fst x))) (2 ^ 128 - 1)"
      using Cons.prems a bound by (simp add: unat_saturating_add)
    from Cons.IH [OF this] obtain n where n: "n \<le> length xs"
        "scan_quorum thr (saturating_add acc (ms_weight (fst x))) xs = take n xs"
        "\<forall>i < n. a + unat (ms_weight (fst x)) + weight_sum (take i xs) < unat thr"
        "n < length xs \<longrightarrow> unat thr \<le> a + unat (ms_weight (fst x)) + weight_sum (take n xs)"
      by blast
    have "a + weight_sum (take i (x # xs)) < unat thr" if "i < Suc n" for i
      using that n(3) a by (cases i) (simp_all add: weight_sum_def add.assoc)
    then show ?thesis
      using True n by (intro exI [of _ "Suc n"]) (auto simp: weight_sum_def add.assoc)
  qed
qed (simp add: weight_sum_def)

lemma sum_take_le_Cons:
  fixes xs :: "nat list"
  assumes "\<forall>y \<in> set xs. y \<le> x"
  shows "sum_list (take k xs) \<le> sum_list (take k (x # xs))"
proof (cases k)
  case (Suc j)
  show ?thesis
  proof (cases "j < length xs")
    case True
    then show ?thesis
      using assms Suc by (simp add: take_Suc_conv_app_nth)
  qed (use Suc in simp)
qed simp

lemma heaviest_prefix:
  assumes "sorted_wrt (\<ge>) (xs :: nat list)" "sub \<subseteq># mset xs"
  shows "sum_mset sub \<le> sum_list (take (size sub) xs)"
  using assms
proof (induction xs arbitrary: sub)
  case (Cons x xs)
  show ?case
  proof (cases "x \<in># sub")
    case True
    then obtain sub' where sub': "sub = add_mset x sub'" by (metis insert_DiffM)
    then have "sub' \<subseteq># mset xs" using Cons.prems(2) by simp
    then show ?thesis using Cons.IH [of sub'] Cons.prems(1) sub' by simp
  next
    case False
    then have "sub \<subseteq># mset xs"
      using Cons.prems(2) by (auto simp: subseteq_mset_def) (metis count_eq_zero_iff zero_le)
    then have "sum_mset sub \<le> sum_list (take (size sub) xs)" using Cons by simp
    also have "\<dots> \<le> sum_list (take (size sub) (x # xs))"
      using Cons.prems(1) by (intro sum_take_le_Cons) simp
    finally show ?thesis .
  qed
qed simp

section \<open>Keys\<close>

definition keys_inv :: "multisig_env \<Rightarrow> multisig_contract \<Rightarrow> bool" where
  "keys_inv env s \<longleftrightarrow>
     distinct (map fst (pub_keys s)) \<and> inj_on snd (set (pub_keys s)) \<and>
     (\<forall>((a, kt), b) \<in> set (pub_keys s). \<exists>sig pk. pub_key_type pk = kt \<and> key_bytes pk = b \<and>
        signature_verify env sig (digest env (string_bytes a)) pk = Inr ())"

lemma set_AList_update:
  "distinct (map fst al) \<Longrightarrow> set (AList.update k v al) = insert (k, v) {e \<in> set al. fst e \<noteq> k}"
  by (induction al) (auto, force)

lemma keys_inv_step:
  assumes inv: "keys_inv env s" and "multisig_execute env h sender m s = Inr (s', out)"
  shows "keys_inv env s'"
proof (cases "pub_keys s' = pub_keys s")
  case True
  then show ?thesis using inv by (simp add: keys_inv_def)
next
  case False
  have "\<exists>pk b. m = RegisterPublicKey pk b"
  proof (cases m)
    case (StartSigningSession vid b chain ver)
    with assms(2) False show ?thesis by (auto simp: multisig_execute_def result_simps elim: ms_start_effect)
  next
    case (SubmitSignature i sig)
    with assms(2) have "submit_signature env s h sender i sig = Inr (s', out)"
      by (simp add: multisig_execute_def result_simps)
    then show ?thesis using False by (elim submit_signature_effect) simp
  qed (use assms(2) False in \<open>auto simp: multisig_execute_def result_simps register_verifier_set_def
        authorize_callers_def unauthorize_callers_def disable_signing_def enable_signing_def Let_def\<close>)
  then obtain pk b where m: "m = RegisterPublicKey pk b" by blast
  with assms(2) obtain sig where v: "signature_verify env sig (digest env (string_bytes sender)) pk = Inr ()"
      and new: "key_bytes pk \<notin> snd ` set (pub_keys s)"
      and s': "pub_keys s' = AList.update (sender, pub_key_type pk) (key_bytes pk) (pub_keys s)"
    by (auto simp: multisig_execute_def result_simps register_pub_key_def save_pub_key_def Let_def split: if_splits)
  have d: "distinct (map fst (pub_keys s))" using inv by (simp add: keys_inv_def)
  have set: "set (pub_keys s') = insert ((sender, pub_key_type pk), key_bytes pk)
      {e \<in> set (pub_keys s). fst e \<noteq> (sender, pub_key_type pk)}"
    unfolding s' by (rule set_AList_update [OF d])
  have "inj_on snd {e \<in> set (pub_keys s). fst e \<noteq> (sender, pub_key_type pk)}"
    using inv by (auto simp: keys_inv_def intro: inj_on_subset)
  then have "inj_on snd (set (pub_keys s'))"
    unfolding set using new by (auto simp: inj_on_insert)
  moreover have "distinct (map fst (pub_keys s'))"
    unfolding s' by (rule distinct_update [OF d])
  moreover have "\<forall>((a, kt), b) \<in> set (pub_keys s'). \<exists>sig pk. pub_key_type pk = kt \<and> key_bytes pk = b \<and>
        signature_verify env sig (digest env (string_bytes a)) pk = Inr ()"
    unfolding set using inv v by (auto simp: keys_inv_def)
  ultimately show ?thesis by (simp add: keys_inv_def)
qed

interpretation msig_keys: contract_invariant "multisig_step env" "keys_inv env" for env
  by unfold_locales (auto simp: multisig_step_def result_simps split: prod.splits intro: keys_inv_step)

section \<open>A multisig for the examples\<close>

definition demo_ms_env :: multisig_env where
  "demo_ms_env =
     \<lparr>secp256k1_verify = (\<lambda>msg sig pk. Inr (take 2 sig = take 2 pk)), ed25519_verify = (\<lambda>_ _ _. Inr False),
      digest = (\<lambda>_. [1]), call_verifier_contract = (\<lambda>_ _ _ _ _ _. Inl ''no contract''), validate_address = Some\<rparr>"

definition demo_ms_set :: ms_verifier_set where
  "demo_ms_set = ms_verifier_set_new
     [(\<lparr>p_address = ''v1'', p_weight = 3\<rparr>, Ecdsa (replicate 33 1)), (\<lparr>p_address = ''v2'', p_weight = 5\<rparr>, Ecdsa (replicate 33 2)),
      (\<lparr>p_address = ''v3'', p_weight = 4\<rparr>, Ecdsa (replicate 33 3))] 7 10"

definition demo_ms_start :: multisig_contract where
  "demo_ms_start =
     (case multisig_instantiate demo_ms_env ''admin'' ''gov'' ''rewards'' 10 of Inr s \<Rightarrow> s
      | Inl _ \<Rightarrow> \<lparr>ms_config = None, SIGNING_SESSION_COUNTER = None, SIGNING_SESSIONS = Map.empty,
          AUTHORIZED_CALLERS = Map.empty, VERIFIER_SETS = Map.empty, SIGNATURES = [], pub_keys = [],
          ms_permissions = \<lparr>admin = None, governance = None\<rparr>, ms_killswitch = None\<rparr>)"

definition demo_calls :: "multisig_call list" where
  "demo_calls =
     [(1, ''x'', RegisterVerifierSet demo_ms_set), (1, ''gov'', AuthorizeCallers [(''prover'', ''xrpl'')]),
      (2, ''v1'', RegisterPublicKey (Ecdsa (replicate 33 1)) (replicate 64 1)),
      (2, ''prover'', StartSigningSession (ms_verifier_set_id (digest demo_ms_env) demo_ms_set) (replicate 32 0) ''xrpl'' None),
      (3, ''v1'', SubmitSignature 1 (replicate 64 1)), (4, ''v3'', SubmitSignature 1 (replicate 64 3))]"

definition demo_ms :: multisig_contract where
  "demo_ms = deliver (only (registers_in {demo_ms_set}) (multisig_step demo_ms_env)) demo_calls demo_ms_start"

section \<open>Properties\<close>

lemma map_of_SIGNATURES_iff:
  assumes "bt_wf (SIGNATURES s)"
  shows "map_of (SIGNATURES s) (i, a) = Some sig \<longleftrightarrow> (a, sig) \<in> set (load_session_signatures s i)"
  using bt_wf_distinct [OF assms] by (force simp: load_session_signatures_def map_of_eq_Some_iff)

lemma distinct_session_signers:
  assumes "bt_wf (SIGNATURES s)"
  shows "distinct (map fst (load_session_signatures s i))"
proof -
  let ?l = "filter (\<lambda>((j, _), _). j = i) (SIGNATURES s)"
  have "distinct (map fst ?l)"
    using bt_wf_distinct [OF assms] by (rule distinct_map_filter)
  moreover have "inj_on snd (fst ` set ?l)"
    by (auto simp: inj_on_def)
  ultimately have "distinct (map snd (map fst ?l))"
    unfolding distinct_map [of snd "map fst ?l"] set_map by blast
  moreover have "map fst (load_session_signatures s i) = map snd (map fst ?l)"
    by (simp add: load_session_signatures_def case_prod_beta')
  ultimately show ?thesis by simp
qed

lemma signed_weight_sum:
  assumes "distinct (map fst sigs)"
  shows "signed_weight vs sigs = (\<Sum>a \<in> fst ` set sigs. case map_of (mvs_signers vs) a of None \<Rightarrow> 0 | Some sg \<Rightarrow> unat (ms_weight sg))"
proof -
  let ?f = "\<lambda>a. case map_of (mvs_signers vs) a of None \<Rightarrow> 0 | Some sg \<Rightarrow> unat (ms_weight sg)"
  have "signed_weight vs sigs = sum_list (map ?f (map fst sigs))"
    unfolding signed_weight_def by (simp add: o_def case_prod_beta')
  also have "\<dots> = (\<Sum>a \<in> set (map fst sigs). ?f a)"
    by (rule sum_list_distinct_conv_sum_set [OF assms])
  finally show ?thesis by simp
qed



text \<open>
  C21: Every registered public key belongs to one address: in every reachable state no two entries of the
  key registry hold the same key, and whoever registered a key proved to hold the private key by signing
  the hash of their own address.\<close>

theorem public_keys_owned:
  assumes "multisig_instantiate env a g r e = Inr s0" "run (multisig_step env) s0 s"
    and "map_of (pub_keys s) (owner, kt) = Some b"
  shows "(\<exists>sig pk. pub_key_type pk = kt \<and> key_bytes pk = b \<and>
       signature_verify env sig (digest env (string_bytes owner)) pk = Inr ()) \<and>
     (\<forall>k. map_of (pub_keys s) k = Some b \<longrightarrow> k = (owner, kt))"
proof -
  have "keys_inv env s0"
    using assms(1) by (auto simp: multisig_instantiate_def result_simps keys_inv_def)
  then have inv: "keys_inv env s" by (rule msig_keys.run_inv [OF assms(2)])
  have in_set: "((owner, kt), b) \<in> set (pub_keys s)" using assms(3) by (rule map_of_SomeD)
  have "k = (owner, kt)" if "map_of (pub_keys s) k = Some b" for k
    using inv in_set map_of_SomeD [OF that] unfolding keys_inv_def inj_on_def by fastforce
  then show ?thesis using inv in_set unfolding keys_inv_def by fastforce
qed

theorem public_keys_owned_witness:
  "\<exists>sig pk. key_bytes pk = replicate 33 1 \<and>
     signature_verify demo_ms_env sig (digest demo_ms_env (string_bytes ''v1'')) pk = Inr ()"
proof -
  have init: "multisig_instantiate demo_ms_env ''admin'' ''gov'' ''rewards'' 10 = Inr demo_ms_start"
    by (simp add: multisig_instantiate_def demo_ms_start_def demo_ms_env_def ms_validate_def)
  have "map_of (pub_keys (deliver (multisig_step demo_ms_env) (take 3 demo_calls) demo_ms_start)) (''v1'', KeyEcdsa)
      = Some (replicate 33 1)"
    by code_simp
  from public_keys_owned [OF init run_deliver this] show ?thesis by blast
qed

text \<open>
  C22: The signatures put into a transaction are the smallest quorum: they are among those submitted, in
  descending order of weight, and if all submitted signatures together reach the threshold, the selected
  ones do, and no smaller selection of the submitted signatures does.\<close>

theorem optimize_signatures_smallest_quorum:
  assumes "optimize_signatures m = Inr out" "thr = unat (mvs_threshold (mq_verifier_set m))"
    and "submitted = map (\<lambda>(a, sig). (the (map_of (mvs_signers (mq_verifier_set m)) a), sig)) (mq_signatures m)"
  shows "mset out \<subseteq># mset submitted \<and> sorted_wrt (\<lambda>x y. ms_weight (fst y) \<le> ms_weight (fst x)) out \<and>
    (thr \<le> weight_sum submitted \<longrightarrow>
       thr \<le> weight_sum out \<and>
       (\<forall>sub. mset sub \<subseteq># mset submitted \<and> thr \<le> weight_sum sub \<longrightarrow> length out \<le> length sub))"
proof -
  let ?w = "\<lambda>x :: ms_signer \<times> signature. unat (ms_weight (fst x))"
  define ranked where "ranked = sort_key (\<lambda>x. 2 ^ 128 - ?w x) submitted"
  have "try_map (\<lambda>(addr, sig). rbind (ok_or (MsPanic ''signer not found in verifier set'')
      (map_of (mvs_signers (mq_verifier_set m)) addr)) (\<lambda>signer. Inr (signer, sig))) (mq_signatures m) = Inr l \<Longrightarrow> l = submitted" for l
    unfolding assms(3) by (rule signers_of_signatures)
  then have out: "out = scan_quorum (mvs_threshold (mq_verifier_set m)) 0 ranked"
    using assms(1) by (auto simp: optimize_signatures_def result_simps ranked_def)
  obtain n where n: "n \<le> length ranked" "out = take n ranked"
      "\<forall>i < n. weight_sum (take i ranked) < thr" "n < length ranked \<longrightarrow> thr \<le> weight_sum (take n ranked)"
    using scan_quorum_take [of 0 0 ranked "mvs_threshold (mq_verifier_set m)"] out assms(2) by auto
  have mset_ranked: "mset ranked = mset submitted" by (simp add: ranked_def)
  have desc: "sorted_wrt (\<lambda>x y. ?w y \<le> ?w x) ranked"
  proof -
    have "sorted_wrt (\<lambda>x y. 2 ^ 128 - ?w x \<le> 2 ^ 128 - ?w y) ranked"
      using sorted_sort_key [of "\<lambda>x. 2 ^ 128 - ?w x" submitted] unfolding ranked_def sorted_map .
    then show ?thesis
    proof (rule sorted_wrt_mono_rel [rotated])
      fix x y :: "ms_signer \<times> signature"
      show "2 ^ 128 - ?w x \<le> 2 ^ 128 - ?w y \<Longrightarrow> ?w y \<le> ?w x"
        using unat_bound [of "ms_weight (fst x)"] unat_bound [of "ms_weight (fst y)"] by simp
    qed
  qed
  have smallest: "length out \<le> length sub" if sub: "mset sub \<subseteq># mset submitted" "thr \<le> weight_sum sub" for sub
  proof (rule ccontr)
    assume "\<not> length out \<le> length sub"
    then have "length sub < n" using n(1,2) by simp
    moreover have "weight_sum sub \<le> weight_sum (take (length sub) ranked)"
    proof -
      have "mset (map ?w sub) \<subseteq># mset (map ?w ranked)"
        using sub(1) mset_ranked by (simp add: image_mset_subseteq_mono)
      moreover have "sorted_wrt (\<ge>) (map ?w ranked)" using desc by (simp add: sorted_wrt_map)
      ultimately show ?thesis
        using heaviest_prefix [of "map ?w ranked" "mset (map ?w sub)"]
        by (simp add: weight_sum_def take_map sum_mset_sum_list [symmetric] del: sum_mset_sum_list)
    qed
    ultimately show False using n(3) sub(2) by (meson leD order.strict_trans2)
  qed
  have "mset out \<subseteq># mset submitted"
    unfolding n(2) mset_ranked [symmetric] by (metis append_take_drop_id mset_append mset_subset_eq_add_left)
  moreover have "sorted_wrt (\<lambda>x y. ms_weight (fst y) \<le> ms_weight (fst x)) out"
    using desc unfolding n(2) by (simp add: word_le_nat_alt sorted_wrt_take)
  moreover have "thr \<le> weight_sum out" if "thr \<le> weight_sum submitted"
  proof -
    have "weight_sum ranked = weight_sum submitted"
      unfolding weight_sum_def sum_mset_sum_list [symmetric] mset_map mset_ranked ..
    then show ?thesis using that n by (cases "n < length ranked") auto
  qed
  ultimately show ?thesis using smallest by blast
qed

theorem optimize_signatures_smallest_quorum_witness:
  "\<exists>out. optimize_signatures \<lparr>mq_state = SessionPending, mq_verifier_set = demo_ms_set,
       mq_signatures = [(''v1'', SigEcdsa []), (''v3'', SigEcdsa []), (''v2'', SigEcdsa [])]\<rparr> = Inr out \<and>
     map (ms_address \<circ> fst) out = [''v2'', ''v3''] \<and> 7 \<le> weight_sum out"
proof -
  let ?m = "\<lparr>mq_state = SessionPending, mq_verifier_set = demo_ms_set,
       mq_signatures = [(''v1'', SigEcdsa []), (''v3'', SigEcdsa []), (''v2'', SigEcdsa [])]\<rparr>"
  have "case optimize_signatures ?m of Inl _ \<Rightarrow> False | Inr out \<Rightarrow> map (ms_address \<circ> fst) out = [''v2'', ''v3'']"
    by code_simp
  then obtain out where out: "optimize_signatures ?m = Inr out" "map (ms_address \<circ> fst) out = [''v2'', ''v3'']"
    by (auto simp: case_Inr_iff)
  have "unat (mvs_threshold (mq_verifier_set ?m)) = 7" by code_simp
  moreover have "7 \<le> weight_sum (map (\<lambda>(a, sig). (the (map_of (mvs_signers (mq_verifier_set ?m)) a), sig)) (mq_signatures ?m))"
    by code_simp
  ultimately have "7 \<le> weight_sum out"
    using optimize_signatures_smallest_quorum [OF out(1) refl refl] by simp
  then show ?thesis using out by (intro exI [of _ out] conjI)
qed

end
