(* ===== verification/Its_Messages.thy ===== *)
theory Its_Messages
  imports Xrpl_Types
begin

text \<open>
  The messages of the interchain token service (\<open>contracts/interchain-token-service/src/primitives.rs\<close>) that
  the XRPL gateway builds and the XRPL prover reads, and the reading of text from bytes. The ABI encoding
  of a message is done by the crate \<open>alloy_sol_types\<close> and is a parameter of the contracts that use it.
\<close>

record its_interchain_transfer =
  it_token_id :: token_id
  it_source_address :: bytes
  it_destination_address :: bytes
  it_amount :: u256
  it_data :: "bytes option"

record its_deploy_interchain_token =
  dt_token_id :: token_id
  dt_name :: string
  dt_symbol :: string
  dt_decimals :: u8
  dt_minter :: "bytes option"

record its_link_token =
  lt_token_id :: token_id
  lt_token_manager_type :: u256
  lt_source_token_address :: bytes
  lt_destination_token_address :: bytes
  lt_params :: "bytes option"

record its_register_token_metadata =
  rm_decimals :: u8
  rm_token_address :: bytes

datatype its_message =
    ItsInterchainTransfer its_interchain_transfer
  | ItsDeployInterchainToken its_deploy_interchain_token
  | ItsLinkToken its_link_token

datatype hub_message =
    SendToHub chain_name its_message
  | ReceiveFromHub chain_name its_message
  | RegisterTokenMetadata its_register_token_metadata

primrec its_message_token_id :: "its_message \<Rightarrow> token_id" where
  "its_message_token_id (ItsInterchainTransfer t) = it_token_id t"
| "its_message_token_id (ItsDeployInterchainToken t) = dt_token_id t"
| "its_message_token_id (ItsLinkToken t) = lt_token_id t"

section \<open>Text\<close>

text \<open>\<open>std::str::from_utf8\<close>: the well-formed byte sequences of Unicode. A string is the list of its bytes.\<close>

definition utf8_tail :: "nat \<Rightarrow> bool" where
  "utf8_tail b \<longleftrightarrow> 128 \<le> b \<and> b \<le> 191"

fun utf8_valid :: "nat list \<Rightarrow> bool" where
  "utf8_valid [] = True"
| "utf8_valid (a # r) =
     (if a \<le> 127 then utf8_valid r
      else if 194 \<le> a \<and> a \<le> 223 then
        (case r of b # r' \<Rightarrow> utf8_tail b \<and> utf8_valid r' | _ \<Rightarrow> False)
      else if 224 \<le> a \<and> a \<le> 239 then
        (case r of b # c # r' \<Rightarrow>
           utf8_tail b \<and> (a = 224 \<longrightarrow> 160 \<le> b) \<and> (a = 237 \<longrightarrow> b \<le> 159) \<and> utf8_tail c \<and> utf8_valid r'
         | _ \<Rightarrow> False)
      else if 240 \<le> a \<and> a \<le> 244 then
        (case r of b # c # d # r' \<Rightarrow>
           utf8_tail b \<and> (a = 240 \<longrightarrow> 144 \<le> b) \<and> (a = 244 \<longrightarrow> b \<le> 143) \<and> utf8_tail c \<and> utf8_tail d \<and> utf8_valid r'
         | _ \<Rightarrow> False)
      else False)"

definition from_utf8 :: "bytes \<Rightarrow> string option" where
  "from_utf8 b = (if utf8_valid (map unat b) then Some (map (\<lambda>x. char_of (unat x)) b) else None)"

lemma utf8_ascii: "(\<And>x. x \<in> set xs \<Longrightarrow> x \<le> 127) \<Longrightarrow> utf8_valid xs"
  by (induction xs) auto

end
