(* ===== verification/Xrpl_Prover.thy ===== *)
theory Xrpl_Prover
  imports Xrpl_Multisig Multisig_Contract Its_Messages
begin

text \<open>
  The multisig prover contract of XRPL (\<open>contracts/xrpl-multisig-prover\<close>): its messages with their
  permissions, the handlers of \<open>contract/execute.rs\<close>, the reply that records a signing session, the queries
  and the instantiation. What the contract asks other contracts is a record of answers, so a theorem that
  quantifies over it covers every behaviour of those contracts. The lemmas describe what each handler
  changes and give the invariants of the contract: at most 250 available tickets, and one trust line
  counted per token.
\<close>

section \<open>The world around the contract\<close>

text \<open>
  The answers of the gateway, the registry, the coordinator, the voting verifier and the multisig; the
  primitives of the crypto and ABI crates; the two conversions of \<open>xrpl_types\<close> that build a signed
  transaction; the decoding of a reply by \<open>cw_utils\<close> and \<open>cosmwasm_std\<close>; and the block.
\<close>

record prover_env =
  pe_gateway :: gateway_client
  pe_verifiers :: verifiers_env
  pe_messages_status :: "xrpl_message list \<Rightarrow> (xrpl_message \<times> verification_status) list option"
  pe_multisig :: "u64 \<Rightarrow> multisig option"
  pe_crypto :: multisig_env
  pe_abi_decode :: "bytes \<Rightarrow> hub_message option"
  pe_signer_try_from :: "ms_signer \<times> signature \<Rightarrow> xrpl_error + xrpl_signer"
  pe_signed_tx_new :: "xrpl_unsigned_tx \<Rightarrow> xrpl_signer list \<Rightarrow> tx_hash \<Rightarrow> cross_chain_id option \<Rightarrow> xrpl_signed_tx"
  pe_parse_execute_response_data :: "bytes \<Rightarrow> string + bytes option"
  pe_session_id_from_json :: "bytes \<Rightarrow> u64 option"
  pe_contract_address :: addr
  pe_block_height :: u64

datatype prover_out =
    OutStartSigningSession addr string bytes chain_name addr
  | OutRegisterVerifierSet addr ms_verifier_set
  | OutSetActiveVerifiers addr "addr set"

record prover_response =
  resp_submessages :: "prover_out list"
  resp_messages :: "prover_out list"
  resp_events :: "prover_event list"

abbreviation response :: prover_response where
  "response \<equiv> \<lparr>resp_submessages = [], resp_messages = [], resp_events = []\<rparr>"

definition list_first :: "'a list \<Rightarrow> 'a option" where
  "list_first xs = (case xs of [] \<Rightarrow> None | x # _ \<Rightarrow> Some x)"

section \<open>Handlers\<close>

definition start_signing_session ::
    "xrpl_lib \<Rightarrow> prover_state \<Rightarrow> prover_config \<Rightarrow> xrpl_unsigned_tx_to_sign \<Rightarrow> addr \<Rightarrow> string option \<Rightarrow>
     prover_out prover_result" where
  "start_signing_session lib s config unsigned_tx self_address verifier_set_id =
     (let s = s\<lparr>REPLY_UNSIGNED_TX_HASH := Some (tts_unsigned_tx_hash unsigned_tx)\<rparr> in
      rbind (case verifier_set_id of
               Some set_id \<Rightarrow> Inr set_id
             | None \<Rightarrow>
                 rbind (ok_or NoVerifierSet (CURRENT_VERIFIER_SET s)) (\<lambda>cur.
                 rbind (verifier_set_try_from lib cur) (\<lambda>cur_verifier_set.
                 Inr (ms_verifier_set_id (keccak256_digest lib) cur_verifier_set)))) (\<lambda>verifier_set_id.
      rbind (serialize_tx_to_sign lib unsigned_tx) (\<lambda>msg.
      Inr (s, OutStartSigningSession (pc_multisig config) verifier_set_id msg (pc_chain_name config) self_address))))"

definition construct_trust_set_proof ::
    "xrpl_lib \<Rightarrow> prover_env \<Rightarrow> prover_state \<Rightarrow> prover_config \<Rightarrow> token_id \<Rightarrow> prover_response prover_result" where
  "construct_trust_set_proof lib env s config token_id =
     rbind (ok_or (FailedToGetXrplToken token_id) (gq_xrpl_token (pe_gateway env) token_id)) (\<lambda>xrpl_token.
     if token_is_remote lib xrpl_token (pc_xrpl_multisig config) then Inl (TokenNotLocal xrpl_token)
     else if TRUST_LINE s xrpl_token \<noteq> None then Inl (TrustLineAlreadyExists xrpl_token)
     else
       rbind (issue_trust_set lib s config xrpl_token) (\<lambda>(s, unsigned_tx).
       rbind (start_signing_session lib s config unsigned_tx (pe_contract_address env) None) (\<lambda>(s, sub).
       Inr (s, response\<lparr>resp_submessages := [sub]\<rparr>))))"

definition construct_ticket_create_proof ::
    "xrpl_lib \<Rightarrow> prover_env \<Rightarrow> prover_state \<Rightarrow> prover_config \<Rightarrow> prover_response prover_result" where
  "construct_ticket_create_proof lib env s config =
     (if \<not> is_contract_active (KILLSWITCH s) then Inl ExecutionDisabled
      else
        rbind (num_of_tickets_to_create s) (\<lambda>ticket_count.
        if ticket_count < pc_ticket_count_threshold config then Inl TicketCountThresholdNotReached
        else
          rbind (issue_ticket_create lib s config ticket_count) (\<lambda>(s, unsigned_tx).
          rbind (start_signing_session lib s config unsigned_tx (pe_contract_address env) None) (\<lambda>(s, sub).
          Inr (s, response\<lparr>resp_submessages := [sub]\<rparr>)))))"

definition message_status :: "prover_env \<Rightarrow> xrpl_message \<Rightarrow> prover_error + verification_status" where
  "message_status env message =
     rbind (ok_or (FailedToGetMessagesStatus [message]) (pe_messages_status env [message])) (\<lambda>messages_status.
     rbind (ok_or (FailedToGetMessageStatus message) (list_first messages_status)) (\<lambda>(_, status).
     Inr status))"

definition confirm_prover_message ::
    "xrpl_lib \<Rightarrow> prover_env \<Rightarrow> prover_state \<Rightarrow> prover_config \<Rightarrow> xrpl_prover_message \<Rightarrow> prover_response prover_result" where
  "confirm_prover_message lib env s config prover_message =
     rbind (message_status env (ProverMessage prover_message)) (\<lambda>status.
     if status = Unknown \<or> status = FailedToVerify then Inl TxStatusUnknown
     else if status = InProgress then Inl TxStatusVerificationInProgress
     else
       rbind (ms_confirm_prover_message lib s (pe_gateway env) (pm_tx_id prover_message)
                (pm_unsigned_tx_hash prover_message) (tx_status_from lib status)) (\<lambda>(s, maybe_verifier_set, maybe_event).
       rbind (case maybe_verifier_set of
                None \<Rightarrow> Inr []
              | Some confirmed_verifier_set \<Rightarrow>
                  (let active_verifiers = set (map as_address (vs_signers confirmed_verifier_set)) in
                   rbind (verifier_set_try_from lib confirmed_verifier_set) (\<lambda>vs.
                   Inr [OutRegisterVerifierSet (pc_multisig config) vs,
                        OutSetActiveVerifiers (pc_coordinator config) active_verifiers]))) (\<lambda>msgs.
       Inr (s, \<lparr>resp_submessages = [], resp_messages = msgs,
                resp_events = (case maybe_event of None \<Rightarrow> [] | Some ev \<Rightarrow> [ev])\<rparr>))))"

definition confirm_add_reserves_message ::
    "prover_env \<Rightarrow> prover_state \<Rightarrow> xrpl_add_reserves_message \<Rightarrow> prover_response prover_result" where
  "confirm_add_reserves_message env s add_reserves_message =
     rbind (message_status env (AddReservesMessage add_reserves_message)) (\<lambda>status.
     if status \<noteq> SucceededOnSourceChain then Inr (s, response)
     else
       (let fee_added = arm_amount add_reserves_message;
            tx_id = arm_tx_id add_reserves_message in
        if fee_added \<noteq> 0 \<and> FEE_RESERVE_TOP_UP_COUNTED s tx_id = None then
          rbind (case FEE_RESERVE s of
                   Some current_fee_reserve \<Rightarrow> ok_or Overflow (checked_add current_fee_reserve fee_added)
                 | None \<Rightarrow> Inr fee_added) (\<lambda>new_fee_reserve.
          Inr (s\<lparr>FEE_RESERVE := Some new_fee_reserve,
                 FEE_RESERVE_TOP_UP_COUNTED := (FEE_RESERVE_TOP_UP_COUNTED s)(tx_id \<mapsto> ())\<rparr>, response))
        else Inr (s, response)))"

definition query_verify_signature ::
    "xrpl_lib \<Rightarrow> prover_env \<Rightarrow> bytes \<Rightarrow> public_key \<Rightarrow> signature \<Rightarrow> prover_error + bool" where
  "query_verify_signature lib env encoded_unsigned_tx public_key signature =
     (let signer_xrpl_address = account_id_from_pub_key lib public_key in
      rbind (map_err XRPLTypeConversionError (message_to_sign lib encoded_unsigned_tx signer_xrpl_address)) (\<lambda>tx_hash.
      Inr (signature_verify (pe_crypto env) signature tx_hash public_key = Inr ())))"

definition verify_signature ::
    "xrpl_lib \<Rightarrow> prover_env \<Rightarrow> prover_state \<Rightarrow> bytes \<Rightarrow> public_key \<Rightarrow> signature \<Rightarrow> prover_response prover_result" where
  "verify_signature lib env s message public_key signature =
     rbind (query_verify_signature lib env message public_key signature) (\<lambda>ok.
     if ok then Inr (s, response) else Inl InvalidSignature)"

definition save_next_verifier_set :: "prover_state \<Rightarrow> verifier_set \<Rightarrow> unit prover_result" where
  "save_next_verifier_set s new_verifier_set =
     (case NEXT_VERIFIER_SET s of
        Some next_verifier_set \<Rightarrow>
          if next_verifier_set = new_verifier_set then Inr (s, ()) else Inl VerifierSetConfirmationInProgress
      | None \<Rightarrow> Inr (s\<lparr>NEXT_VERIFIER_SET := Some new_verifier_set\<rparr>, ()))"

definition update_fee_reserve :: "prover_state \<Rightarrow> u64 \<Rightarrow> prover_response prover_result" where
  "update_fee_reserve s new_fee_reserve = Inr (s\<lparr>FEE_RESERVE := Some new_fee_reserve\<rparr>, response)"

definition update_config ::
    "prover_state \<Rightarrow> (prover_config \<Rightarrow> prover_config) \<Rightarrow> prover_response prover_result" where
  "update_config s f =
     rbind (item_update Std (\<lambda>config. Inr (f config)) (CONFIG s)) (\<lambda>config.
     Inr (s\<lparr>CONFIG := Some config\<rparr>, response))"

definition update_signing_threshold :: "prover_state \<Rightarrow> threshold \<Rightarrow> prover_response prover_result" where
  "update_signing_threshold s new_signing_threshold =
     update_config s (\<lambda>config. config\<lparr>pc_signing_threshold := new_signing_threshold\<rparr>)"

definition update_xrpl_reserves :: "prover_state \<Rightarrow> u64 \<Rightarrow> u64 \<Rightarrow> prover_response prover_result" where
  "update_xrpl_reserves s new_base_reserve new_owner_reserve =
     update_config s (\<lambda>config. config\<lparr>pc_xrpl_base_reserve := new_base_reserve,
                                      pc_xrpl_owner_reserve := new_owner_reserve\<rparr>)"

definition update_xrpl_transaction_fee :: "prover_state \<Rightarrow> u64 \<Rightarrow> prover_response prover_result" where
  "update_xrpl_transaction_fee s new_transaction_fee =
     update_config s (\<lambda>config. config\<lparr>pc_xrpl_transaction_fee := new_transaction_fee\<rparr>)"

definition update_admin :: "prover_env \<Rightarrow> prover_state \<Rightarrow> string \<Rightarrow> prover_response prover_result" where
  "update_admin env s new_admin_address =
     rbind (ok_or FailedToUpdateAdmin (validate_address (pe_crypto env) new_admin_address)) (\<lambda>new_admin.
     Inr (s\<lparr>PERMISSIONS := set_admin new_admin (PERMISSIONS s)\<rparr>, response))"

definition compute_xrpl_amount ::
    "xrpl_lib \<Rightarrow> gateway_client \<Rightarrow> chain_name \<Rightarrow> token_id \<Rightarrow> chain_name \<Rightarrow> u256 \<Rightarrow> prover_error + xrpl_payment_amount" where
  "compute_xrpl_amount lib gateway xrpl_chain token_id origin_chain source_amount =
     rbind (ok_or FailedToGetXrpTokenId (gq_xrp_token_id gateway)) (\<lambda>xrp_token_id.
     if token_id = xrp_token_id then
       (if source_amount > ucast (xrp_max_uint lib) then Inl (InvalidTransferAmount origin_chain source_amount)
        else Inr (Drops (ucast source_amount)))
     else
       rbind (ok_or (FailedToGetXrplToken token_id) (gq_xrpl_token gateway token_id)) (\<lambda>xrpl_token.
       rbind (ok_or (FailedToGetTokenInstanceDecimals token_id xrpl_chain)
                (gq_token_instance_decimals gateway xrpl_chain token_id)) (\<lambda>xrpl_decimals.
       rbind (map_err (\<lambda>_. InvalidTransferAmount origin_chain source_amount)
                (canonicalize_token_amount lib source_amount xrpl_decimals)) (\<lambda>token_amount.
       Inr (Issued xrpl_token token_amount)))))"

text \<open>No second signing session for a payment while one is open, and none after it succeeded.\<close>

definition ensure_payment_open ::
    "prover_env \<Rightarrow> prover_state \<Rightarrow> cross_chain_id \<Rightarrow> prover_error + unit" where
  "ensure_payment_open env s cc_id =
     (case CROSS_CHAIN_ID_TO_MULTISIG_SESSION s cc_id of
        None \<Rightarrow> Inr ()
      | Some multisig_session \<Rightarrow>
          rbind (ok_or (FailedToGetMultisigSession (ses_id multisig_session))
                   (pe_multisig env (ses_id multisig_session))) (\<lambda>session.
          case mq_state session of
            SessionPending \<Rightarrow>
              if ses_expires_at multisig_session \<ge> pe_block_height env
              then Inl (PaymentAlreadyHasActiveSigningSession (ses_id multisig_session)) else Inr ()
          | SessionCompleted _ \<Rightarrow>
              rbind (load (MULTISIG_SESSION_ID_TO_UNSIGNED_TX_HASH s (ses_id multisig_session))) (\<lambda>unsigned_tx_hash.
              rbind (load (UNSIGNED_TX_HASH_TO_TX_INFO s unsigned_tx_hash)) (\<lambda>tx_info.
              if ti_status tx_info = TxSucceeded then Inl (PaymentAlreadySucceeded cc_id) else Inr ()))))"

definition construct_payment_proof ::
    "xrpl_lib \<Rightarrow> prover_env \<Rightarrow> prover_state \<Rightarrow> prover_config \<Rightarrow> cross_chain_id \<Rightarrow> bytes \<Rightarrow>
     prover_response prover_result" where
  "construct_payment_proof lib env s config cc_id payload =
     (if \<not> is_contract_active (KILLSWITCH s) then Inl ExecutionDisabled
      else
        rbind (ensure_payment_open env s cc_id) (\<lambda>_.
        rbind (ok_or FailedToGetMessages (gq_outgoing_messages (pe_gateway env) [cc_id])) (\<lambda>messages.
        rbind (ok_or (MessageNotFound cc_id) (list_first messages)) (\<lambda>message.
        if msg_destination_chain message \<noteq> pc_chain_name config then
          Inl (InvalidDestinationChain (pc_chain_name config) (msg_destination_chain message))
        else
          (let payload_hash = keccak256_digest lib payload in
           if msg_payload_hash message \<noteq> payload_hash then Inl (PayloadHashMismatch (msg_payload_hash message) payload_hash)
           else
             rbind (ok_or InvalidPayload (pe_abi_decode env payload)) (\<lambda>its_hub_message.
             case its_hub_message of
               ReceiveFromHub origin_chain (ItsInterchainTransfer interchain_transfer) \<Rightarrow>
                 if it_data interchain_transfer \<noteq> None then Inl DataNotSupported
                 else
                   rbind (ok_or InvalidDestinationAddress
                            (Option.bind (from_utf8 (it_destination_address interchain_transfer))
                               (account_id_from_str lib))) (\<lambda>destination_address.
                   rbind (compute_xrpl_amount lib (pe_gateway env) (pc_chain_name config)
                            (it_token_id interchain_transfer) origin_chain (it_amount interchain_transfer)) (\<lambda>xrpl_amount.
                   if payment_amount_is_zero lib xrpl_amount then Inr (s, response)
                   else
                     rbind (issue_payment lib s config destination_address xrpl_amount cc_id None) (\<lambda>(s, unsigned_tx).
                     rbind (start_signing_session lib s config unsigned_tx (pe_contract_address env) None) (\<lambda>(s, sub).
                     Inr (s, response\<lparr>resp_submessages := [sub]\<rparr>)))))
             | _ \<Rightarrow> Inl InvalidPayload))))))"

definition all_active_verifiers :: "prover_state \<Rightarrow> addr set" where
  "all_active_verifiers s =
     (let current_signers = (case CURRENT_VERIFIER_SET s of None \<Rightarrow> [] | Some vs \<Rightarrow> vs_signers vs);
          next_signers = (case NEXT_VERIFIER_SET s of None \<Rightarrow> [] | Some vs \<Rightarrow> vs_signers vs)
      in set (map as_address (current_signers @ next_signers)))"

definition next_verifier_set ::
    "xrpl_lib \<Rightarrow> prover_env \<Rightarrow> prover_state \<Rightarrow> prover_config \<Rightarrow> prover_error + verifier_set option" where
  "next_verifier_set lib env s config =
     (case NEXT_VERIFIER_SET s of
        Some pending_verifier_set \<Rightarrow> Inr (Some pending_verifier_set)
      | None \<Rightarrow>
          rbind (make_verifier_set lib (pc_signing_threshold config) (pe_verifiers env) (pe_block_height env)) (\<lambda>new_verifier_set.
          case CURRENT_VERIFIER_SET s of
            Some cur_verifier_set \<Rightarrow>
              rbind (verifier_set_try_from lib new_verifier_set) (\<lambda>new.
              rbind (verifier_set_try_from lib cur_verifier_set) (\<lambda>cur.
              if should_update_verifier_set new cur (unat (pc_verifier_set_diff_threshold config))
              then Inr (Some new_verifier_set) else Inr None))
          | None \<Rightarrow> Inl NoVerifierSet))"

definition update_verifier_set :: "xrpl_lib \<Rightarrow> prover_env \<Rightarrow> prover_state \<Rightarrow> prover_response prover_result" where
  "update_verifier_set lib env s =
     rbind (load (CONFIG s)) (\<lambda>config.
     case CURRENT_VERIFIER_SET s of
       None \<Rightarrow>
         rbind (make_verifier_set lib (pc_signing_threshold config) (pe_verifiers env) (pe_block_height env)) (\<lambda>new_verifier_set.
         let s = s\<lparr>CURRENT_VERIFIER_SET := Some new_verifier_set\<rparr> in
         rbind (verifier_set_try_from lib new_verifier_set) (\<lambda>vs.
         Inr (s, response\<lparr>resp_messages := [OutRegisterVerifierSet (pc_multisig config) vs]\<rparr>)))
     | Some cur_verifier_set \<Rightarrow>
         rbind (next_verifier_set lib env s config) (\<lambda>maybe.
         rbind (ok_or VerifierSetUnchanged maybe) (\<lambda>new_verifier_set.
         rbind (save_next_verifier_set s new_verifier_set) (\<lambda>(s, _).
         let verifier_union_set = all_active_verifiers s in
         rbind (issue_signer_list_set lib s config new_verifier_set) (\<lambda>(s, unsigned_tx).
         rbind (verifier_set_try_from lib cur_verifier_set) (\<lambda>cur.
         rbind (start_signing_session lib s config unsigned_tx (pe_contract_address env)
                  (Some (ms_verifier_set_id (keccak256_digest lib) cur))) (\<lambda>(s, sub).
         Inr (s, \<lparr>resp_submessages = [sub],
                  resp_messages = [OutSetActiveVerifiers (pc_coordinator config) verifier_union_set],
                  resp_events = []\<rparr>))))))))"

definition disable_execution :: "prover_state \<Rightarrow> prover_response prover_result" where
  "disable_execution s =
     rbind (map_err Std (engage EvExecutionDisabled (KILLSWITCH s))) (\<lambda>(k, _). Inr (s\<lparr>KILLSWITCH := k\<rparr>, response))"

definition enable_execution :: "prover_state \<Rightarrow> prover_response prover_result" where
  "enable_execution s =
     rbind (map_err Std (disengage EvExecutionEnabled (KILLSWITCH s))) (\<lambda>(k, _). Inr (s\<lparr>KILLSWITCH := k\<rparr>, response))"

section \<open>Messages\<close>

datatype prover_msg =
    ConstructProof cross_chain_id bytes
  | UpdateVerifierSet
  | ConfirmProverMessage xrpl_prover_message
  | ConfirmAddReservesMessage xrpl_add_reserves_message
  | DisableExecution
  | EnableExecution
  | TicketCreateMsg
  | TrustSetMsg token_id
  | UpdateFeeReserve u64
  | UpdateSigningThreshold threshold
  | UpdateXrplTransactionFee u64
  | UpdateXrplReserves u64 u64
  | UpdateAdmin string
  | VerifySignature bytes bytes bytes string u64

definition prover_permission :: "prover_msg \<Rightarrow> flag_set" where
  "prover_permission msg =
     (case msg of
        ConstructProof _ _ \<Rightarrow> AnyPermission
      | ConfirmProverMessage _ \<Rightarrow> AnyPermission
      | ConfirmAddReservesMessage _ \<Rightarrow> AnyPermission
      | TicketCreateMsg \<Rightarrow> AnyPermission
      | VerifySignature _ _ _ _ _ \<Rightarrow> AnyPermission
      | UpdateSigningThreshold _ \<Rightarrow> Governance
      | _ \<Rightarrow> Elevated)"

definition prover_execute ::
    "xrpl_lib \<Rightarrow> prover_env \<Rightarrow> addr \<Rightarrow> prover_msg \<Rightarrow> prover_state \<Rightarrow> prover_response prover_result" where
  "prover_execute lib env sender msg s =
     rbind (ok_or (ProverPanic ''failed to load config'') (CONFIG s)) (\<lambda>config.
     rbind (map_err PermissionError
              (ensure_permissions (PERMISSIONS s) sender ([] :: (unit + addr) list) [prover_permission msg])) (\<lambda>_.
     case msg of
       TrustSetMsg token_id \<Rightarrow> construct_trust_set_proof lib env s config token_id
     | ConstructProof cc_id payload \<Rightarrow> construct_payment_proof lib env s config cc_id payload
     | UpdateVerifierSet \<Rightarrow> update_verifier_set lib env s
     | ConfirmProverMessage prover_message \<Rightarrow> confirm_prover_message lib env s config prover_message
     | TicketCreateMsg \<Rightarrow> construct_ticket_create_proof lib env s config
     | UpdateFeeReserve new_fee_reserve \<Rightarrow> update_fee_reserve s new_fee_reserve
     | UpdateSigningThreshold new_signing_threshold \<Rightarrow> update_signing_threshold s new_signing_threshold
     | UpdateXrplTransactionFee new_transaction_fee \<Rightarrow> update_xrpl_transaction_fee s new_transaction_fee
     | UpdateXrplReserves new_base_reserve new_owner_reserve \<Rightarrow>
         update_xrpl_reserves s new_base_reserve new_owner_reserve
     | UpdateAdmin new_admin_address \<Rightarrow> update_admin env s new_admin_address
     | ConfirmAddReservesMessage add_reserves_message \<Rightarrow> confirm_add_reserves_message env s add_reserves_message
     | VerifySignature signature message public_key _ _ \<Rightarrow>
         rbind (map_err (\<lambda>_. InvalidSignature) (signature_try_from KeyEcdsa signature)) (\<lambda>signature.
         verify_signature lib env s message (Ecdsa public_key) signature)
     | DisableExecution \<Rightarrow> disable_execution s
     | EnableExecution \<Rightarrow> enable_execution s))"

record prover_instantiate_msg =
  im_admin_address :: string
  im_governance_address :: string
  im_config :: prover_config
  im_initial_fee_reserve :: u64
  im_available_tickets :: "u32 list"
  im_next_sequence_number :: u32
  im_last_assigned_ticket_number :: u32

text \<open>The addresses in the message are validated; the rest of the configuration is copied.\<close>

definition prover_instantiate :: "prover_env \<Rightarrow> prover_instantiate_msg \<Rightarrow> prover_error + prover_state" where
  "prover_instantiate env msg =
     (let validate = (\<lambda>a. ok_or (Std (GenericError a)) (validate_address (pe_crypto env) a));
          c = im_config msg in
      rbind (validate (pc_gateway c)) (\<lambda>gateway.
      rbind (validate (pc_multisig c)) (\<lambda>multisig.
      rbind (validate (pc_coordinator c)) (\<lambda>coordinator.
      rbind (validate (pc_service_registry c)) (\<lambda>service_registry.
      rbind (validate (pc_voting_verifier c)) (\<lambda>voting_verifier.
      rbind (validate (im_admin_address msg)) (\<lambda>admin_addr.
      rbind (validate (im_governance_address msg)) (\<lambda>governance_addr.
      Inr \<lparr>CONFIG = Some (c\<lparr>pc_gateway := gateway, pc_multisig := multisig, pc_coordinator := coordinator,
                            pc_service_registry := service_registry, pc_voting_verifier := voting_verifier\<rparr>),
           REPLY_UNSIGNED_TX_HASH = None,
           NEXT_SEQUENCE_NUMBER = Some (im_next_sequence_number msg),
           LAST_ASSIGNED_TICKET_NUMBER = Some (im_last_assigned_ticket_number msg),
           AVAILABLE_TICKETS = Some (im_available_tickets msg),
           MULTISIG_SESSION_ID_TO_UNSIGNED_TX_HASH = Map.empty, CROSS_CHAIN_ID_TO_TICKET = Map.empty,
           CROSS_CHAIN_ID_TO_MULTISIG_SESSION = Map.empty, CONSUMED_TICKET_TO_UNSIGNED_TX_HASH = Map.empty,
           UNSIGNED_TX_HASH_TO_TX_INFO = Map.empty, TRUST_LINE = Map.empty, TRUST_LINE_COUNT = None,
           SEQUENCE_NUMBER_MAX_OBJECT_COUNT = Map.empty, FEE_RESERVE = Some (im_initial_fee_reserve msg),
           FEE_RESERVE_TOP_UP_COUNTED = Map.empty, CURRENT_VERIFIER_SET = None, NEXT_VERIFIER_SET = None,
           PERMISSIONS = set_governance governance_addr (set_admin admin_addr \<lparr>admin = None, governance = None\<rparr>),
           KILLSWITCH = killswitch_init Disengaged\<rparr>))))))))"

text \<open>The migration; whether the stored version is the base version is an answer of the crate \<open>cw2\<close>, and \<open>None\<close> its error.\<close>

definition prover_migrate :: "bool \<Rightarrow> prover_state \<Rightarrow> prover_state option" where
  "prover_migrate is_base_version s =
     (if \<not> is_base_version then None else Some (s\<lparr>KILLSWITCH := killswitch_init Disengaged\<rparr>))"

section \<open>Reply\<close>

record sub_response =
  sr_data :: "bytes option"
  sr_events :: "(string \<times> (string \<times> string) list) list"

record sub_reply =
  rp_id :: u64
  rp_result :: "string + sub_response"

definition start_multisig_reply ::
    "xrpl_lib \<Rightarrow> prover_env \<Rightarrow> sub_reply \<Rightarrow> prover_state \<Rightarrow> prover_response prover_result" where
  "start_multisig_reply lib env reply s =
     rbind (load (CONFIG s)) (\<lambda>config.
     rbind (map_err ParseReply (rp_result reply)) (\<lambda>result.
     rbind (ok_or (ParseReply ''missing reply data'') (sr_data result)) (\<lambda>data.
     case pe_parse_execute_response_data env data of
       Inl _ \<Rightarrow> Inl (ProverPanic ''violated invariant: replied failed submessage with ReplyOn::Success'')
     | Inr None \<Rightarrow> Inl (InvalidContractReply ''no data'')
     | Inr (Some data) \<Rightarrow>
         rbind (ok_or (InvalidContractReply ''invalid multisig session ID'') (pe_session_id_from_json env data)) (\<lambda>multisig_session_id.
         rbind (load (REPLY_UNSIGNED_TX_HASH s)) (\<lambda>unsigned_tx_hash.
         let s = s\<lparr>MULTISIG_SESSION_ID_TO_UNSIGNED_TX_HASH :=
                      (MULTISIG_SESSION_ID_TO_UNSIGNED_TX_HASH s)(multisig_session_id \<mapsto> unsigned_tx_hash)\<rparr> in
         rbind (load (UNSIGNED_TX_HASH_TO_TX_INFO s unsigned_tx_hash)) (\<lambda>tx_info.
         let signing_started_attributes =
               concat (map snd (filter (\<lambda>(ty, _). ty = ''wasm-signing_started'') (sr_events result))) in
         rbind (ok_or (ProverPanic ''violated invariant: wasm-signing_started event missing expires_at'')
                  (find (\<lambda>(key, _). key = ''expires_at'') signing_started_attributes)) (\<lambda>(_, value).
         rbind (ok_or (ProverPanic ''violated invariant: expires_at is not a number'')
                  (Option.bind (read_nat value) try_of_nat)) (\<lambda>expires_at.
         let s = (case ti_original_cc_id tx_info of
                    None \<Rightarrow> s
                  | Some cc_id \<Rightarrow>
                      s\<lparr>CROSS_CHAIN_ID_TO_MULTISIG_SESSION := (CROSS_CHAIN_ID_TO_MULTISIG_SESSION s)
                          (cc_id \<mapsto> \<lparr>ses_id = multisig_session_id, ses_expires_at = expires_at\<rparr>)\<rparr>);
             s = s\<lparr>REPLY_UNSIGNED_TX_HASH := None\<rparr> in
         rbind (serialize_tx_to_sign lib
                  \<lparr>tts_unsigned_tx = ti_unsigned_tx tx_info, tts_unsigned_tx_hash = unsigned_tx_hash,
                   tts_cc_id = ti_original_cc_id tx_info\<rparr>) (\<lambda>unsigned_tx.
         Inr (s, response\<lparr>resp_events :=
           [ProofUnderConstruction (pc_chain_name config) unsigned_tx_hash multisig_session_id
              (map_option (\<lambda>cc_id. [cc_id]) (ti_original_cc_id tx_info)),
            XRPLSigningStarted
              (filter (\<lambda>(key, _). \<not> (key \<noteq> [] \<and> hd key = CHR ''_'') \<and> key \<noteq> ''msg'') signing_started_attributes)
              unsigned_tx]\<rparr>))))))))))"

definition START_MULTISIG_REPLY_ID :: u64 where "START_MULTISIG_REPLY_ID = 1"

definition prover_reply ::
    "xrpl_lib \<Rightarrow> prover_env \<Rightarrow> sub_reply \<Rightarrow> prover_state \<Rightarrow> prover_response prover_result" where
  "prover_reply lib env reply s =
     (if rp_id reply = START_MULTISIG_REPLY_ID then start_multisig_reply lib env reply s
      else Inl (ProverPanic ''unknown reply ID''))"

section \<open>Queries\<close>

datatype proof_status = ProofPending | ProofCompleted bytes

record proof_response =
  pf_unsigned_tx_hash :: tx_hash
  pf_status :: proof_status

definition query_proof :: "xrpl_lib \<Rightarrow> prover_env \<Rightarrow> prover_state \<Rightarrow> u64 \<Rightarrow> prover_error + proof_response" where
  "query_proof lib env s multisig_session_id =
     rbind (load (MULTISIG_SESSION_ID_TO_UNSIGNED_TX_HASH s multisig_session_id)) (\<lambda>unsigned_tx_hash.
     rbind (load (UNSIGNED_TX_HASH_TO_TX_INFO s unsigned_tx_hash)) (\<lambda>tx_info.
     rbind (ok_or (FailedToGetMultisigSession multisig_session_id) (pe_multisig env multisig_session_id)) (\<lambda>multisig_session.
     rbind (case mq_state multisig_session of
              SessionPending \<Rightarrow> Inr ProofPending
            | SessionCompleted _ \<Rightarrow>
                rbind (map_err (\<lambda>_. ProverPanic ''signer not found in verifier set'') (optimize_signatures multisig_session)) (\<lambda>signatures.
                rbind (map_err XRPLTypeConversionError (try_map (pe_signer_try_from env) signatures)) (\<lambda>xrpl_signers.
                let signed_tx = pe_signed_tx_new env (ti_unsigned_tx tx_info) xrpl_signers unsigned_tx_hash
                                  (ti_original_cc_id tx_info) in
                rbind (serialize_signed_tx lib signed_tx) (\<lambda>execute_data. Inr (ProofCompleted execute_data))))) (\<lambda>status.
     Inr \<lparr>pf_unsigned_tx_hash = unsigned_tx_hash, pf_status = status\<rparr>))))"

definition stored_verifier_set :: "xrpl_lib \<Rightarrow> verifier_set option \<Rightarrow> ms_verifier_set option" where
  "stored_verifier_set lib item =
     Option.bind item (\<lambda>set. case verifier_set_try_from lib set of Inl _ \<Rightarrow> None | Inr vs \<Rightarrow> Some vs)"

definition query_current_verifier_set :: "xrpl_lib \<Rightarrow> prover_state \<Rightarrow> ms_verifier_set option" where
  "query_current_verifier_set lib s = stored_verifier_set lib (CURRENT_VERIFIER_SET s)"

definition query_next_verifier_set :: "xrpl_lib \<Rightarrow> prover_state \<Rightarrow> ms_verifier_set option" where
  "query_next_verifier_set lib s = stored_verifier_set lib (NEXT_VERIFIER_SET s)"

definition query_ticket_create :: "prover_state \<Rightarrow> u32 \<Rightarrow> prover_error + u32" where
  "query_ticket_create s ticket_count_threshold =
     rbind (num_of_tickets_to_create s) (\<lambda>ticket_count.
     if ticket_count < ticket_count_threshold then Inl TicketCountThresholdNotReached else Inr ticket_count)"

section \<open>What a message changes\<close>

text \<open>
  The effects of a message on the storage, whatever the environment answers: a payment issued for a
  message, another transaction issued, a transaction confirmed with a verified status, a session recorded,
  a top-up of the reserve, or, for a privileged sender only, a change of the settings.
\<close>

inductive prover_effect :: "xrpl_lib \<Rightarrow> prover_env \<Rightarrow> bool \<Rightarrow> prover_state \<Rightarrow> prover_state \<Rightarrow> bool" for lib env priv where
  payment: "issue_payment lib s config dest amount cc None = Inr (u, tts) \<Longrightarrow>
    prover_effect lib env priv s (u\<lparr>REPLY_UNSIGNED_TX_HASH := Some (tts_unsigned_tx_hash tts)\<rparr>)"
| plain: "plain_issued lib (s\<lparr>NEXT_VERIFIER_SET := nv\<rparr>) u h \<Longrightarrow>
    prover_effect lib env priv s (u\<lparr>REPLY_UNSIGNED_TX_HASH := Some h\<rparr>)"
| confirm: "message_status env (ProverMessage pm) = Inr st \<Longrightarrow>
    ms_confirm_prover_message lib s (pe_gateway env) (pm_tx_id pm) (pm_unsigned_tx_hash pm) (tx_status_from lib st) = Inr (s', r) \<Longrightarrow>
    prover_effect lib env priv s s'"
| session: "prover_effect lib env priv s
    (s\<lparr>MULTISIG_SESSION_ID_TO_UNSIGNED_TX_HASH := a, CROSS_CHAIN_ID_TO_MULTISIG_SESSION := b, REPLY_UNSIGNED_TX_HASH := None\<rparr>)"
| reserve: "prover_effect lib env priv s (s\<lparr>FEE_RESERVE := f, FEE_RESERVE_TOP_UP_COUNTED := t\<rparr>)"
| settings: "priv \<Longrightarrow> prover_effect lib env priv s
    (s\<lparr>CONFIG := c, FEE_RESERVE := f, CURRENT_VERIFIER_SET := v, PERMISSIONS := p, KILLSWITCH := k\<rparr>)"

lemma hub_transfer_Inr_iff:
  "(case m of ReceiveFromHub c (ItsInterchainTransfer t) \<Rightarrow> f c t | _ \<Rightarrow> Inl e) = Inr x \<longleftrightarrow>
    (\<exists>c t. m = ReceiveFromHub c (ItsInterchainTransfer t) \<and> f c t = Inr x)"
  by (auto split: hub_message.splits its_message.splits)

lemma start_signing_session_effect:
  assumes "start_signing_session lib s config tts self vid = Inr (s', out)"
  shows "s' = s\<lparr>REPLY_UNSIGNED_TX_HASH := Some (tts_unsigned_tx_hash tts)\<rparr>"
  using assms by (auto simp: start_signing_session_def Let_def result_simps split: option.splits)

lemma settings_effect:
  assumes "s' = s\<lparr>CONFIG := CONFIG s', FEE_RESERVE := FEE_RESERVE s', CURRENT_VERIFIER_SET := CURRENT_VERIFIER_SET s',
      PERMISSIONS := PERMISSIONS s', KILLSWITCH := KILLSWITCH s'\<rparr>" and priv
  shows "prover_effect lib env priv s s'"
  by (subst assms(1)) (rule settings [OF assms(2)])

lemma reserve_effect:
  assumes "s' = s\<lparr>FEE_RESERVE := FEE_RESERVE s', FEE_RESERVE_TOP_UP_COUNTED := FEE_RESERVE_TOP_UP_COUNTED s'\<rparr>"
  shows "prover_effect lib env priv s s'"
  by (subst assms(1)) (rule reserve)

lemma construct_trust_set_proof_effect:
  assumes "construct_trust_set_proof lib env s config tid = Inr (s', out)"
  shows "prover_effect lib env priv s s'"
proof -
  from assms obtain tok u tts sub where u: "issue_trust_set lib s config tok = Inr (u, tts)"
      and s': "start_signing_session lib u config tts (pe_contract_address env) None = Inr (s', sub)"
    by (auto simp: construct_trust_set_proof_def result_simps split: if_splits)
  have "plain_issued lib (s\<lparr>NEXT_VERIFIER_SET := NEXT_VERIFIER_SET s\<rparr>) u (tts_unsigned_tx_hash tts)"
    using issue_trust_set_effect [OF u] by simp
  then show ?thesis unfolding start_signing_session_effect [OF s'] by (rule plain)
qed

lemma construct_ticket_create_proof_effect:
  assumes "construct_ticket_create_proof lib env s config = Inr (s', out)"
  shows "prover_effect lib env priv s s'"
proof -
  from assms obtain n u tts sub where u: "issue_ticket_create lib s config n = Inr (u, tts)"
      and s': "start_signing_session lib u config tts (pe_contract_address env) None = Inr (s', sub)"
    by (auto simp: construct_ticket_create_proof_def result_simps split: if_splits)
  have "plain_issued lib (s\<lparr>NEXT_VERIFIER_SET := NEXT_VERIFIER_SET s\<rparr>) u (tts_unsigned_tx_hash tts)"
    using issue_ticket_create_effect [OF u] by simp
  then show ?thesis unfolding start_signing_session_effect [OF s'] by (rule plain)
qed

lemma construct_payment_proof_effect:
  assumes "construct_payment_proof lib env s config cc payload = Inr (s', out)"
  shows "prover_effect lib env priv s s'"
proof -
  from assms consider "s' = s"
    | dest amount u tts sub where "issue_payment lib s config dest amount cc None = Inr (u, tts)"
        "start_signing_session lib u config tts (pe_contract_address env) None = Inr (s', sub)"
    by (auto simp: construct_payment_proof_def result_simps hub_transfer_Inr_iff Let_def split: if_splits)
  then show ?thesis
  proof cases
    case 1
    then show ?thesis by (intro reserve_effect) simp
  next
    case 2
    then show ?thesis using start_signing_session_effect payment by metis
  qed
qed

lemma update_verifier_set_cases:
  assumes "update_verifier_set lib env s = Inr (s', out)"
  obtains (first) v where "s' = s\<lparr>CURRENT_VERIFIER_SET := v\<rparr>"
    | (rotation) nv u h where "plain_issued lib (s\<lparr>NEXT_VERIFIER_SET := nv\<rparr>) u h" "s' = u\<lparr>REPLY_UNSIGNED_TX_HASH := Some h\<rparr>"
proof (cases "CURRENT_VERIFIER_SET s")
  case None
  with assms show thesis
    using first by (auto simp: update_verifier_set_def result_simps Let_def)
next
  case (Some cur)
  with assms obtain config nvs u v tts vid sub where n: "save_next_verifier_set s nvs = Inr (u, ())"
      and v: "issue_signer_list_set lib u config nvs = Inr (v, tts)"
      and s': "start_signing_session lib v config tts (pe_contract_address env) vid = Inr (s', sub)"
    by (auto simp: update_verifier_set_def result_simps Let_def)
  have "u = s\<lparr>NEXT_VERIFIER_SET := NEXT_VERIFIER_SET u\<rparr>"
    using n by (auto simp: save_next_verifier_set_def split: option.splits if_splits)
  then have "plain_issued lib (s\<lparr>NEXT_VERIFIER_SET := NEXT_VERIFIER_SET u\<rparr>) v (tts_unsigned_tx_hash tts)"
    using issue_signer_list_set_effect [OF v] by simp
  then show thesis by (rule rotation) (rule start_signing_session_effect [OF s'])
qed

lemma update_verifier_set_effect:
  assumes "update_verifier_set lib env s = Inr (s', out)" and priv
  shows "prover_effect lib env priv s s'"
  using assms(1)
proof (cases rule: update_verifier_set_cases)
  case (first v)
  then show ?thesis using assms(2) by (intro settings_effect) simp_all
next
  case (rotation nv u h)
  then show ?thesis by (simp add: plain)
qed

lemma confirm_prover_message_effect:
  assumes "confirm_prover_message lib env s config pm = Inr (s', out)"
  shows "prover_effect lib env priv s s'"
proof -
  from assms obtain st r where "message_status env (ProverMessage pm) = Inr st"
    "ms_confirm_prover_message lib s (pe_gateway env) (pm_tx_id pm) (pm_unsigned_tx_hash pm) (tx_status_from lib st) = Inr (s', r)"
    by (auto simp: confirm_prover_message_def result_simps split: if_splits)
  then show ?thesis by (rule confirm)
qed

lemma prover_execute_permission:
  assumes "prover_execute lib env sender msg s = Inr (s', out)"
  shows "prover_permission msg = AnyPermission \<or> is_elevated (PERMISSIONS s) sender"
    and "prover_permission msg = Governance \<Longrightarrow> governance (PERMISSIONS s) = Some sender"
proof -
  have e: "ensure_permissions (PERMISSIONS s) sender ([] :: (unit + addr) list) [prover_permission msg] = Inr ()"
    using assms by (auto simp: prover_execute_def result_simps)
  have "prover_permission msg = AnyPermission \<or> prover_permission msg = Governance \<or> prover_permission msg = Elevated"
    by (cases msg) (simp_all add: prover_permission_def)
  then show "prover_permission msg = AnyPermission \<or> is_elevated (PERMISSIONS s) sender"
    using e by (auto simp: ensure_elevated ensure_governance)
  show "prover_permission msg = Governance \<Longrightarrow> governance (PERMISSIONS s) = Some sender"
    using e by (simp add: ensure_governance)
qed

lemma update_config_effect:
  assumes "update_config s f = Inr (s', out)" and priv
  shows "prover_effect lib env priv s s'"
proof -
  obtain c where "s' = s\<lparr>CONFIG := c\<rparr>"
    using assms(1) by (auto simp: update_config_def result_simps)
  then show ?thesis using assms(2) by (intro settings_effect) simp_all
qed

lemma settings_handlers_effect:
  assumes priv
  shows "update_fee_reserve s n = Inr (s', out) \<Longrightarrow> prover_effect lib env priv s s'"
    and "update_admin env s a = Inr (s', out) \<Longrightarrow> prover_effect lib env priv s s'"
    and "disable_execution s = Inr (s', out) \<Longrightarrow> prover_effect lib env priv s s'"
    and "enable_execution s = Inr (s', out) \<Longrightarrow> prover_effect lib env priv s s'"
  by (rule settings_effect [OF _ assms], auto simp: update_fee_reserve_def update_admin_def disable_execution_def
      enable_execution_def result_simps)+

lemma confirm_add_reserves_message_effect:
  assumes "confirm_add_reserves_message env s m = Inr (s', out)"
  shows "prover_effect lib env priv s s'"
  using assms by (intro reserve_effect) (auto simp: confirm_add_reserves_message_def Let_def result_simps split: if_splits)

lemma prover_execute_effect:
  assumes "prover_execute lib env sender msg s = Inr (s', out)"
  shows "prover_effect lib env (is_elevated (PERMISSIONS s) sender) s s'"
proof -
  note perm = prover_execute_permission(1) [OF assms]
  show ?thesis
  proof (cases msg)
    case (ConstructProof cc payload)
    then obtain config where "construct_payment_proof lib env s config cc payload = Inr (s', out)"
      using assms by (auto simp: prover_execute_def result_simps)
    then show ?thesis by (rule construct_payment_proof_effect)
  next
    case UpdateVerifierSet
    then have "update_verifier_set lib env s = Inr (s', out)" "is_elevated (PERMISSIONS s) sender"
      using assms perm by (auto simp: prover_execute_def result_simps prover_permission_def)
    then show ?thesis by (rule update_verifier_set_effect)
  next
    case (ConfirmProverMessage pm)
    then obtain config where "confirm_prover_message lib env s config pm = Inr (s', out)"
      using assms by (auto simp: prover_execute_def result_simps)
    then show ?thesis by (rule confirm_prover_message_effect)
  next
    case (ConfirmAddReservesMessage m)
    then have "confirm_add_reserves_message env s m = Inr (s', out)"
      using assms by (simp add: prover_execute_def result_simps)
    then show ?thesis by (rule confirm_add_reserves_message_effect)
  next
    case TicketCreateMsg
    then obtain config where "construct_ticket_create_proof lib env s config = Inr (s', out)"
      using assms by (auto simp: prover_execute_def result_simps)
    then show ?thesis by (rule construct_ticket_create_proof_effect)
  next
    case (TrustSetMsg tid)
    then obtain config where "construct_trust_set_proof lib env s config tid = Inr (s', out)"
      using assms by (auto simp: prover_execute_def result_simps)
    then show ?thesis by (rule construct_trust_set_proof_effect)
  next
    case (VerifySignature sg m k a i)
    then have "s' = s"
      using assms by (auto simp: prover_execute_def result_simps verify_signature_def split: if_splits)
    then show ?thesis by (intro reserve_effect) simp
  next
    case DisableExecution
    then have "is_elevated (PERMISSIONS s) sender" "disable_execution s = Inr (s', out)"
      using assms perm by (simp_all add: prover_execute_def result_simps prover_permission_def)
    then show ?thesis by (rule settings_handlers_effect)
  next
    case EnableExecution
    then have "is_elevated (PERMISSIONS s) sender" "enable_execution s = Inr (s', out)"
      using assms perm by (simp_all add: prover_execute_def result_simps prover_permission_def)
    then show ?thesis by (rule settings_handlers_effect)
  next
    case (UpdateFeeReserve n)
    then have "is_elevated (PERMISSIONS s) sender" "update_fee_reserve s n = Inr (s', out)"
      using assms perm by (simp_all add: prover_execute_def result_simps prover_permission_def)
    then show ?thesis by (rule settings_handlers_effect)
  next
    case (UpdateAdmin a)
    then have "is_elevated (PERMISSIONS s) sender" "update_admin env s a = Inr (s', out)"
      using assms perm by (simp_all add: prover_execute_def result_simps prover_permission_def)
    then show ?thesis by (rule settings_handlers_effect)
  next
    case (UpdateSigningThreshold t)
    then have "update_signing_threshold s t = Inr (s', out)" "is_elevated (PERMISSIONS s) sender"
      using assms perm by (simp_all add: prover_execute_def result_simps prover_permission_def)
    then show ?thesis unfolding update_signing_threshold_def by (rule update_config_effect)
  next
    case (UpdateXrplTransactionFee n)
    then have "update_xrpl_transaction_fee s n = Inr (s', out)" "is_elevated (PERMISSIONS s) sender"
      using assms perm by (simp_all add: prover_execute_def result_simps prover_permission_def)
    then show ?thesis unfolding update_xrpl_transaction_fee_def by (rule update_config_effect)
  next
    case (UpdateXrplReserves m n)
    then have "update_xrpl_reserves s m n = Inr (s', out)" "is_elevated (PERMISSIONS s) sender"
      using assms perm by (simp_all add: prover_execute_def result_simps prover_permission_def)
    then show ?thesis unfolding update_xrpl_reserves_def by (rule update_config_effect)
  qed
qed

lemma parsed_reply_Inr_iff:
  "(case p of Inl _ \<Rightarrow> Inl e | Inr None \<Rightarrow> Inl e' | Inr (Some d) \<Rightarrow> f d) = Inr x \<longleftrightarrow> (\<exists>d. p = Inr (Some d) \<and> f d = Inr x)"
  by (auto split: sum.splits option.splits)

lemma prover_reply_sessions:
  assumes "prover_reply lib env reply s = Inr (s', out)"
  shows "\<exists>a b. s' = s\<lparr>MULTISIG_SESSION_ID_TO_UNSIGNED_TX_HASH := a, CROSS_CHAIN_ID_TO_MULTISIG_SESSION := b,
    REPLY_UNSIGNED_TX_HASH := None\<rparr>"
proof -
  have "start_multisig_reply lib env reply s = Inr (s', out)"
    using assms by (simp add: prover_reply_def split: if_splits)
  then obtain u cc i h e where u: "u = s\<lparr>MULTISIG_SESSION_ID_TO_UNSIGNED_TX_HASH := (MULTISIG_SESSION_ID_TO_UNSIGNED_TX_HASH s)(i \<mapsto> h)\<rparr>"
    and s': "s' = (case cc of None \<Rightarrow> u
      | Some c \<Rightarrow> u\<lparr>CROSS_CHAIN_ID_TO_MULTISIG_SESSION := (CROSS_CHAIN_ID_TO_MULTISIG_SESSION u)
            (c \<mapsto> \<lparr>ses_id = i, ses_expires_at = e\<rparr>)\<rparr>)\<lparr>REPLY_UNSIGNED_TX_HASH := None\<rparr>"
    by (auto simp: start_multisig_reply_def result_simps parsed_reply_Inr_iff Let_def)
  have "s' = s\<lparr>MULTISIG_SESSION_ID_TO_UNSIGNED_TX_HASH := MULTISIG_SESSION_ID_TO_UNSIGNED_TX_HASH s',
      CROSS_CHAIN_ID_TO_MULTISIG_SESSION := CROSS_CHAIN_ID_TO_MULTISIG_SESSION s', REPLY_UNSIGNED_TX_HASH := None\<rparr>"
    by (cases cc) (simp_all add: s' u)
  then show ?thesis by blast
qed

lemma prover_reply_effect:
  assumes "prover_reply lib env reply s = Inr (s', out)"
  shows "prover_effect lib env priv s s'"
  using prover_reply_sessions [OF assms] session by metis

section \<open>Invariants of the contract\<close>

datatype prover_call = Execute prover_env addr prover_msg | Reply prover_env sub_reply

primrec prover_step :: "xrpl_lib \<Rightarrow> prover_call \<Rightarrow> prover_state \<Rightarrow> prover_error + prover_state" where
  "prover_step lib (Execute env sender msg) s = new_state (prover_execute lib env sender msg s)"
| "prover_step lib (Reply env reply) s = new_state (prover_reply lib env reply s)"

lemma prover_step_effect: "prover_step lib call s = Inr s' \<Longrightarrow> \<exists>env priv. prover_effect lib env priv s s'"
  by (cases call) (auto simp: result_simps dest: prover_execute_effect prover_reply_effect)

definition trust_lines :: "prover_state \<Rightarrow> nat" where
  "trust_lines s = card (dom (TRUST_LINE s))"

definition prover_inv :: "prover_state \<Rightarrow> bool" where
  "prover_inv s \<longleftrightarrow>
     (\<forall>tickets. AVAILABLE_TICKETS s = Some tickets \<longrightarrow> length tickets \<le> 250) \<and>
     finite (dom (TRUST_LINE s)) \<and>
     trust_lines s = (case TRUST_LINE_COUNT s of None \<Rightarrow> 0 | Some n \<Rightarrow> unat n)"

lemma prover_inv_cong:
  assumes "prover_inv s" "AVAILABLE_TICKETS s' = AVAILABLE_TICKETS s" "TRUST_LINE s' = TRUST_LINE s"
    and "TRUST_LINE_COUNT s' = TRUST_LINE_COUNT s"
  shows "prover_inv s'"
  using assms(1) unfolding prover_inv_def trust_lines_def assms(2-4) .

lemma prover_inv_confirm:
  assumes inv: "prover_inv s" and "ms_confirm_prover_message lib s gw tx h st = Inr (s', r)"
  shows "prover_inv s'"
proof -
  from assms(2) obtain u ti' where u: "record_confirmation lib s h st = Inr (u, ti')"
    and r: "(if st \<noteq> TxSucceeded then Inr (u, None, None) else apply_confirmed lib u gw tx ti') = Inr (s', r)"
    by (auto simp: ms_confirm_prover_message_def result_simps)
  have inv_u: "prover_inv u"
    using u
  proof (rule record_confirmation_effect)
    fix ti :: tx_info and tickets inc nxt
    assume tks: "AVAILABLE_TICKETS s = Some tickets"
      and u_eq: "u = s\<lparr>NEXT_SEQUENCE_NUMBER := nxt,
            CONSUMED_TICKET_TO_UNSIGNED_TX_HASH :=
              (CONSUMED_TICKET_TO_UNSIGNED_TX_HASH s)(tx_sequence_number lib (ti_unsigned_tx ti) \<mapsto> h),
            AVAILABLE_TICKETS := Some (filter (\<lambda>x. x \<noteq> tx_sequence_number lib (ti_unsigned_tx ti)) tickets),
            UNSIGNED_TX_HASH_TO_TX_INFO := (UNSIGNED_TX_HASH_TO_TX_INFO s)(h \<mapsto> ti\<lparr>ti_status := st\<rparr>)\<rparr>"
    have "length (filter (\<lambda>x. x \<noteq> tx_sequence_number lib (ti_unsigned_tx ti)) tickets) \<le> 250"
      using inv tks by (intro order_trans [OF length_filter_le]) (auto simp: prover_inv_def)
    then show "prover_inv u"
      using inv by (simp add: prover_inv_def trust_lines_def u_eq)
  qed
  show ?thesis
  proof (cases "st = TxSucceeded")
    case False
    then show ?thesis using r inv_u by simp
  next
    case True
    obtain vs ev where "apply_confirmed lib u gw tx ti' = Inr (s', vs, ev)"
      using r True by (cases r) auto
    then show ?thesis
    proof (cases rule: apply_confirmed_effect)
      case (tickets tx start end' tks)
      have "length (tks @ word_range start end') \<le> 250" using tickets(3-5) by simp
      then show ?thesis using inv_u tickets(6) by (simp add: prover_inv_def trust_lines_def)
    next
      case (signers tx nvs)
      then show ?thesis using prover_inv_cong [OF inv_u] by simp
    next
      case unchanged
      then show ?thesis using inv_u by simp
    next
      case (trust_line tx n)
      then have "dom (TRUST_LINE s') = insert (ts_token tx) (dom (TRUST_LINE u))" "ts_token tx \<notin> dom (TRUST_LINE u)"
        by auto
      then show ?thesis using inv_u trust_line(3,4) by (auto simp: prover_inv_def trust_lines_def split: option.splits)
    qed
  qed
qed

lemma prover_inv_effect:
  assumes "prover_effect lib env priv s s'" and inv: "prover_inv s"
  shows "prover_inv s'"
  using assms
proof (cases rule: prover_effect.cases)
  case (payment config dest amount cc u tts)
  from payment(2) show ?thesis
    unfolding payment(1) by (rule issue_payment_effect) (rule prover_inv_cong [OF inv], simp_all)
next
  case (plain nv u h)
  then show ?thesis
    unfolding plain(1) by (auto simp: plain_issued_def intro!: prover_inv_cong [OF inv])
next
  case (confirm pm st r)
  then show ?thesis using prover_inv_confirm [OF inv] by blast
qed (auto intro!: prover_inv_cong [OF inv])

interpretation prv: contract_invariant "prover_step lib" prover_inv for lib
  by unfold_locales (blast dest: prover_step_effect intro: prover_inv_effect)

lemma prover_inv_instantiate:
  assumes "prover_instantiate env msg = Inr s" "length (im_available_tickets msg) \<le> 250"
  shows "prover_inv s"
  using assms by (auto simp: prover_instantiate_def result_simps Let_def prover_inv_def trust_lines_def)

section \<open>Examples\<close>

definition demo_prover_env :: prover_env where
  "demo_prover_env =
     \<lparr>pe_gateway = demo_gateway\<lparr>gq_outgoing_messages := (\<lambda>_. Some [\<lparr>msg_cc_id = demo_cc, msg_source_address = ''hub'',
          msg_destination_chain = ''xrpl'', msg_destination_address = ''rcv'', msg_payload_hash = [1]\<rparr>])\<rparr>,
      pe_verifiers = demo_verifiers_env,
      pe_messages_status = (\<lambda>ms. Some (map (\<lambda>m. (m, SucceededOnSourceChain)) ms)),
      pe_multisig = (\<lambda>_. None), pe_crypto = demo_ms_env,
      pe_abi_decode = (\<lambda>_. Some (ReceiveFromHub ''avalanche'' (ItsInterchainTransfer
          \<lparr>it_token_id = replicate 32 9, it_source_address = [1], it_destination_address = replicate 20 65,
           it_amount = 77, it_data = None\<rparr>))),
      pe_signer_try_from = (\<lambda>_. Inl (XRPLError ''signer'')),
      pe_signed_tx_new = (\<lambda>tx sg h cc. \<lparr>stx_unsigned_tx = tx, stx_signers = sg, stx_unsigned_tx_hash = h, stx_cc_id = cc\<rparr>),
      pe_parse_execute_response_data = (\<lambda>b. Inr (Some b)), pe_session_id_from_json = (\<lambda>_. Some 1),
      pe_contract_address = ''prover'', pe_block_height = 7\<rparr>"

definition demo_instantiate_msg :: prover_instantiate_msg where
  "demo_instantiate_msg =
     \<lparr>im_admin_address = ''admin'', im_governance_address = ''governance'', im_config = demo_config,
      im_initial_fee_reserve = 100000, im_available_tickets = [3, 5, 8], im_next_sequence_number = 10,
      im_last_assigned_ticket_number = 4\<rparr>"

definition demo_threshold' :: threshold where
  "demo_threshold' = demo_threshold\<lparr>numerator := 1, denominator := 1\<rparr>"

section \<open>Properties\<close>

text \<open>
  C23: In every state the prover can reach, whatever the other contracts answer, at most 250 tickets are
  available (the ledger's limit), and the reserve the prover computes for the account is the base reserve
  plus the owner reserve for 250 tickets, the signer list and exactly the confirmed trust lines.\<close>

theorem prover_reserve_and_tickets:
  assumes "prover_instantiate env msg = Inr s0" "length (im_available_tickets msg) \<le> 250" "run (prover_step lib) s0 s"
  shows "(\<forall>tickets. AVAILABLE_TICKETS s = Some tickets \<longrightarrow> length tickets \<le> 250) \<and>
    (\<forall>config r. account_reserve s config = Inr r \<longrightarrow>
       unat r = unat (pc_xrpl_base_reserve config) + unat (pc_xrpl_owner_reserve config) * (251 + card (dom (TRUST_LINE s))))"
proof -
  have inv: "prover_inv s"
    by (rule prv.run_inv [OF assms(3) prover_inv_instantiate [OF assms(1,2)]])
  have "unat r = unat (pc_xrpl_base_reserve config) + unat (pc_xrpl_owner_reserve config) * (251 + card (dom (TRUST_LINE s)))"
    if "account_reserve s config = Inr r" for config r
    using that inv by (auto simp: account_reserve_def prover_inv_def trust_lines_def result_simps checked_simps
        XRPL_MULTISIG_FIXED_OWNED_OBJECTS_def MAX_TICKET_COUNT_def split: option.splits)
  then show ?thesis using inv by (simp add: prover_inv_def)
qed

theorem prover_reserve_and_tickets_witness:
  "\<exists>s. prover_instantiate demo_prover_env demo_instantiate_msg = Inr s \<and>
     (\<forall>r. account_reserve s demo_config = Inr r \<longrightarrow> unat r = 3510)"
proof -
  obtain s where s: "prover_instantiate demo_prover_env demo_instantiate_msg = Inr s" and t: "TRUST_LINE s = Map.empty"
    by (simp add: prover_instantiate_def demo_prover_env_def demo_instantiate_msg_def demo_config_def demo_ms_env_def)
  have "length (im_available_tickets demo_instantiate_msg) \<le> 250" by (simp add: demo_instantiate_msg_def)
  from prover_reserve_and_tickets [OF s this run_refl] show ?thesis
    using s t by (auto simp: demo_config_def)
qed

lemma issue_keeps_settings:
  assumes "issue_payment lib s config dest amount cc cco = Inr (s', tts)"
  shows "CONFIG s' = CONFIG s" "PERMISSIONS s' = PERMISSIONS s" "KILLSWITCH s' = KILLSWITCH s"
  using assms by (rule issue_payment_effect, simp)+

lemma plain_keeps_settings:
  assumes "plain_issued lib s s' h"
  shows "CONFIG s' = CONFIG s" "PERMISSIONS s' = PERMISSIONS s" "KILLSWITCH s' = KILLSWITCH s"
  using assms by (auto simp: plain_issued_def)

lemma confirm_keeps_settings:
  assumes "ms_confirm_prover_message lib s gw tx h st = Inr (s', r)"
  shows "CONFIG s' = CONFIG s \<and> PERMISSIONS s' = PERMISSIONS s \<and> KILLSWITCH s' = KILLSWITCH s"
proof -
  from assms obtain u ti' where u: "record_confirmation lib s h st = Inr (u, ti')"
    and r: "(if st \<noteq> TxSucceeded then Inr (u, None, None) else apply_confirmed lib u gw tx ti') = Inr (s', r)"
    by (auto simp: ms_confirm_prover_message_def result_simps)
  have "CONFIG u = CONFIG s \<and> PERMISSIONS u = PERMISSIONS s \<and> KILLSWITCH u = KILLSWITCH s"
    using u by (rule record_confirmation_effect) simp
  moreover have "CONFIG s' = CONFIG u \<and> PERMISSIONS s' = PERMISSIONS u \<and> KILLSWITCH s' = KILLSWITCH u"
    using r by (auto split: if_splits elim: apply_confirmed_frame)
  ultimately show ?thesis by simp
qed

lemma settings_kept:
  assumes "prover_effect lib env False s s'"
  shows "CONFIG s' = CONFIG s \<and> PERMISSIONS s' = PERMISSIONS s \<and> KILLSWITCH s' = KILLSWITCH s"
  using assms by (cases rule: prover_effect.cases)
    (auto simp: issue_keeps_settings plain_keeps_settings dest: confirm_keeps_settings)

lemma prover_keeps_signing_threshold:
  assumes "prover_execute lib env sender msg s = Inr (s', out)" "\<And>t. msg \<noteq> UpdateSigningThreshold t"
  shows "map_option pc_signing_threshold (CONFIG s') = map_option pc_signing_threshold (CONFIG s)"
proof -
  from assms(1) obtain config where c: "CONFIG s = Some config"
      and h: "(case msg of
       TrustSetMsg token_id \<Rightarrow> construct_trust_set_proof lib env s config token_id
     | ConstructProof cc_id payload \<Rightarrow> construct_payment_proof lib env s config cc_id payload
     | UpdateVerifierSet \<Rightarrow> update_verifier_set lib env s
     | ConfirmProverMessage prover_message \<Rightarrow> confirm_prover_message lib env s config prover_message
     | TicketCreateMsg \<Rightarrow> construct_ticket_create_proof lib env s config
     | UpdateFeeReserve new_fee_reserve \<Rightarrow> update_fee_reserve s new_fee_reserve
     | UpdateSigningThreshold new_signing_threshold \<Rightarrow> update_signing_threshold s new_signing_threshold
     | UpdateXrplTransactionFee new_transaction_fee \<Rightarrow> update_xrpl_transaction_fee s new_transaction_fee
     | UpdateXrplReserves new_base_reserve new_owner_reserve \<Rightarrow>
         update_xrpl_reserves s new_base_reserve new_owner_reserve
     | UpdateAdmin new_admin_address \<Rightarrow> update_admin env s new_admin_address
     | ConfirmAddReservesMessage add_reserves_message \<Rightarrow> confirm_add_reserves_message env s add_reserves_message
     | VerifySignature signature message public_key _ _ \<Rightarrow>
         rbind (map_err (\<lambda>_. InvalidSignature) (signature_try_from KeyEcdsa signature)) (\<lambda>signature.
         verify_signature lib env s message (Ecdsa public_key) signature)
     | DisableExecution \<Rightarrow> disable_execution s
     | EnableExecution \<Rightarrow> enable_execution s) = Inr (s', out)"
    by (auto simp: prover_execute_def result_simps)
  show ?thesis
  proof (cases msg)
    case UpdateVerifierSet
    with h have "update_verifier_set lib env s = Inr (s', out)" by simp
    then show ?thesis
      by (cases rule: update_verifier_set_cases) (auto simp: plain_keeps_settings)
  qed (use h c assms(2) in \<open>auto simp: result_simps update_fee_reserve_def update_admin_def disable_execution_def
      enable_execution_def update_xrpl_transaction_fee_def update_xrpl_reserves_def update_config_def item_update_def
      item_load_def verify_signature_def split: if_splits
      dest!: settings_kept [OF construct_trust_set_proof_effect] settings_kept [OF construct_payment_proof_effect]
        settings_kept [OF construct_ticket_create_proof_effect] settings_kept [OF confirm_prover_message_effect]
        settings_kept [OF confirm_add_reserves_message_effect]\<close>)
qed

text \<open>
  C24: The settings of the prover are guarded. A message that changes the configuration, the admin or the
  killswitch comes from the admin or from governance, and one that changes the signing threshold comes from
  governance.\<close>

theorem prover_settings_guarded:
  assumes "prover_execute lib env sender msg s = Inr (s', out)"
  shows "((CONFIG s', PERMISSIONS s', KILLSWITCH s') \<noteq> (CONFIG s, PERMISSIONS s, KILLSWITCH s) \<longrightarrow>
       is_elevated (PERMISSIONS s) sender) \<and>
    (map_option pc_signing_threshold (CONFIG s') \<noteq> map_option pc_signing_threshold (CONFIG s) \<longrightarrow>
       governance (PERMISSIONS s) = Some sender)"
proof -
  have same: "(CONFIG s', PERMISSIONS s', KILLSWITCH s') = (CONFIG s, PERMISSIONS s, KILLSWITCH s)"
    if "\<not> is_elevated (PERMISSIONS s) sender"
    using prover_execute_effect [OF assms] that
    by (cases rule: prover_effect.cases)
      (auto simp: issue_keeps_settings plain_keeps_settings dest: confirm_keeps_settings)
  have "map_option pc_signing_threshold (CONFIG s') = map_option pc_signing_threshold (CONFIG s)"
    if "prover_permission msg \<noteq> Governance"
    using prover_keeps_signing_threshold [OF assms] that by (cases msg) (auto simp: prover_permission_def)
  then show ?thesis using same prover_execute_permission(2) [OF assms] by blast
qed

theorem prover_settings_guarded_witness:
  "\<exists>s' out. prover_execute demo_lib demo_prover_env ''governance'' (UpdateSigningThreshold demo_threshold') demo_prover
       = Inr (s', out) \<and> governance (PERMISSIONS demo_prover) = Some ''governance''"
proof -
  have "case prover_execute demo_lib demo_prover_env ''governance'' (UpdateSigningThreshold demo_threshold') demo_prover of
      Inl _ \<Rightarrow> False
    | Inr (s', _) \<Rightarrow> map_option pc_signing_threshold (CONFIG s') \<noteq> map_option pc_signing_threshold (CONFIG demo_prover)"
    by code_simp
  then obtain s' out where s': "prover_execute demo_lib demo_prover_env ''governance''
        (UpdateSigningThreshold demo_threshold') demo_prover = Inr (s', out)"
      and "map_option pc_signing_threshold (CONFIG s') \<noteq> map_option pc_signing_threshold (CONFIG demo_prover)"
    by (auto simp: case_Inr_iff)
  then show ?thesis using prover_settings_guarded [OF s'] by blast
qed

end
