(* ===== verification/Xrpl_Bridge.thy ===== *)
theory Xrpl_Bridge
  imports Xrpl_Prover
begin

text \<open>
  The prover together with the ledger its transactions are submitted to. The ledger is what the documents
  of the repository rely on: it applies a transaction of the multisig account only if its sequence or
  ticket number was not used before, so every number is used by at most one transaction, which either
  succeeds or fails. Which of the issued transactions are submitted, in which order and how they end is
  arbitrary. The prover learns about the ledger only through the voting verifier; \<open>truthful\<close> says that a
  status confirmed by the verifier is what happened on the ledger.

  Shown here, for every interleaving of messages, replies and ledger steps: a message is never paid twice,
  and the tickets the prover considers available are in order and below its sequence number.
\<close>

type_synonym ledger = "u32 \<Rightarrow> (tx_hash \<times> bool) option"

definition issued_number :: "xrpl_lib \<Rightarrow> tx_info \<Rightarrow> u32" where
  "issued_number lib ti = tx_sequence_number lib (ti_unsigned_tx ti)"

definition truthful :: "xrpl_lib \<Rightarrow> prover_env \<Rightarrow> prover_state \<Rightarrow> ledger \<Rightarrow> bool" where
  "truthful lib env s L \<longleftrightarrow>
     (\<forall>pm st ti. message_status env (ProverMessage pm) = Inr st \<longrightarrow>
        UNSIGNED_TX_HASH_TO_TX_INFO s (pm_unsigned_tx_hash pm) = Some ti \<longrightarrow>
        (tx_status_from lib st = TxSucceeded \<longrightarrow> L (issued_number lib ti) = Some (pm_unsigned_tx_hash pm, True)) \<and>
        (tx_status_from lib st = TxFailedOnChain \<longrightarrow> L (issued_number lib ti) = Some (pm_unsigned_tx_hash pm, False)))"

inductive bridge :: "xrpl_lib \<Rightarrow> prover_state \<Rightarrow> prover_state \<Rightarrow> ledger \<Rightarrow> bool" for lib s0 where
  start: "bridge lib s0 s0 Map.empty"
| message: "bridge lib s0 s L \<Longrightarrow> truthful lib env s L \<Longrightarrow> prover_execute lib env sender msg s = Inr (s', out) \<Longrightarrow>
    bridge lib s0 s' L"
| reply: "bridge lib s0 s L \<Longrightarrow> prover_reply lib env answer s = Inr (s', out) \<Longrightarrow> bridge lib s0 s' L"
| ledger: "bridge lib s0 s L \<Longrightarrow> UNSIGNED_TX_HASH_TO_TX_INFO s h = Some ti \<Longrightarrow> L (issued_number lib ti) = None \<Longrightarrow>
    bridge lib s0 s (L(issued_number lib ti \<mapsto> (h, ok)))"

text \<open>
  What is used of \<open>xrpl_types\<close>: transactions have different hashes, the number of a transaction is the one in
  its sequence field, and a transaction with a ticket does not advance the sequence number, while one
  without a ticket advances it by one and a successful ticket creation by one more for each ticket.
\<close>

definition sequence_laws :: "xrpl_lib \<Rightarrow> bool" where
  "sequence_laws lib \<longleftrightarrow>
     (\<forall>tx tx' h. hash_unsigned_tx lib tx = Inr h \<longrightarrow> hash_unsigned_tx lib tx' = Inr h \<longrightarrow> tx = tx') \<and>
     (\<forall>tx. tx_sequence_number lib tx = sequence_u32 (unsigned_tx_sequence tx)) \<and>
     (\<forall>tx st inc. sequence_number_increment lib tx st = Inr inc \<longrightarrow> st = TxSucceeded \<or> st = TxFailedOnChain \<longrightarrow>
        unat inc = (case unsigned_tx_sequence tx of
                      Ticket _ \<Rightarrow> 0
                    | Plain _ \<Rightarrow> (case tx of TicketCreate tc \<Rightarrow> if st = TxSucceeded then unat (tc_ticket_count tc) + 1 else 1
                                 | _ \<Rightarrow> 1)))"

definition paid :: "prover_state \<Rightarrow> ledger \<Rightarrow> u32 \<Rightarrow> cross_chain_id \<Rightarrow> bool" where
  "paid s L n cc \<longleftrightarrow>
     (case L n of
        Some (h, True) \<Rightarrow>
          (case UNSIGNED_TX_HASH_TO_TX_INFO s h of
             Some ti \<Rightarrow> (case ti_unsigned_tx ti of Payment p \<Rightarrow> pay_cc_id p = Some cc | _ \<Rightarrow> False)
           | None \<Rightarrow> False)
      | _ \<Rightarrow> False)"

section \<open>The invariants\<close>

text \<open>A transaction the prover issued: its hash is its key, and a payment has a ticket and its message.\<close>

definition tx_ok :: "tx_info \<Rightarrow> bool" where
  "tx_ok ti \<longleftrightarrow>
     (case ti_unsigned_tx ti of
        Payment p \<Rightarrow> pay_cc_id p = ti_original_cc_id ti \<and> pay_cc_id p \<noteq> None \<and> (\<exists>t. pay_sequence p = Ticket t)
      | tx \<Rightarrow> ti_original_cc_id ti = None \<and> (\<exists>k. unsigned_tx_sequence tx = Plain k))"

lemma tx_ok_status [simp]: "tx_ok (ti\<lparr>ti_status := st\<rparr>) = tx_ok ti"
  by (simp add: tx_ok_def split: xrpl_unsigned_tx.splits)

definition issued_inv :: "xrpl_lib \<Rightarrow> prover_state \<Rightarrow> ledger \<Rightarrow> bool" where
  "issued_inv lib s L \<longleftrightarrow>
     (\<forall>h ti. UNSIGNED_TX_HASH_TO_TX_INFO s h = Some ti \<longrightarrow> hash_unsigned_tx lib (ti_unsigned_tx ti) = Inr h \<and> tx_ok ti) \<and>
     (\<forall>n h ok. L n = Some (h, ok) \<longrightarrow>
        (\<exists>ti. UNSIGNED_TX_HASH_TO_TX_INFO s h = Some ti \<and> issued_number lib ti = n))"

text \<open>The ledger used the ticket for something else than paying the message.\<close>

definition dead :: "prover_state \<Rightarrow> ledger \<Rightarrow> cross_chain_id \<Rightarrow> u32 \<Rightarrow> bool" where
  "dead s L cc t \<longleftrightarrow>
     (\<exists>h ok ti. L t = Some (h, ok) \<and> UNSIGNED_TX_HASH_TO_TX_INFO s h = Some ti \<and> (\<not> ok \<or> ti_original_cc_id ti \<noteq> Some cc))"

definition payment_inv :: "prover_state \<Rightarrow> ledger \<Rightarrow> bool" where
  "payment_inv s L \<longleftrightarrow>
     (\<forall>h ti cc t. UNSIGNED_TX_HASH_TO_TX_INFO s h = Some ti \<longrightarrow> ti_original_cc_id ti = Some cc \<longrightarrow>
        unsigned_tx_sequence (ti_unsigned_tx ti) = Ticket t \<longrightarrow> CROSS_CHAIN_ID_TO_TICKET s cc = Some t \<or> dead s L cc t) \<and>
     (\<forall>t h. CONSUMED_TICKET_TO_UNSIGNED_TX_HASH s t = Some h \<longrightarrow>
        (\<exists>ok ti. L t = Some (h, ok) \<and> UNSIGNED_TX_HASH_TO_TX_INFO s h = Some ti \<and>
           (ti_status ti = TxFailedOnChain \<longrightarrow> \<not> ok)))"

text \<open>A sequence number whose use on the ledger was confirmed to the prover.\<close>

definition settled :: "prover_state \<Rightarrow> ledger \<Rightarrow> u32 \<Rightarrow> bool" where
  "settled s L k \<longleftrightarrow>
     (\<exists>h ok ti. L k = Some (h, ok) \<and> UNSIGNED_TX_HASH_TO_TX_INFO s h = Some ti \<and>
        unsigned_tx_sequence (ti_unsigned_tx ti) = Plain k \<and> ti_status ti \<noteq> TxPending)"

definition ticket_inv :: "prover_state \<Rightarrow> ledger \<Rightarrow> bool" where
  "ticket_inv s L \<longleftrightarrow>
     (\<exists>n tickets. NEXT_SEQUENCE_NUMBER s = Some n \<and> AVAILABLE_TICKETS s = Some tickets \<and>
        sorted_wrt (<) tickets \<and> (\<forall>t \<in> set tickets. t < n) \<and>
        (\<forall>h ti k. UNSIGNED_TX_HASH_TO_TX_INFO s h = Some ti \<longrightarrow> unsigned_tx_sequence (ti_unsigned_tx ti) = Plain k \<longrightarrow>
           k \<le> n \<and> (k < n \<longrightarrow> settled s L k)))"

text \<open>A number that was used is below the next sequence number and not an available ticket.\<close>

definition consumed_inv :: "prover_state \<Rightarrow> bool" where
  "consumed_inv s \<longleftrightarrow>
     (\<exists>n tickets. NEXT_SEQUENCE_NUMBER s = Some n \<and> AVAILABLE_TICKETS s = Some tickets \<and>
        (\<forall>cc t. CROSS_CHAIN_ID_TO_TICKET s cc = Some t \<longrightarrow> t < n) \<and>
        (\<forall>h ti t. UNSIGNED_TX_HASH_TO_TX_INFO s h = Some ti \<longrightarrow>
           unsigned_tx_sequence (ti_unsigned_tx ti) = Ticket t \<longrightarrow> t < n) \<and>
        (\<forall>t. CONSUMED_TICKET_TO_UNSIGNED_TX_HASH s t \<noteq> None \<longrightarrow> t < n \<and> t \<notin> set tickets))"

definition bridge_inv :: "xrpl_lib \<Rightarrow> prover_state \<Rightarrow> ledger \<Rightarrow> bool" where
  "bridge_inv lib s L \<longleftrightarrow> issued_inv lib s L \<and> payment_inv s L \<and> ticket_inv s L \<and> consumed_inv s"

lemma bridge_inv_cong:
  assumes "bridge_inv lib s L" "UNSIGNED_TX_HASH_TO_TX_INFO s' = UNSIGNED_TX_HASH_TO_TX_INFO s"
    "CROSS_CHAIN_ID_TO_TICKET s' = CROSS_CHAIN_ID_TO_TICKET s"
    "CONSUMED_TICKET_TO_UNSIGNED_TX_HASH s' = CONSUMED_TICKET_TO_UNSIGNED_TX_HASH s"
    "NEXT_SEQUENCE_NUMBER s' = NEXT_SEQUENCE_NUMBER s" "AVAILABLE_TICKETS s' = AVAILABLE_TICKETS s"
  shows "bridge_inv lib s' L"
  using assms(1) unfolding bridge_inv_def issued_inv_def payment_inv_def ticket_inv_def consumed_inv_def settled_def dead_def assms(2-6) .

section \<open>The ledger\<close>

lemma bridge_inv_ledger:
  assumes inv: "bridge_inv lib s L" and ti: "UNSIGNED_TX_HASH_TO_TX_INFO s h = Some ti"
    and new: "L (issued_number lib ti) = None"
  shows "bridge_inv lib s (L(issued_number lib ti \<mapsto> (h, ok)))"
proof -
  have L: "(L(issued_number lib ti \<mapsto> (h, ok))) n = Some e" if "L n = Some e" for n e
    using that new by (cases "n = issued_number lib ti") auto
  have i: "issued_inv lib s (L(issued_number lib ti \<mapsto> (h, ok)))"
    using inv ti by (auto simp: bridge_inv_def issued_inv_def)
  have d: "dead s (L(issued_number lib ti \<mapsto> (h, ok))) cc t" if "dead s L cc t" for cc t
    using that L unfolding dead_def by blast
  have settled: "settled s (L(issued_number lib ti \<mapsto> (h, ok))) k" if "settled s L k" for k
    using that L unfolding settled_def by blast
  have "payment_inv s (L(issued_number lib ti \<mapsto> (h, ok)))"
    using inv d L unfolding bridge_inv_def payment_inv_def by meson
  moreover have "ticket_inv s (L(issued_number lib ti \<mapsto> (h, ok)))"
    using inv settled unfolding bridge_inv_def ticket_inv_def by blast
  ultimately show ?thesis using i inv by (simp add: bridge_inv_def)
qed

section \<open>Issuing a transaction\<close>

text \<open>A later state knows the same transactions, possibly with another status.\<close>

definition info_le :: "prover_state \<Rightarrow> prover_state \<Rightarrow> bool" where
  "info_le s s' \<longleftrightarrow>
     (\<forall>h ti. UNSIGNED_TX_HASH_TO_TX_INFO s h = Some ti \<longrightarrow>
        (\<exists>ti'. UNSIGNED_TX_HASH_TO_TX_INFO s' h = Some ti' \<and> ti_unsigned_tx ti' = ti_unsigned_tx ti \<and>
           ti_original_cc_id ti' = ti_original_cc_id ti))"

lemma dead_mono: "dead s L cc t \<Longrightarrow> info_le s s' \<Longrightarrow> dead s' L cc t"
  unfolding dead_def info_le_def by metis

lemma tx_ok_cc:
  "tx_ok ti \<Longrightarrow> tx_ok ti' \<Longrightarrow> ti_unsigned_tx ti = ti_unsigned_tx ti' \<Longrightarrow> ti_original_cc_id ti = ti_original_cc_id ti'"
  by (auto simp: tx_ok_def split: xrpl_unsigned_tx.splits)

lemma issued_inv_upd:
  assumes inv: "issued_inv lib s L" and laws: "sequence_laws lib"
    and h: "hash_unsigned_tx lib (ti_unsigned_tx ti) = Inr h" "tx_ok ti"
    and s': "UNSIGNED_TX_HASH_TO_TX_INFO s' = (UNSIGNED_TX_HASH_TO_TX_INFO s)(h \<mapsto> ti)"
  shows "issued_inv lib s' L \<and> info_le s s'"
proof -
  have same: "ti_unsigned_tx ti0 = ti_unsigned_tx ti \<and> ti_original_cc_id ti0 = ti_original_cc_id ti"
    if "UNSIGNED_TX_HASH_TO_TX_INFO s h = Some ti0" for ti0
  proof -
    have "hash_unsigned_tx lib (ti_unsigned_tx ti0) = Inr h" "tx_ok ti0"
      using inv that by (auto simp: issued_inv_def)
    moreover from this have "ti_unsigned_tx ti0 = ti_unsigned_tx ti"
      using laws h(1) unfolding sequence_laws_def by blast
    ultimately show ?thesis using h(2) tx_ok_cc by blast
  qed
  then have le: "info_le s s'" by (auto simp: info_le_def s')
  have "\<exists>ti. UNSIGNED_TX_HASH_TO_TX_INFO s' h' = Some ti \<and> issued_number lib ti = n" if "L n = Some (h', ok)" for n h' ok
    using inv le that unfolding issued_inv_def info_le_def issued_number_def by metis
  then show ?thesis using inv h le by (auto simp: issued_inv_def s')
qed

lemma ticket_spent_dead:
  assumes "payment_inv s L" "ticket_spent s cc t"
  shows "dead s L cc t"
  using assms unfolding payment_inv_def ticket_spent_def dead_def by (fastforce split: option.splits)

lemma payment_inv_issue:
  assumes inv: "payment_inv s L" and le: "info_le s s'"
    and s': "UNSIGNED_TX_HASH_TO_TX_INFO s' = (UNSIGNED_TX_HASH_TO_TX_INFO s)(h \<mapsto> ti)" "ti_status ti = TxPending"
      "CONSUMED_TICKET_TO_UNSIGNED_TX_HASH s' = CONSUMED_TICKET_TO_UNSIGNED_TX_HASH s"
    and cross: "\<And>cc t. CROSS_CHAIN_ID_TO_TICKET s cc = Some t \<Longrightarrow> CROSS_CHAIN_ID_TO_TICKET s' cc = Some t \<or> dead s L cc t"
    and new: "\<And>cc t. ti_original_cc_id ti = Some cc \<Longrightarrow> unsigned_tx_sequence (ti_unsigned_tx ti) = Ticket t \<Longrightarrow>
      CROSS_CHAIN_ID_TO_TICKET s' cc = Some t"
  shows "payment_inv s' L"
proof -
  have "CROSS_CHAIN_ID_TO_TICKET s' cc = Some t \<or> dead s' L cc t"
    if "UNSIGNED_TX_HASH_TO_TX_INFO s' h' = Some ti'" "ti_original_cc_id ti' = Some cc"
      "unsigned_tx_sequence (ti_unsigned_tx ti') = Ticket t" for h' ti' cc t
  proof (cases "h' = h")
    case True
    then show ?thesis using that s'(1) new by simp
  next
    case False
    then have "CROSS_CHAIN_ID_TO_TICKET s cc = Some t \<or> dead s L cc t"
      using inv that s'(1) unfolding payment_inv_def by simp
    then show ?thesis using cross dead_mono [OF _ le] by blast
  qed
  moreover have "\<exists>ok ti. L t = Some (h', ok) \<and> UNSIGNED_TX_HASH_TO_TX_INFO s' h' = Some ti \<and> (ti_status ti = TxFailedOnChain \<longrightarrow> \<not> ok)"
    if "CONSUMED_TICKET_TO_UNSIGNED_TX_HASH s' t = Some h'" for t h'
  proof -
    from inv that obtain ok ti0 where "L t = Some (h', ok)" "UNSIGNED_TX_HASH_TO_TX_INFO s h' = Some ti0"
        "ti_status ti0 = TxFailedOnChain \<longrightarrow> \<not> ok"
      unfolding payment_inv_def s'(3) by blast
    then show ?thesis using s' by (cases "h' = h") auto
  qed
  ultimately show ?thesis unfolding payment_inv_def by blast
qed

lemma ticket_inv_issue:
  assumes inv: "ticket_inv s L" and laws: "sequence_laws lib" and iss: "issued_inv lib s L"
    and h: "hash_unsigned_tx lib (ti_unsigned_tx ti) = Inr h"
    and s': "UNSIGNED_TX_HASH_TO_TX_INFO s' = (UNSIGNED_TX_HASH_TO_TX_INFO s)(h \<mapsto> ti)"
      "NEXT_SEQUENCE_NUMBER s' = NEXT_SEQUENCE_NUMBER s" "AVAILABLE_TICKETS s' = AVAILABLE_TICKETS s"
    and new: "\<And>k. unsigned_tx_sequence (ti_unsigned_tx ti) = Plain k \<Longrightarrow> NEXT_SEQUENCE_NUMBER s = Some k"
  shows "ticket_inv s' L"
proof -
  from inv obtain n tickets where n: "NEXT_SEQUENCE_NUMBER s = Some n" "AVAILABLE_TICKETS s = Some tickets"
      "sorted_wrt (<) tickets" "\<forall>t \<in> set tickets. t < n"
    and plain: "\<And>h ti k. UNSIGNED_TX_HASH_TO_TX_INFO s h = Some ti \<Longrightarrow> unsigned_tx_sequence (ti_unsigned_tx ti) = Plain k \<Longrightarrow>
           k \<le> n \<and> (k < n \<longrightarrow> settled s L k)"
    unfolding ticket_inv_def by blast
  have kept: "settled s' L k" if "settled s L k" "k < n" for k
  proof -
    from that obtain h' ok ti' where h': "L k = Some (h', ok)" "UNSIGNED_TX_HASH_TO_TX_INFO s h' = Some ti'"
        "unsigned_tx_sequence (ti_unsigned_tx ti') = Plain k" "ti_status ti' \<noteq> TxPending"
      unfolding settled_def by blast
    have "h' \<noteq> h"
    proof
      assume "h' = h"
      then have "hash_unsigned_tx lib (ti_unsigned_tx ti') = Inr h" using iss h'(2) by (auto simp: issued_inv_def)
      then have "ti_unsigned_tx ti' = ti_unsigned_tx ti" using laws h unfolding sequence_laws_def by blast
      then show False using new h'(3) that(2) n(1) by simp
    qed
    then show ?thesis using h' s'(1) unfolding settled_def by auto
  qed
  have "k \<le> n \<and> (k < n \<longrightarrow> settled s' L k)"
    if "UNSIGNED_TX_HASH_TO_TX_INFO s' h0 = Some ti0" "unsigned_tx_sequence (ti_unsigned_tx ti0) = Plain k" for h0 ti0 k
  proof (cases "h0 = h")
    case True
    then show ?thesis using that new n(1) s'(1) by auto
  next
    case False
    then have "UNSIGNED_TX_HASH_TO_TX_INFO s h0 = Some ti0" using that(1) s'(1) by simp
    then show ?thesis using plain [OF _ that(2)] kept by blast
  qed
  then show ?thesis using n s' unfolding ticket_inv_def by auto
qed

lemma consumed_inv_issue:
  assumes inv: "consumed_inv s" and tk: "ticket_inv s L"
    and s': "UNSIGNED_TX_HASH_TO_TX_INFO s' = (UNSIGNED_TX_HASH_TO_TX_INFO s)(h \<mapsto> ti)"
      "NEXT_SEQUENCE_NUMBER s' = NEXT_SEQUENCE_NUMBER s" "AVAILABLE_TICKETS s' = AVAILABLE_TICKETS s"
      "CONSUMED_TICKET_TO_UNSIGNED_TX_HASH s' = CONSUMED_TICKET_TO_UNSIGNED_TX_HASH s"
    and cross: "\<And>cc t. CROSS_CHAIN_ID_TO_TICKET s' cc = Some t \<Longrightarrow> CROSS_CHAIN_ID_TO_TICKET s cc = Some t \<or>
      (\<exists>tickets. AVAILABLE_TICKETS s = Some tickets \<and> t \<in> set tickets)"
    and new: "\<And>t. unsigned_tx_sequence (ti_unsigned_tx ti) = Ticket t \<Longrightarrow> \<exists>cc. CROSS_CHAIN_ID_TO_TICKET s' cc = Some t"
  shows "consumed_inv s'"
proof -
  from inv tk obtain n tickets where n: "NEXT_SEQUENCE_NUMBER s = Some n" "AVAILABLE_TICKETS s = Some tickets"
      "\<And>t. t \<in> set tickets \<Longrightarrow> t < n" "\<And>cc t. CROSS_CHAIN_ID_TO_TICKET s cc = Some t \<Longrightarrow> t < n"
      "\<And>h ti t. UNSIGNED_TX_HASH_TO_TX_INFO s h = Some ti \<Longrightarrow> unsigned_tx_sequence (ti_unsigned_tx ti) = Ticket t \<Longrightarrow> t < n"
      "\<forall>t. CONSUMED_TICKET_TO_UNSIGNED_TX_HASH s t \<noteq> None \<longrightarrow> t < n \<and> t \<notin> set tickets"
    unfolding consumed_inv_def ticket_inv_def by auto
  have c: "t < n" if "CROSS_CHAIN_ID_TO_TICKET s' cc = Some t" for cc t
    using cross [OF that] n(2-4) by auto
  then have "t < n" if "UNSIGNED_TX_HASH_TO_TX_INFO s' h' = Some ti'" "unsigned_tx_sequence (ti_unsigned_tx ti') = Ticket t" for h' ti' t
    using that new n(5) s'(1) by (cases "h' = h") auto
  then show ?thesis using n c unfolding consumed_inv_def s'(2-4) by blast
qed

lemma bridge_inv_payment:
  assumes inv: "bridge_inv lib s L" and laws: "sequence_laws lib"
    and "issue_payment lib s config dest amount cc None = Inr (s', tts)"
  shows "bridge_inv lib s' L"
  using assms(3)
proof (rule issue_payment_effect)
  fix t l m f h fee
  define ti where "ti = \<lparr>ti_status = TxPending, ti_unsigned_tx = Payment \<lparr>pay_account = pc_xrpl_multisig config,
      pay_fee = fee, pay_sequence = Ticket t, pay_amount = amount, pay_destination = dest,
      pay_cross_currency = None, pay_cc_id = Some cc\<rparr>, ti_original_cc_id = Some cc\<rparr>"
  assume h: "hash_unsigned_tx lib (Payment \<lparr>pay_account = pc_xrpl_multisig config, pay_fee = fee, pay_sequence = Ticket t,
       pay_amount = amount, pay_destination = dest, pay_cross_currency = None, pay_cc_id = Some cc\<rparr>) = Inr h"
    and s': "s' = s\<lparr>LAST_ASSIGNED_TICKET_NUMBER := l,
            CROSS_CHAIN_ID_TO_TICKET := (CROSS_CHAIN_ID_TO_TICKET s)(cc \<mapsto> t),
            SEQUENCE_NUMBER_MAX_OBJECT_COUNT := m, FEE_RESERVE := f,
            UNSIGNED_TX_HASH_TO_TX_INFO := (UNSIGNED_TX_HASH_TO_TX_INFO s)
              (h \<mapsto> \<lparr>ti_status = TxPending, ti_unsigned_tx = Payment \<lparr>pay_account = pc_xrpl_multisig config,
                    pay_fee = fee, pay_sequence = Ticket t, pay_amount = amount, pay_destination = dest,
                    pay_cross_currency = None, pay_cc_id = Some cc\<rparr>, ti_original_cc_id = Some cc\<rparr>)\<rparr>"
    and c: "CROSS_CHAIN_ID_TO_TICKET s cc = Some t \<and> \<not> ticket_spent s cc t
     \<or> (\<exists>tickets. AVAILABLE_TICKETS s = Some tickets \<and> t \<in> set tickets)
       \<and> (\<forall>t'. CROSS_CHAIN_ID_TO_TICKET s cc = Some t' \<longrightarrow> ticket_spent s cc t')"
  have info: "UNSIGNED_TX_HASH_TO_TX_INFO s' = (UNSIGNED_TX_HASH_TO_TX_INFO s)(h \<mapsto> ti)"
    by (simp add: s' ti_def)
  have ti: "hash_unsigned_tx lib (ti_unsigned_tx ti) = Inr h" "tx_ok ti"
    using h by (simp_all add: ti_def tx_ok_def)
  note parts = inv [unfolded bridge_inv_def]
  have i: "issued_inv lib s' L" "info_le s s'"
    using issued_inv_upd [OF _ laws ti info] parts by auto
  have cross: "CROSS_CHAIN_ID_TO_TICKET s' c = Some t' \<or> dead s L c t'" if "CROSS_CHAIN_ID_TO_TICKET s c = Some t'" for c t'
    using c that ticket_spent_dead [OF conjunct1 [OF conjunct2 [OF parts]]] by (cases "c = cc") (auto simp: s')
  have "payment_inv s' L"
    by (rule payment_inv_issue [OF _ i(2) info _ _ cross]) (use parts in \<open>simp_all add: s' ti_def\<close>)
  moreover have "ticket_inv s' L"
    by (rule ticket_inv_issue [OF _ laws _ ti(1) info]) (use parts in \<open>simp_all add: s' ti_def\<close>)
  moreover have "consumed_inv s'"
    by (rule consumed_inv_issue [OF _ _ info]) (use parts c in \<open>auto simp: s' ti_def split: if_splits\<close>)
  ultimately show ?thesis using i by (simp add: bridge_inv_def)
qed

lemma bridge_inv_plain:
  assumes inv: "bridge_inv lib s L" and laws: "sequence_laws lib" and "plain_issued lib s s' h"
  shows "bridge_inv lib s' L"
proof -
  from assms(3) obtain n tx m f where n: "NEXT_SEQUENCE_NUMBER s = Some n" "unsigned_tx_sequence tx = Plain n" "\<And>p. tx \<noteq> Payment p"
      and h: "hash_unsigned_tx lib tx = Inr h"
      and s': "s' = s\<lparr>SEQUENCE_NUMBER_MAX_OBJECT_COUNT := m, FEE_RESERVE := f,
               UNSIGNED_TX_HASH_TO_TX_INFO := (UNSIGNED_TX_HASH_TO_TX_INFO s)
                 (h \<mapsto> \<lparr>ti_status = TxPending, ti_unsigned_tx = tx, ti_original_cc_id = None\<rparr>)\<rparr>"
    unfolding plain_issued_def by blast
  define ti where "ti = \<lparr>ti_status = TxPending, ti_unsigned_tx = tx, ti_original_cc_id = None\<rparr>"
  have info: "UNSIGNED_TX_HASH_TO_TX_INFO s' = (UNSIGNED_TX_HASH_TO_TX_INFO s)(h \<mapsto> ti)"
    by (simp add: s' ti_def)
  have ti: "hash_unsigned_tx lib (ti_unsigned_tx ti) = Inr h" "tx_ok ti"
    using h n by (auto simp: ti_def tx_ok_def split: xrpl_unsigned_tx.splits)
  note parts = inv [unfolded bridge_inv_def]
  have i: "issued_inv lib s' L" "info_le s s'"
    using issued_inv_upd [OF _ laws ti info] parts by auto
  have "payment_inv s' L"
    by (rule payment_inv_issue [OF _ i(2) info]) (use parts in \<open>simp_all add: s' ti_def\<close>)
  moreover have "ticket_inv s' L"
    by (rule ticket_inv_issue [OF _ laws _ ti(1) info]) (use parts n in \<open>simp_all add: s' ti_def\<close>)
  moreover have "consumed_inv s'"
    by (rule consumed_inv_issue [OF _ _ info]) (use parts n in \<open>auto simp: s' ti_def\<close>)
  ultimately show ?thesis using i by (simp add: bridge_inv_def)
qed

section \<open>Confirming a transaction\<close>

lemma confirm_effect:
  assumes "ms_confirm_prover_message lib s gw tx_id h st = Inr (s', r)"
  obtains ti tickets inc extra where "UNSIGNED_TX_HASH_TO_TX_INFO s h = Some ti" "ti_status ti = TxPending"
    "st = TxSucceeded \<or> st = TxFailedOnChain" "AVAILABLE_TICKETS s = Some tickets"
    "sequence_number_increment lib (ti_unsigned_tx ti) st = Inr inc"
    "if 0 < inc \<and> NEXT_SEQUENCE_NUMBER s = Some (issued_number lib ti)
     then \<exists>n. NEXT_SEQUENCE_NUMBER s' = Some n \<and> unat n = unat (issued_number lib ti) + unat inc
     else NEXT_SEQUENCE_NUMBER s' = NEXT_SEQUENCE_NUMBER s"
    "UNSIGNED_TX_HASH_TO_TX_INFO s' = (UNSIGNED_TX_HASH_TO_TX_INFO s)(h \<mapsto> ti\<lparr>ti_status := st\<rparr>)"
    "CONSUMED_TICKET_TO_UNSIGNED_TX_HASH s' = (CONSUMED_TICKET_TO_UNSIGNED_TX_HASH s)(issued_number lib ti \<mapsto> h)"
    "CROSS_CHAIN_ID_TO_TICKET s' = CROSS_CHAIN_ID_TO_TICKET s"
    "AVAILABLE_TICKETS s' = Some (filter (\<lambda>x. x \<noteq> issued_number lib ti) tickets @ extra)"
    "extra = [] \<or> (\<exists>tc a b. st = TxSucceeded \<and> ti_unsigned_tx ti = TicketCreate tc \<and> unat a = unat (issued_number lib ti) + 1 \<and>
       unat b = unat (issued_number lib ti) + unat (tc_ticket_count tc) + 1 \<and> extra = word_range a b)"
proof -
  from assms obtain u ti' where u: "record_confirmation lib s h st = Inr (u, ti')"
    and r: "(if st \<noteq> TxSucceeded then Inr (u, None, None) else apply_confirmed lib u gw tx_id ti') = Inr (s', r)"
    by (auto simp: ms_confirm_prover_message_def result_simps)
  from u show thesis
  proof (rule record_confirmation_effect)
    fix ti :: tx_info and tickets inc nxt
    assume ti: "UNSIGNED_TX_HASH_TO_TX_INFO s h = Some ti" "ti_status ti = TxPending"
      and st: "st = TxSucceeded \<or> st = TxFailedOnChain" and tks: "AVAILABLE_TICKETS s = Some tickets"
      and ti': "ti' = ti\<lparr>ti_status := st\<rparr>"
      and inc: "sequence_number_increment lib (ti_unsigned_tx ti) st = Inr inc"
      and nxt: "if 0 < inc \<and> NEXT_SEQUENCE_NUMBER s = Some (tx_sequence_number lib (ti_unsigned_tx ti))
        then \<exists>n. nxt = Some n \<and> unat n = unat (tx_sequence_number lib (ti_unsigned_tx ti)) + unat inc
        else nxt = NEXT_SEQUENCE_NUMBER s"
      and u_eq: "u = s\<lparr>NEXT_SEQUENCE_NUMBER := nxt,
            CONSUMED_TICKET_TO_UNSIGNED_TX_HASH :=
              (CONSUMED_TICKET_TO_UNSIGNED_TX_HASH s)(tx_sequence_number lib (ti_unsigned_tx ti) \<mapsto> h),
            AVAILABLE_TICKETS := Some (filter (\<lambda>x. x \<noteq> tx_sequence_number lib (ti_unsigned_tx ti)) tickets),
            UNSIGNED_TX_HASH_TO_TX_INFO := (UNSIGNED_TX_HASH_TO_TX_INFO s)(h \<mapsto> ti\<lparr>ti_status := st\<rparr>)\<rparr>"
    have frame: "NEXT_SEQUENCE_NUMBER s' = NEXT_SEQUENCE_NUMBER u" "UNSIGNED_TX_HASH_TO_TX_INFO s' = UNSIGNED_TX_HASH_TO_TX_INFO u"
      "CONSUMED_TICKET_TO_UNSIGNED_TX_HASH s' = CONSUMED_TICKET_TO_UNSIGNED_TX_HASH u"
      "CROSS_CHAIN_ID_TO_TICKET s' = CROSS_CHAIN_ID_TO_TICKET u"
      using r by (auto split: if_splits elim: apply_confirmed_frame)
    obtain extra where extra: "AVAILABLE_TICKETS s' = Some (filter (\<lambda>x. x \<noteq> issued_number lib ti) tickets @ extra)"
      "extra = [] \<or> (\<exists>tc a b. st = TxSucceeded \<and> ti_unsigned_tx ti = TicketCreate tc \<and> unat a = unat (issued_number lib ti) + 1 \<and>
         unat b = unat (issued_number lib ti) + unat (tc_ticket_count tc) + 1 \<and> extra = word_range a b)"
    proof (cases "st = TxSucceeded")
      case False
      then show thesis using r that [of "[]"] by (auto simp: u_eq issued_number_def)
    next
      case True
      obtain vs ev where "apply_confirmed lib u gw tx_id ti' = Inr (s', vs, ev)"
        using r True by (cases r) auto
      then show thesis
      proof (cases rule: apply_confirmed_effect)
        case (tickets tc a b tks')
        then show thesis using that [of "word_range a b"] True by (auto simp: u_eq ti' issued_number_def)
      qed (use that [of "[]"] in \<open>simp_all add: u_eq issued_number_def\<close>)
    qed
    show thesis
      by (rule that [OF ti st tks inc _ _ _ _ extra]) (use nxt in \<open>simp_all add: frame u_eq issued_number_def\<close>)
  qed
qed

lemma payment_inv_confirm:
  assumes inv: "payment_inv s L" and le: "info_le s s'"
    and s': "UNSIGNED_TX_HASH_TO_TX_INFO s' = (UNSIGNED_TX_HASH_TO_TX_INFO s)(h \<mapsto> ti\<lparr>ti_status := st\<rparr>)"
      "CONSUMED_TICKET_TO_UNSIGNED_TX_HASH s' = (CONSUMED_TICKET_TO_UNSIGNED_TX_HASH s)(issued_number lib ti \<mapsto> h)"
      "CROSS_CHAIN_ID_TO_TICKET s' = CROSS_CHAIN_ID_TO_TICKET s"
    and ti: "UNSIGNED_TX_HASH_TO_TX_INFO s h = Some ti" and L: "L (issued_number lib ti) = Some (h, st = TxSucceeded)"
    and iss: "issued_inv lib s L"
  shows "payment_inv s' L"
proof -
  have "CROSS_CHAIN_ID_TO_TICKET s' cc = Some t \<or> dead s' L cc t"
    if a: "UNSIGNED_TX_HASH_TO_TX_INFO s' h' = Some ti'" "ti_original_cc_id ti' = Some cc"
      "unsigned_tx_sequence (ti_unsigned_tx ti') = Ticket t" for h' ti' cc t
  proof -
    obtain ti0 where "UNSIGNED_TX_HASH_TO_TX_INFO s h' = Some ti0" "ti_original_cc_id ti0 = Some cc"
        "unsigned_tx_sequence (ti_unsigned_tx ti0) = Ticket t"
      using a ti s'(1) by (cases "h' = h") auto
    then have "CROSS_CHAIN_ID_TO_TICKET s cc = Some t \<or> dead s L cc t"
      using inv unfolding payment_inv_def by blast
    then show ?thesis using s'(3) dead_mono [OF _ le] by auto
  qed
  moreover have "\<exists>ok ti. L t = Some (h', ok) \<and> UNSIGNED_TX_HASH_TO_TX_INFO s' h' = Some ti \<and> (ti_status ti = TxFailedOnChain \<longrightarrow> \<not> ok)"
    if c: "CONSUMED_TICKET_TO_UNSIGNED_TX_HASH s' t = Some h'" for t h'
  proof (cases "t = issued_number lib ti")
    case True
    then show ?thesis using c s' L by auto
  next
    case False
    then have "CONSUMED_TICKET_TO_UNSIGNED_TX_HASH s t = Some h'" using c s'(2) by simp
    then obtain ok ti0 where *: "L t = Some (h', ok)" "UNSIGNED_TX_HASH_TO_TX_INFO s h' = Some ti0"
        "ti_status ti0 = TxFailedOnChain \<longrightarrow> \<not> ok"
      using inv unfolding payment_inv_def by blast
    have "h' \<noteq> h" using iss *(1) ti False unfolding issued_inv_def by fastforce
    then show ?thesis using * s'(1) by auto
  qed
  ultimately show ?thesis unfolding payment_inv_def by blast
qed

text \<open>
  A confirmed transaction either used a ticket, or it is the next one in sequence: an earlier number was
  already settled by the transaction the ledger has there.
\<close>

lemma confirm_cases:
  assumes inv: "ticket_inv s L" and laws: "sequence_laws lib" and iss: "issued_inv lib s L"
    and conf: "ms_confirm_prover_message lib s gw tx_id h st = Inr (s', r)"
    and L: "\<And>ti. UNSIGNED_TX_HASH_TO_TX_INFO s h = Some ti \<Longrightarrow> L (issued_number lib ti) = Some (h, st = TxSucceeded)"
  obtains ti n n' tks extra where "UNSIGNED_TX_HASH_TO_TX_INFO s h = Some ti" "ti_status ti = TxPending" "st \<noteq> TxPending"
    "UNSIGNED_TX_HASH_TO_TX_INFO s' = (UNSIGNED_TX_HASH_TO_TX_INFO s)(h \<mapsto> ti\<lparr>ti_status := st\<rparr>)"
    "CONSUMED_TICKET_TO_UNSIGNED_TX_HASH s' = (CONSUMED_TICKET_TO_UNSIGNED_TX_HASH s)(issued_number lib ti \<mapsto> h)"
    "CROSS_CHAIN_ID_TO_TICKET s' = CROSS_CHAIN_ID_TO_TICKET s"
    "NEXT_SEQUENCE_NUMBER s = Some n" "NEXT_SEQUENCE_NUMBER s' = Some n'"
    "AVAILABLE_TICKETS s = Some tks" "AVAILABLE_TICKETS s' = Some (filter (\<lambda>x. x \<noteq> issued_number lib ti) tks @ extra)"
    "sorted_wrt (<) extra" "\<And>t. t \<in> set extra \<Longrightarrow> n < t \<and> t < n'"
    "(\<exists>t. unsigned_tx_sequence (ti_unsigned_tx ti) = Ticket t \<and> issued_number lib ti = t \<and> n' = n) \<or>
     (unsigned_tx_sequence (ti_unsigned_tx ti) = Plain n \<and> issued_number lib ti = n \<and> n < n')"
  using conf
proof (rule confirm_effect)
  fix ti tks inc extra
  define num where "num = issued_number lib ti"
  assume ti: "UNSIGNED_TX_HASH_TO_TX_INFO s h = Some ti" "ti_status ti = TxPending"
    and st: "st = TxSucceeded \<or> st = TxFailedOnChain" and tks: "AVAILABLE_TICKETS s = Some tks"
    and inc: "sequence_number_increment lib (ti_unsigned_tx ti) st = Inr inc"
    and nxt: "if 0 < inc \<and> NEXT_SEQUENCE_NUMBER s = Some (issued_number lib ti)
     then \<exists>n. NEXT_SEQUENCE_NUMBER s' = Some n \<and> unat n = unat (issued_number lib ti) + unat inc
     else NEXT_SEQUENCE_NUMBER s' = NEXT_SEQUENCE_NUMBER s"
    and s': "UNSIGNED_TX_HASH_TO_TX_INFO s' = (UNSIGNED_TX_HASH_TO_TX_INFO s)(h \<mapsto> ti\<lparr>ti_status := st\<rparr>)"
      "CONSUMED_TICKET_TO_UNSIGNED_TX_HASH s' = (CONSUMED_TICKET_TO_UNSIGNED_TX_HASH s)(issued_number lib ti \<mapsto> h)"
      "CROSS_CHAIN_ID_TO_TICKET s' = CROSS_CHAIN_ID_TO_TICKET s"
    and av: "AVAILABLE_TICKETS s' = Some (filter (\<lambda>x. x \<noteq> issued_number lib ti) tks @ extra)"
    and extra: "extra = [] \<or> (\<exists>tc a b. st = TxSucceeded \<and> ti_unsigned_tx ti = TicketCreate tc \<and> unat a = unat (issued_number lib ti) + 1 \<and>
       unat b = unat (issued_number lib ti) + unat (tc_ticket_count tc) + 1 \<and> extra = word_range a b)"
  have st': "st \<noteq> TxPending" using st by auto
  from inv obtain n where n: "NEXT_SEQUENCE_NUMBER s = Some n"
      and plain: "\<And>h ti k. UNSIGNED_TX_HASH_TO_TX_INFO s h = Some ti \<Longrightarrow> unsigned_tx_sequence (ti_unsigned_tx ti) = Plain k \<Longrightarrow>
           k \<le> n \<and> (k < n \<longrightarrow> settled s L k)"
    unfolding ticket_inv_def by blast
  have number: "num = sequence_u32 (unsigned_tx_sequence (ti_unsigned_tx ti))"
    using laws by (simp add: sequence_laws_def num_def issued_number_def)
  have incr: "unat inc = (case unsigned_tx_sequence (ti_unsigned_tx ti) of
                      Ticket _ \<Rightarrow> 0
                    | Plain _ \<Rightarrow> (case ti_unsigned_tx ti of
                          TicketCreate tc \<Rightarrow> if st = TxSucceeded then unat (tc_ticket_count tc) + 1 else 1
                        | _ \<Rightarrow> 1))"
    using laws inc st unfolding sequence_laws_def by blast
  have sorted: "sorted_wrt (<) extra" using extra by (auto simp: sorted_word_range)
  show thesis
  proof (cases "unsigned_tx_sequence (ti_unsigned_tx ti)")
    case (Ticket t)
    then have "inc = 0" using incr by (simp add: unat_eq_zero)
    then have next': "NEXT_SEQUENCE_NUMBER s' = Some n" using nxt n by simp
    have "tx_ok ti" using iss ti(1) by (auto simp: issued_inv_def)
    then have "extra = []" using extra Ticket by (auto simp: tx_ok_def)
    then show thesis
      using that [OF ti st' s' n next' tks av sorted] Ticket number by (simp add: num_def)
  next
    case (Plain k)
    then have k: "num = k" using number by simp
    have kn: "k = n"
    proof (rule ccontr)
      assume "k \<noteq> n"
      then have "settled s L k" using plain [OF ti(1) Plain] by auto
      then obtain h' ok ti' where "L k = Some (h', ok)" "UNSIGNED_TX_HASH_TO_TX_INFO s h' = Some ti'" "ti_status ti' \<noteq> TxPending"
        unfolding settled_def by blast
      then show False using L [OF ti(1)] ti k num_def by simp
    qed
    have pos: "0 < inc" using incr Plain by (auto simp: word_less_nat_alt split: xrpl_unsigned_tx.splits)
    then obtain n' where n': "NEXT_SEQUENCE_NUMBER s' = Some n'" "unat n' = unat n + unat inc"
      using nxt n k kn by (auto simp: num_def)
    have lt: "n < n'" using n'(2) pos by (simp add: word_less_nat_alt)
    have below: "n < t \<and> t < n'" if t: "t \<in> set extra" for t
    proof -
      from t obtain tc a b where "st = TxSucceeded" "ti_unsigned_tx ti = TicketCreate tc" "unat a = unat n + 1"
          "unat b = unat n + unat (tc_ticket_count tc) + 1" "t \<in> set (word_range a b)"
        using extra k kn num_def by auto
      then show ?thesis using incr Plain n'(2) by (auto simp: set_word_range word_less_nat_alt)
    qed
    show thesis
      using that [OF ti st' s' n n'(1) tks av sorted below] Plain k kn lt by (simp add: num_def)
  qed
qed

lemma ticket_inv_confirm:
  assumes inv: "ticket_inv s L" and laws: "sequence_laws lib" and iss: "issued_inv lib s L"
    and conf: "ms_confirm_prover_message lib s gw tx_id h st = Inr (s', r)"
    and L: "\<And>ti. UNSIGNED_TX_HASH_TO_TX_INFO s h = Some ti \<Longrightarrow> L (issued_number lib ti) = Some (h, st = TxSucceeded)"
  shows "ticket_inv s' L"
  using assms
proof (rule confirm_cases)
  fix ti n n' tks extra
  assume ti: "UNSIGNED_TX_HASH_TO_TX_INFO s h = Some ti" "ti_status ti = TxPending" "st \<noteq> TxPending"
    and info: "UNSIGNED_TX_HASH_TO_TX_INFO s' = (UNSIGNED_TX_HASH_TO_TX_INFO s)(h \<mapsto> ti\<lparr>ti_status := st\<rparr>)"
    and n: "NEXT_SEQUENCE_NUMBER s = Some n" "NEXT_SEQUENCE_NUMBER s' = Some n'"
    and av: "AVAILABLE_TICKETS s = Some tks" "AVAILABLE_TICKETS s' = Some (filter (\<lambda>x. x \<noteq> issued_number lib ti) tks @ extra)"
    and extra: "sorted_wrt (<) extra" "\<And>t. t \<in> set extra \<Longrightarrow> n < t \<and> t < n'"
    and cases: "(\<exists>t. unsigned_tx_sequence (ti_unsigned_tx ti) = Ticket t \<and> issued_number lib ti = t \<and> n' = n) \<or>
      (unsigned_tx_sequence (ti_unsigned_tx ti) = Plain n \<and> issued_number lib ti = n \<and> n < n')"
  from inv n av have tk: "sorted_wrt (<) tks" "\<And>t. t \<in> set tks \<Longrightarrow> t < n"
      and plain: "\<And>h ti k. UNSIGNED_TX_HASH_TO_TX_INFO s h = Some ti \<Longrightarrow> unsigned_tx_sequence (ti_unsigned_tx ti) = Plain k \<Longrightarrow>
           k \<le> n \<and> (k < n \<longrightarrow> settled s L k)"
    unfolding ticket_inv_def by auto
  have settled: "settled s' L k" if "settled s L k" for k
  proof -
    from that obtain h' ok ti' where *: "L k = Some (h', ok)" "UNSIGNED_TX_HASH_TO_TX_INFO s h' = Some ti'"
        "unsigned_tx_sequence (ti_unsigned_tx ti') = Plain k" "ti_status ti' \<noteq> TxPending"
      unfolding settled_def by blast
    then have "h' \<noteq> h" using ti by auto
    then show ?thesis using * unfolding settled_def info by auto
  qed
  have new: "settled s' L n" if "unsigned_tx_sequence (ti_unsigned_tx ti) = Plain n" "issued_number lib ti = n"
    using L [OF ti(1)] that ti(3) unfolding settled_def info by auto
  have le: "n \<le> n'" using cases by auto
  have "sorted_wrt (<) (filter (\<lambda>x. x \<noteq> issued_number lib ti) tks @ extra)"
    using tk extra by (fastforce simp: sorted_wrt_append sorted_wrt_filter intro: less_trans)
  moreover have "t < n'" if "t \<in> set (filter (\<lambda>x. x \<noteq> issued_number lib ti) tks @ extra)" for t
    using that tk(2) extra(2) le by (auto intro: less_le_trans)
  moreover have "k \<le> n' \<and> (k < n' \<longrightarrow> settled s' L k)"
    if a: "UNSIGNED_TX_HASH_TO_TX_INFO s' h0 = Some ti0" "unsigned_tx_sequence (ti_unsigned_tx ti0) = Plain k" for h0 ti0 k
  proof -
    obtain ti1 where "UNSIGNED_TX_HASH_TO_TX_INFO s h0 = Some ti1" "unsigned_tx_sequence (ti_unsigned_tx ti1) = Plain k"
      using a ti(1) info by (cases "h0 = h") auto
    then have "k \<le> n" "k < n \<Longrightarrow> settled s L k" using plain by blast+
    then show ?thesis using cases le settled new by (cases "k = n") auto
  qed
  ultimately show ?thesis unfolding ticket_inv_def using n(2) av(2) by blast
qed

lemma consumed_inv_confirm:
  assumes inv: "consumed_inv s" and tk: "ticket_inv s L" and laws: "sequence_laws lib" and iss: "issued_inv lib s L"
    and conf: "ms_confirm_prover_message lib s gw tx_id h st = Inr (s', r)"
    and L: "\<And>ti. UNSIGNED_TX_HASH_TO_TX_INFO s h = Some ti \<Longrightarrow> L (issued_number lib ti) = Some (h, st = TxSucceeded)"
  shows "consumed_inv s'"
  using tk laws iss conf L
proof (rule confirm_cases)
  fix ti n n' tks extra
  assume ti: "UNSIGNED_TX_HASH_TO_TX_INFO s h = Some ti"
    and s': "UNSIGNED_TX_HASH_TO_TX_INFO s' = (UNSIGNED_TX_HASH_TO_TX_INFO s)(h \<mapsto> ti\<lparr>ti_status := st\<rparr>)"
      "CONSUMED_TICKET_TO_UNSIGNED_TX_HASH s' = (CONSUMED_TICKET_TO_UNSIGNED_TX_HASH s)(issued_number lib ti \<mapsto> h)"
      "CROSS_CHAIN_ID_TO_TICKET s' = CROSS_CHAIN_ID_TO_TICKET s"
    and n: "NEXT_SEQUENCE_NUMBER s = Some n" "NEXT_SEQUENCE_NUMBER s' = Some n'"
    and av: "AVAILABLE_TICKETS s = Some tks" "AVAILABLE_TICKETS s' = Some (filter (\<lambda>x. x \<noteq> issued_number lib ti) tks @ extra)"
    and extra: "\<And>t. t \<in> set extra \<Longrightarrow> n < t \<and> t < n'"
    and cases: "(\<exists>t. unsigned_tx_sequence (ti_unsigned_tx ti) = Ticket t \<and> issued_number lib ti = t \<and> n' = n) \<or>
      (unsigned_tx_sequence (ti_unsigned_tx ti) = Plain n \<and> issued_number lib ti = n \<and> n < n')"
  from inv n av have cross: "\<And>cc t. CROSS_CHAIN_ID_TO_TICKET s cc = Some t \<Longrightarrow> t < n"
      and tx: "\<And>h ti t. UNSIGNED_TX_HASH_TO_TX_INFO s h = Some ti \<Longrightarrow> unsigned_tx_sequence (ti_unsigned_tx ti) = Ticket t \<Longrightarrow> t < n"
      and used: "\<And>t h. CONSUMED_TICKET_TO_UNSIGNED_TX_HASH s t = Some h \<Longrightarrow> t < n \<and> t \<notin> set tks"
    unfolding consumed_inv_def by auto
  have le: "n \<le> n'" using cases by auto
  have num: "issued_number lib ti \<le> n" "issued_number lib ti < n'" using cases tx [OF ti] by auto
  have "t < n' \<and> t \<notin> set (filter (\<lambda>x. x \<noteq> issued_number lib ti) tks @ extra)"
    if "CONSUMED_TICKET_TO_UNSIGNED_TX_HASH s' t \<noteq> None" for t
  proof (cases "t = issued_number lib ti")
    case True
    then show ?thesis using num extra by force
  next
    case False
    then have "t < n \<and> t \<notin> set tks" using that used s'(2) by auto
    then show ?thesis using le extra by force
  qed
  moreover have "t < n'" if "UNSIGNED_TX_HASH_TO_TX_INFO s' h0 = Some ti0" "unsigned_tx_sequence (ti_unsigned_tx ti0) = Ticket t" for h0 ti0 t
    using that tx [of h0 ti0 t] tx [OF ti] s'(1) le by (cases "h0 = h") auto
  moreover have "t < n'" if "CROSS_CHAIN_ID_TO_TICKET s' cc = Some t" for cc t
    using cross [of cc t] that s'(3) le by simp
  ultimately show ?thesis unfolding consumed_inv_def using n(2) av(2) by blast
qed

lemma bridge_inv_confirm:
  assumes inv: "bridge_inv lib s L" and laws: "sequence_laws lib"
    and conf: "ms_confirm_prover_message lib s gw tx_id h st = Inr (s', r)"
    and L: "\<And>ti. UNSIGNED_TX_HASH_TO_TX_INFO s h = Some ti \<Longrightarrow> L (issued_number lib ti) = Some (h, st = TxSucceeded)"
  shows "bridge_inv lib s' L"
proof -
  have parts: "issued_inv lib s L" "payment_inv s L" "ticket_inv s L" "consumed_inv s" using inv by (simp_all add: bridge_inv_def)
  have t: "ticket_inv s' L" by (rule ticket_inv_confirm [OF parts(3) laws parts(1) conf L])
  have c: "consumed_inv s'" by (rule consumed_inv_confirm [OF parts(4,3) laws parts(1) conf L])
  show ?thesis
    using conf
  proof (rule confirm_effect)
    fix ti tks inc extra
    assume ti: "UNSIGNED_TX_HASH_TO_TX_INFO s h = Some ti"
      and s': "UNSIGNED_TX_HASH_TO_TX_INFO s' = (UNSIGNED_TX_HASH_TO_TX_INFO s)(h \<mapsto> ti\<lparr>ti_status := st\<rparr>)"
        "CONSUMED_TICKET_TO_UNSIGNED_TX_HASH s' = (CONSUMED_TICKET_TO_UNSIGNED_TX_HASH s)(issued_number lib ti \<mapsto> h)"
        "CROSS_CHAIN_ID_TO_TICKET s' = CROSS_CHAIN_ID_TO_TICKET s"
    have "hash_unsigned_tx lib (ti_unsigned_tx (ti\<lparr>ti_status := st\<rparr>)) = Inr h" "tx_ok (ti\<lparr>ti_status := st\<rparr>)"
      using parts ti by (auto simp: issued_inv_def)
    then have i: "issued_inv lib s' L" "info_le s s'"
      using issued_inv_upd [OF _ laws _ _ s'(1)] parts by auto
    have "payment_inv s' L"
      by (rule payment_inv_confirm [OF parts(2) i(2) s' ti L [OF ti] parts(1)])
    then show ?thesis using i t c by (simp add: bridge_inv_def)
  qed
qed

lemma bridge_inv_effect:
  assumes inv: "bridge_inv lib s L" and laws: "sequence_laws lib" and eff: "prover_effect lib env priv s s'"
    and truth: "truthful lib env s L"
  shows "bridge_inv lib s' L"
  using eff
proof (cases rule: prover_effect.cases)
  case (payment config dest amount cc u tts)
  show ?thesis
    unfolding payment(1) by (rule bridge_inv_cong [OF bridge_inv_payment [OF inv laws payment(2)]]) simp_all
next
  case (plain nv u h)
  have "bridge_inv lib (s\<lparr>NEXT_VERIFIER_SET := nv\<rparr>) L" by (rule bridge_inv_cong [OF inv]) simp_all
  from bridge_inv_plain [OF this laws plain(2)] show ?thesis
    unfolding plain(1) by (rule bridge_inv_cong) simp_all
next
  case (confirm pm st r)
  have st: "tx_status_from lib st = TxSucceeded \<or> tx_status_from lib st = TxFailedOnChain"
    using confirm(2) by (rule confirm_effect)
  have "L (issued_number lib ti) = Some (pm_unsigned_tx_hash pm, tx_status_from lib st = TxSucceeded)"
    if "UNSIGNED_TX_HASH_TO_TX_INFO s (pm_unsigned_tx_hash pm) = Some ti" for ti
    using truth [unfolded truthful_def] confirm(1) that st by auto
  then show ?thesis by (rule bridge_inv_confirm [OF inv laws confirm(2)])
qed (auto intro!: bridge_inv_cong [OF inv])

lemma bridge_invariant:
  assumes "bridge lib s0 s L" "bridge_inv lib s0 Map.empty" "sequence_laws lib"
  shows "bridge_inv lib s L"
  using assms
proof (induction rule: bridge.induct)
  case (message s L env sender msg s' out)
  then show ?case using bridge_inv_effect [OF _ _ prover_execute_effect] by blast
next
  case (reply s L env answer s' out)
  obtain a b where "s' = s\<lparr>MULTISIG_SESSION_ID_TO_UNSIGNED_TX_HASH := a, CROSS_CHAIN_ID_TO_MULTISIG_SESSION := b,
      REPLY_UNSIGNED_TX_HASH := None\<rparr>"
    using prover_reply_sessions [OF reply.hyps(2)] by blast
  then show ?case using bridge_inv_cong [OF reply.IH] reply.prems by simp
next
  case (ledger s L h ti ok)
  then show ?case by (intro bridge_inv_ledger) auto
qed simp

lemma bridge_inv_instantiate:
  assumes "prover_instantiate env msg = Inr s0" "sorted_wrt (<) (im_available_tickets msg)"
    "\<And>t. t \<in> set (im_available_tickets msg) \<Longrightarrow> t < im_next_sequence_number msg"
  shows "bridge_inv lib s0 Map.empty"
  using assms by (auto simp: prover_instantiate_def result_simps Let_def bridge_inv_def issued_inv_def payment_inv_def
      ticket_inv_def consumed_inv_def)

lemma paid_ticket:
  assumes inv: "bridge_inv lib s L" and laws: "sequence_laws lib" and "paid s L n cc"
  shows "CROSS_CHAIN_ID_TO_TICKET s cc = Some n"
proof -
  from assms(3) obtain h ti p where L: "L n = Some (h, True)" and ti: "UNSIGNED_TX_HASH_TO_TX_INFO s h = Some ti"
      and p: "ti_unsigned_tx ti = Payment p" "pay_cc_id p = Some cc"
    by (auto simp: paid_def split: option.split_asm bool.split_asm prod.split_asm xrpl_unsigned_tx.split_asm)
  have "tx_ok ti" "issued_number lib ti = n" using inv ti L unfolding bridge_inv_def issued_inv_def by fastforce+
  then have t: "ti_original_cc_id ti = Some cc" "unsigned_tx_sequence (ti_unsigned_tx ti) = Ticket n"
    using p laws by (auto simp: tx_ok_def issued_number_def sequence_laws_def)
  have "\<not> dead s L cc n" using L ti t(1) by (auto simp: dead_def)
  then show ?thesis using inv ti t unfolding bridge_inv_def payment_inv_def by blast
qed

section \<open>An example\<close>

definition demo_bridge_payment :: xrpl_unsigned_tx where
  "demo_bridge_payment = Payment \<lparr>pay_account = replicate 20 7, pay_fee = 330, pay_sequence = Ticket 5, pay_amount = Drops 77,
     pay_destination = replicate 20 65, pay_cross_currency = None, pay_cc_id = Some demo_cc\<rparr>"

definition demo_bridge_lib :: xrpl_lib where
  "demo_bridge_lib = demo_lib\<lparr>hash_unsigned_tx := (\<lambda>tx. if tx = demo_bridge_payment then Inr [1] else Inl (XRPLError ''unknown'')),
     sequence_number_increment := (\<lambda>tx st. case unsigned_tx_sequence tx of
       Ticket _ \<Rightarrow> Inr 0
     | Plain _ \<Rightarrow> (case tx of TicketCreate tc \<Rightarrow> Inl (XRPLError ''tickets'') | _ \<Rightarrow> Inr 1))\<rparr>"

lemma demo_bridge_laws: "sequence_laws demo_bridge_lib"
  by (auto simp: sequence_laws_def demo_bridge_lib_def demo_lib_def
      split: if_splits xrpl_sequence.splits xrpl_unsigned_tx.splits)

lemma demo_instantiate: "prover_instantiate demo_prover_env demo_instantiate_msg = Inr demo_prover"
  by (simp add: prover_instantiate_def demo_prover_env_def demo_instantiate_msg_def demo_config_def demo_ms_env_def
      demo_prover_def killswitch_init_def set_governance_def set_admin_def)

lemma demo_first_set:
  obtains vs x out where
    "prover_execute demo_bridge_lib demo_prover_env ''admin'' UpdateVerifierSet demo_prover =
       Inr (demo_prover\<lparr>CURRENT_VERIFIER_SET := Some vs\<rparr>, out)"
    "verifier_set_try_from demo_bridge_lib vs = Inr x"
proof -
  have "case make_verifier_set demo_bridge_lib demo_threshold demo_verifiers_env 7 of Inl _ \<Rightarrow> False
      | Inr vs \<Rightarrow> (case verifier_set_try_from demo_bridge_lib vs of Inl _ \<Rightarrow> False | Inr _ \<Rightarrow> True)"
    by code_simp
  then obtain vs x where vs: "make_verifier_set demo_bridge_lib demo_threshold demo_verifiers_env 7 = Inr vs"
      "verifier_set_try_from demo_bridge_lib vs = Inr x"
    by (auto simp: case_Inr_iff)
  have "update_verifier_set demo_bridge_lib demo_prover_env demo_prover = Inr (demo_prover\<lparr>CURRENT_VERIFIER_SET := Some vs\<rparr>,
      response\<lparr>resp_messages := [OutRegisterVerifierSet ''multisig'' x]\<rparr>)"
    by (simp add: update_verifier_set_def demo_prover_def demo_prover_env_def demo_config_def vs)
  moreover have "ensure_permissions (PERMISSIONS demo_prover) ''admin'' ([] :: (unit + addr) list) [Elevated] = Inr ()"
    by code_simp
  ultimately show thesis
    using that vs(2) by (simp add: prover_execute_def prover_permission_def demo_prover_def)
qed

definition demo_tts :: xrpl_unsigned_tx_to_sign where
  "demo_tts = \<lparr>tts_unsigned_tx = demo_bridge_payment, tts_unsigned_tx_hash = [1], tts_cc_id = Some demo_cc\<rparr>"

lemma demo_issue_payment:
  obtains s' where
    "issue_payment demo_bridge_lib (demo_prover\<lparr>CURRENT_VERIFIER_SET := Some vs\<rparr>) demo_config (replicate 20 65) (Drops 77) demo_cc None
       = Inr (s', demo_tts)" "CURRENT_VERIFIER_SET s' = Some vs" "AVAILABLE_TICKETS s' = Some [3, 5, 8]"
    "UNSIGNED_TX_HASH_TO_TX_INFO s' [1] = Some \<lparr>ti_status = TxPending, ti_unsigned_tx = demo_bridge_payment,
       ti_original_cc_id = Some demo_cc\<rparr>"
  by (simp add: issue_payment_def assign_ticket_number_def next_ticket_number_def demo_prover_def tx_fee_def
      demo_bridge_lib_def demo_lib_def MAX_SIGNERS_def issue_tx_def Let_def demo_bridge_payment_def demo_tts_def
      ensure_sufficient_fee_reserve_def should_assert_sufficient_reserve_def account_reserve_def demo_config_def
      XRPL_MULTISIG_FIXED_OWNED_OBJECTS_def MAX_TICKET_COUNT_def checked_mul_def checked_add_def checked_sub_def)

lemma demo_construct:
  assumes "verifier_set_try_from demo_bridge_lib vs = Inr x"
  obtains s out where
    "prover_execute demo_bridge_lib demo_prover_env ''relayer'' (ConstructProof demo_cc [1]) (demo_prover\<lparr>CURRENT_VERIFIER_SET := Some vs\<rparr>)
       = Inr (s, out)" "AVAILABLE_TICKETS s = Some [3, 5, 8]"
    "UNSIGNED_TX_HASH_TO_TX_INFO s [1] = Some \<lparr>ti_status = TxPending, ti_unsigned_tx = demo_bridge_payment,
       ti_original_cc_id = Some demo_cc\<rparr>"
proof -
  let ?s = "demo_prover\<lparr>CURRENT_VERIFIER_SET := Some vs\<rparr>"
  obtain s' where i: "issue_payment demo_bridge_lib ?s demo_config (replicate 20 65) (Drops 77) demo_cc None = Inr (s', demo_tts)"
      "CURRENT_VERIFIER_SET s' = Some vs" "AVAILABLE_TICKETS s' = Some [3, 5, 8]"
      "UNSIGNED_TX_HASH_TO_TX_INFO s' [1] = Some \<lparr>ti_status = TxPending, ti_unsigned_tx = demo_bridge_payment,
         ti_original_cc_id = Some demo_cc\<rparr>"
    by (rule demo_issue_payment)
  have amount: "compute_xrpl_amount demo_bridge_lib (pe_gateway demo_prover_env) ''xrpl'' (replicate 32 9) ''avalanche'' 77
      = Inr (Drops 77)"
    by code_simp
  have dest: "Option.bind (from_utf8 (replicate 20 65)) (account_id_from_str demo_bridge_lib) = Some (replicate 20 65)"
    by code_simp
  have c: "CONFIG ?s = Some demo_config" "is_contract_active (KILLSWITCH ?s)" "ensure_payment_open demo_prover_env ?s demo_cc = Inr ()"
    "pc_chain_name demo_config = ''xrpl''" "keccak256_digest demo_bridge_lib [1] = [1]"
    "payment_amount_is_zero demo_bridge_lib (Drops 77) = False"
    by (simp_all add: demo_prover_def is_contract_active_def ensure_payment_open_def demo_config_def demo_bridge_lib_def demo_lib_def)
  have e: "gq_outgoing_messages (pe_gateway demo_prover_env) [demo_cc] = Some [\<lparr>msg_cc_id = demo_cc, msg_source_address = ''hub'',
          msg_destination_chain = ''xrpl'', msg_destination_address = ''rcv'', msg_payload_hash = [1]\<rparr>]"
    "pe_abi_decode demo_prover_env [1] = Some (ReceiveFromHub ''avalanche'' (ItsInterchainTransfer
          \<lparr>it_token_id = replicate 32 9, it_source_address = [1], it_destination_address = replicate 20 65,
           it_amount = 77, it_data = None\<rparr>))"
    by (simp_all add: demo_prover_env_def)
  have "case serialize_tx_to_sign demo_bridge_lib demo_tts of Inl _ \<Rightarrow> False | Inr _ \<Rightarrow> True"
    by code_simp
  then obtain bytes where ser: "serialize_tx_to_sign demo_bridge_lib demo_tts = Inr bytes" by (auto simp: case_Inr_iff)
  have "\<exists>sub. start_signing_session demo_bridge_lib s' demo_config demo_tts (pe_contract_address demo_prover_env) None
      = Inr (s'\<lparr>REPLY_UNSIGNED_TX_HASH := Some (tts_unsigned_tx_hash demo_tts)\<rparr>, sub)"
    using i(2) assms ser by (simp add: start_signing_session_def)
  then obtain sub where sub: "start_signing_session demo_bridge_lib s' demo_config demo_tts (pe_contract_address demo_prover_env) None
      = Inr (s'\<lparr>REPLY_UNSIGNED_TX_HASH := Some (tts_unsigned_tx_hash demo_tts)\<rparr>, sub)" by blast
  have "construct_payment_proof demo_bridge_lib demo_prover_env ?s demo_config demo_cc [1] =
      Inr (s'\<lparr>REPLY_UNSIGNED_TX_HASH := Some (tts_unsigned_tx_hash demo_tts)\<rparr>, response\<lparr>resp_submessages := [sub]\<rparr>)"
    unfolding construct_payment_proof_def by (simp only: c e) (simp add: c e amount dest i sub list_first_def)
  moreover have "ensure_permissions (PERMISSIONS ?s) ''relayer'' ([] :: (unit + addr) list) [AnyPermission] = Inr ()"
    by (simp add: ensure_any)
  ultimately show thesis
    using that i(3,4) c(1) by (simp add: prover_execute_def prover_permission_def)
qed

lemma demo_bridge_run:
  obtains s where "bridge demo_bridge_lib demo_prover s [5 \<mapsto> ([1], True)]" "paid s [5 \<mapsto> ([1], True)] 5 demo_cc"
    "AVAILABLE_TICKETS s = Some [3, 5, 8]"
proof -
  obtain vs x o1 where s1: "prover_execute demo_bridge_lib demo_prover_env ''admin'' UpdateVerifierSet demo_prover =
       Inr (demo_prover\<lparr>CURRENT_VERIFIER_SET := Some vs\<rparr>, o1)" and x: "verifier_set_try_from demo_bridge_lib vs = Inr x"
    by (rule demo_first_set)
  from x obtain s2 o2 where
    s2: "prover_execute demo_bridge_lib demo_prover_env ''relayer'' (ConstructProof demo_cc [1]) (demo_prover\<lparr>CURRENT_VERIFIER_SET := Some vs\<rparr>)
       = Inr (s2, o2)" and av: "AVAILABLE_TICKETS s2 = Some [3, 5, 8]"
    and ti: "UNSIGNED_TX_HASH_TO_TX_INFO s2 [1] = Some \<lparr>ti_status = TxPending, ti_unsigned_tx = demo_bridge_payment,
       ti_original_cc_id = Some demo_cc\<rparr>"
    by (rule demo_construct)
  have t: "truthful demo_bridge_lib demo_prover_env demo_prover Map.empty"
    "truthful demo_bridge_lib demo_prover_env (demo_prover\<lparr>CURRENT_VERIFIER_SET := Some vs\<rparr>) Map.empty"
    by (simp_all add: truthful_def demo_prover_def)
  have n: "issued_number demo_bridge_lib \<lparr>ti_status = TxPending, ti_unsigned_tx = demo_bridge_payment,
            ti_original_cc_id = Some demo_cc\<rparr> = 5"
    by (simp add: issued_number_def demo_bridge_lib_def demo_lib_def demo_bridge_payment_def)
  have b: "bridge demo_bridge_lib demo_prover s2 Map.empty"
    by (rule message [OF message [OF start t(1) s1] t(2) s2])
  have "bridge demo_bridge_lib demo_prover s2 [5 \<mapsto> ([1], True)]"
    using ledger [OF b ti] by (simp add: n)
  moreover have "paid s2 [5 \<mapsto> ([1], True)] 5 demo_cc"
    using ti by (simp add: paid_def demo_bridge_payment_def)
  ultimately show thesis using that av by blast
qed

lemma demo_tickets:
  "sorted_wrt (<) (im_available_tickets demo_instantiate_msg)"
  "\<And>t. t \<in> set (im_available_tickets demo_instantiate_msg) \<Longrightarrow> t < im_next_sequence_number demo_instantiate_msg"
  by (auto simp: demo_instantiate_msg_def)

section \<open>Properties\<close>

text \<open>
  C1: A message is never paid twice. Whatever messages the prover gets, in whatever order transactions
  are signed, retried after a failure, submitted and confirmed, at most one successful transaction on the
  ledger pays for a given cross-chain message.\<close>

theorem no_double_payment:
  assumes "sequence_laws lib" and "prover_instantiate env msg = Inr s0" and "sorted_wrt (<) (im_available_tickets msg)"
    and "\<And>t. t \<in> set (im_available_tickets msg) \<Longrightarrow> t < im_next_sequence_number msg"
    and "bridge lib s0 s L" and "paid s L n cc" "paid s L n' cc"
  shows "n = n'"
proof -
  have inv: "bridge_inv lib s L"
    by (rule bridge_invariant [OF assms(5) bridge_inv_instantiate [OF assms(2-4)] assms(1)])
  show ?thesis
    using paid_ticket [OF inv assms(1,6)] paid_ticket [OF inv assms(1,7)] by simp
qed

theorem no_double_payment_witness:
  "\<exists>s L. bridge demo_bridge_lib demo_prover s L \<and> paid s L 5 demo_cc \<and> (\<forall>n. paid s L n demo_cc \<longrightarrow> n = 5)"
proof -
  obtain s where s: "bridge demo_bridge_lib demo_prover s [5 \<mapsto> ([1], True)]" "paid s [5 \<mapsto> ([1], True)] 5 demo_cc"
    by (rule demo_bridge_run)
  have "n = 5" if "paid s [5 \<mapsto> ([1], True)] n demo_cc" for n
    by (rule no_double_payment [OF demo_bridge_laws demo_instantiate demo_tickets s(1) that s(2)])
  then show ?thesis using s by blast
qed

text \<open>
  C6: The prover's tickets stay in step with the ledger. In every reachable state the available tickets are
  in ascending order and below the next sequence number, so that assigning them goes round, and a number
  that a confirmed transaction used is below the next sequence number and never offered as a ticket again.\<close>

theorem tickets_in_order:
  assumes "sequence_laws lib" and "prover_instantiate env msg = Inr s0" and "sorted_wrt (<) (im_available_tickets msg)"
    and "\<And>t. t \<in> set (im_available_tickets msg) \<Longrightarrow> t < im_next_sequence_number msg"
    and "bridge lib s0 s L"
  shows "\<exists>n tickets. NEXT_SEQUENCE_NUMBER s = Some n \<and> AVAILABLE_TICKETS s = Some tickets \<and>
    sorted_wrt (<) tickets \<and> (\<forall>t. t \<in> set tickets \<or> CONSUMED_TICKET_TO_UNSIGNED_TX_HASH s t \<noteq> None \<longrightarrow> t < n) \<and>
    (\<forall>t. CONSUMED_TICKET_TO_UNSIGNED_TX_HASH s t \<noteq> None \<longrightarrow> t \<notin> set tickets)"
proof -
  have "bridge_inv lib s L"
    by (rule bridge_invariant [OF assms(5) bridge_inv_instantiate [OF assms(2-4)] assms(1)])
  then show ?thesis unfolding bridge_inv_def ticket_inv_def consumed_inv_def by auto
qed

theorem tickets_in_order_witness:
  "\<exists>s n. bridge demo_bridge_lib demo_prover s [5 \<mapsto> ([1], True)] \<and> NEXT_SEQUENCE_NUMBER s = Some n \<and> 3 < n \<and> 5 < n \<and> 8 < n"
proof -
  obtain s where s: "bridge demo_bridge_lib demo_prover s [5 \<mapsto> ([1], True)]" "AVAILABLE_TICKETS s = Some [3, 5, 8]"
    by (rule demo_bridge_run)
  show ?thesis
    using tickets_in_order [OF demo_bridge_laws demo_instantiate demo_tickets s(1)] s by auto
qed

end
