(* ===== verification/Xrpl_Verifier.thy ===== *)
theory Xrpl_Verifier
  imports Axelar_Verifiers
begin

text \<open>
  The voting verifier of the XRPL (\<open>contracts/xrpl-voting-verifier\<close>): polls on batches of messages, the
  votes of the verifiers, and the status of a message that the gateway and the prover act on.

  The storage is a record; the indexed map of poll messages is kept sorted by the hash of the message, and
  its secondary index (poll and position) is the query that filters it. Failed assertions, \<open>expect\<close> and
  \<open>unwrap\<close> are the error \<open>VerifierPanic\<close>. The hash of a message is computed by \<open>xrpl_types\<close> and a field of
  the library record; the answer of the service registry and the address checks are fields of the
  environment.
\<close>

section \<open>State\<close>

record verifier_config =
  vc_service_registry_contract :: addr
  vc_service_name :: string
  vc_source_gateway_address :: string
  vc_voting_threshold :: threshold
  vc_block_expiry :: u64
  vc_confirmation_height :: u32
  vc_source_chain :: chain_name
  vc_rewards_contract :: addr

datatype poll = PollMessages weighted_poll

record poll_content =
  pn_content :: xrpl_message
  pn_poll_id :: u64
  pn_index_in_poll :: u32

record verifier_state =
  ver_config :: "verifier_config option"
  ver_poll_id :: "u64 option"
  ver_polls :: "u64 \<Rightarrow> poll option"
  ver_votes :: "u64 \<times> string \<Rightarrow> vote list option"
  ver_poll_messages :: "(bytes, poll_content) btree_map"
  ver_permissions :: permission_state
  ver_killswitch :: killswitch

datatype verifier_error =
    VerDisableExecution
  | VerEmptyMessages
  | VerEnableExecution
  | VerExecutionDisabled
  | VerFailedToBuildSnapshot
  | VerFailedToUpdateAdmin
  | VerInvalidSourceGatewayAddress
  | VerNonEmptyError
  | VerOverflow
  | VerPollNotFound
  | VerVoteError voting_error
  | VerStorageError
  | VerInvalidAddress
  | VerPermission permission_error
  | VerifierPanic string

type_synonym 'a verifier_result = "verifier_error + verifier_state \<times> 'a"

record poll_metadata =
  pmd_poll_id :: u64
  pmd_source_chain :: chain_name
  pmd_source_gateway_address :: string
  pmd_confirmation_height :: u32
  pmd_expires_at :: u64
  pmd_participants :: "addr list"

text \<open>\<open>VerQuorumReached\<close> carries the message and the chain its cross-chain id is built from.\<close>

datatype verifier_event =
    VerInstantiated verifier_config
  | VerPollStarted "xrpl_message list" poll_metadata
  | VerVoted u64 addr "vote list"
  | VerQuorumReached "(xrpl_message \<times> chain_name) option" verification_status u64
  | VerPollEnded u64 chain_name poll_results
  | VerExecutionDisabledEvent
  | VerExecutionEnabledEvent

record verifier_response =
  vr_messages :: "(addr \<times> chain_name \<times> string \<times> addr) list"
  vr_events :: "verifier_event list"

abbreviation ver_response :: "verifier_event list \<Rightarrow> verifier_response" where
  "ver_response evs \<equiv> \<lparr>vr_messages = [], vr_events = evs\<rparr>"

record verifier_env =
  ve_active_verifiers :: "string \<Rightarrow> chain_name \<Rightarrow> weighted_verifier list option"
  ve_validate_address :: "string \<Rightarrow> addr option"
  ve_account_id_to_string :: "xrpl_account_id \<Rightarrow> string"

definition poll_try_map :: "(weighted_poll \<Rightarrow> 'e + weighted_poll) \<Rightarrow> poll \<Rightarrow> 'e + poll" where
  "poll_try_map func self = (case self of PollMessages poll \<Rightarrow> rbind (func poll) (\<lambda>p. Inr (PollMessages p)))"

definition poll_weighted_poll :: "poll \<Rightarrow> weighted_poll" where
  "poll_weighted_poll self = (case self of PollMessages poll \<Rightarrow> poll)"

definition poll_content_new :: "xrpl_message \<Rightarrow> u64 \<Rightarrow> nat \<Rightarrow> verifier_error + poll_content" where
  "poll_content_new message poll_id index_in_poll =
     rbind (ok_or (VerifierPanic ''index out of range'') (try_of_nat index_in_poll)) (\<lambda>idx.
     Inr \<lparr>pn_content = message, pn_poll_id = poll_id, pn_index_in_poll = idx\<rparr>)"

definition load_message :: "verifier_state \<Rightarrow> u64 \<Rightarrow> u32 \<Rightarrow> verifier_error + xrpl_message option" where
  "load_message s poll_id index_in_poll =
     (case filter (\<lambda>(_, c). pn_poll_id c = poll_id \<and> pn_index_in_poll c = index_in_poll) (ver_poll_messages s) of
        [] \<Rightarrow> Inr None
      | [(_, content)] \<Rightarrow> Inr (Some (pn_content content))
      | _ \<Rightarrow> Inl (VerifierPanic ''More than one message for poll_id and index_in_poll''))"

definition load_messages :: "verifier_state \<Rightarrow> u64 \<Rightarrow> xrpl_message list" where
  "load_messages s poll_id =
     map (pn_content \<circ> snd)
       (sort_key (\<lambda>(_, c). unat (pn_index_in_poll c)) (filter (\<lambda>(_, c). pn_poll_id c = poll_id) (ver_poll_messages s)))"

section \<open>Queries\<close>

definition voting_completed :: "poll \<Rightarrow> u64 \<Rightarrow> bool" where
  "voting_completed self cur_block_height =
     (case self of PollMessages poll \<Rightarrow>
        poll_status_of poll cur_block_height = PollHasExpired \<or> poll_status_of poll cur_block_height = PollFinished)"

definition verification_status_of ::
    "verifier_state \<Rightarrow> poll_content option \<Rightarrow> xrpl_message \<Rightarrow> u64 \<Rightarrow> verifier_error + verification_status" where
  "verification_status_of s stored_poll_content content cur_block_height =
     (case stored_poll_content of
        Some stored \<Rightarrow>
          if pn_content stored \<noteq> content then
            Inl (VerifierPanic ''invalid invariant: content mismatch with the stored one'')
          else
            rbind (ok_or (VerifierPanic ''invalid invariant: content's poll not found'')
                     (ver_polls s (pn_poll_id stored))) (\<lambda>self.
            rbind (case self of PollMessages poll \<Rightarrow>
                     map_err (\<lambda>_. VerifierPanic ''invalid invariant: message not found in poll'')
                       (poll_consensus poll (pn_index_in_poll stored))) (\<lambda>consensus.
            Inr (case consensus of
                   Some SucceededOnChain \<Rightarrow> SucceededOnSourceChain
                 | Some FailedOnChain \<Rightarrow> FailedOnSourceChain
                 | Some VoteNotFound \<Rightarrow> NotFoundOnSourceChain
                 | None \<Rightarrow> if voting_completed self cur_block_height then FailedToVerify else InProgress)))
      | None \<Rightarrow> Inr Unknown)"

definition verifier_message_status ::
    "xrpl_lib \<Rightarrow> verifier_state \<Rightarrow> xrpl_message \<Rightarrow> u64 \<Rightarrow> verifier_error + verification_status" where
  "verifier_message_status lib s message cur_block_height =
     verification_status_of s (map_of (ver_poll_messages s) (message_hash lib message)) message cur_block_height"

definition messages_status ::
    "xrpl_lib \<Rightarrow> verifier_state \<Rightarrow> xrpl_message list \<Rightarrow> u64 \<Rightarrow> verifier_error + (xrpl_message \<times> verification_status) list" where
  "messages_status lib s messages cur_block_height =
     try_map (\<lambda>message. rbind (verifier_message_status lib s message cur_block_height) (\<lambda>status. Inr (message, status))) messages"

definition poll_response ::
    "verifier_state \<Rightarrow> u64 \<Rightarrow> u64 \<Rightarrow> verifier_error + weighted_poll \<times> xrpl_message list \<times> poll_status" where
  "poll_response s current_block_height poll_id =
     rbind (ok_or VerPollNotFound (ver_polls s poll_id)) (\<lambda>self.
     case self of PollMessages poll \<Rightarrow>
       (let msgs = load_messages s poll_id in
        if length (wp_tallies poll) \<noteq> length msgs
        then Inl (VerifierPanic ''data inconsistency for number of messages in poll'')
        else Inr (poll_weighted_poll self, msgs, poll_status_of poll current_block_height)))"

definition voting_parameters :: "verifier_state \<Rightarrow> verifier_error + threshold \<times> u64 \<times> u32" where
  "voting_parameters s =
     rbind (ok_or VerStorageError (ver_config s)) (\<lambda>config.
     Inr (vc_voting_threshold config, vc_block_expiry config, vc_confirmation_height config))"

section \<open>Handlers\<close>

abbreviation expect_config :: "verifier_state \<Rightarrow> verifier_error + verifier_config" where
  "expect_config s \<equiv> ok_or (VerifierPanic ''failed to load config'') (ver_config s)"

definition update_voting_parameters ::
    "verifier_state \<Rightarrow> threshold option \<Rightarrow> u64 option \<Rightarrow> u32 option \<Rightarrow> verifier_response verifier_result" where
  "update_voting_parameters s voting_threshold block_expiry confirmation_height =
     rbind (ok_or VerStorageError (ver_config s)) (\<lambda>config.
     let config = config\<lparr>
           vc_voting_threshold := (case voting_threshold of Some t \<Rightarrow> t | None \<Rightarrow> vc_voting_threshold config),
           vc_block_expiry := (case block_expiry of Some t \<Rightarrow> t | None \<Rightarrow> vc_block_expiry config),
           vc_confirmation_height := (case confirmation_height of Some t \<Rightarrow> t | None \<Rightarrow> vc_confirmation_height config)\<rparr>
     in Inr (s\<lparr>ver_config := Some config\<rparr>, ver_response []))"

definition participant_from :: "weighted_verifier \<Rightarrow> participant" where
  "participant_from v = \<lparr>p_address = wv_address v, p_weight = wv_weight v\<rparr>"

definition take_snapshot :: "verifier_env \<Rightarrow> verifier_state \<Rightarrow> verifier_error + snapshot" where
  "take_snapshot env s =
     rbind (expect_config s) (\<lambda>config.
     rbind (ok_or VerFailedToBuildSnapshot
              (ve_active_verifiers env (vc_service_name config) (vc_source_chain config))) (\<lambda>verifiers.
     let participants = map participant_from verifiers in
     if participants = [] then Inl VerNonEmptyError
     else map_err (\<lambda>_. VerifierPanic ''snapshot'') (snapshot_new (vc_voting_threshold config) participants)))"

definition create_messages_poll :: "verifier_state \<Rightarrow> u64 \<Rightarrow> snapshot \<Rightarrow> nat \<Rightarrow> u64 verifier_result" where
  "create_messages_poll s expires_at snapshot poll_size =
     rbind (map_err (\<lambda>_. VerStorageError) (counter_incr (ver_poll_id s))) (\<lambda>i.
     let poll = weighted_poll_new i snapshot expires_at poll_size in
     Inr (s\<lparr>ver_poll_id := Some i, ver_polls := (ver_polls s)(i \<mapsto> PollMessages poll)\<rparr>, i))"

definition calculate_expiration :: "u64 \<Rightarrow> u64 \<Rightarrow> verifier_error + u64" where
  "calculate_expiration block_height block_expiry = ok_or VerOverflow (checked_add block_height block_expiry)"

definition save_poll_message ::
    "xrpl_lib \<Rightarrow> u64 \<Rightarrow> verifier_state \<Rightarrow> nat \<times> xrpl_message \<Rightarrow> verifier_error + verifier_state" where
  "save_poll_message lib i s im =
     (case im of (idx, message) \<Rightarrow>
        rbind (poll_content_new message i idx) (\<lambda>content.
        Inr (s\<lparr>ver_poll_messages := bt_insert (message_hash lib message) content (ver_poll_messages s)\<rparr>)))"

definition needs_poll :: "verification_status \<Rightarrow> bool" where
  "needs_poll status =
     (case status of
        NotFoundOnSourceChain \<Rightarrow> True | FailedToVerify \<Rightarrow> True | Unknown \<Rightarrow> True
      | InProgress \<Rightarrow> False | SucceededOnSourceChain \<Rightarrow> False | FailedOnSourceChain \<Rightarrow> False)"

definition verify_messages ::
    "xrpl_lib \<Rightarrow> verifier_env \<Rightarrow> verifier_state \<Rightarrow> u64 \<Rightarrow> xrpl_message list \<Rightarrow> verifier_response verifier_result" where
  "verify_messages lib env s block_height messages =
     (if \<not> is_contract_active (ver_killswitch s) then Inl VerExecutionDisabled
      else if messages = [] then Inl VerEmptyMessages
      else
        rbind (expect_config s) (\<lambda>config.
        rbind (try_map (\<lambda>message.
                 rbind (verifier_message_status lib s message block_height) (\<lambda>status. Inr (status, message))) messages) (\<lambda>messages.
        let msgs_to_verify = map snd (filter (\<lambda>(status, _). needs_poll status) messages) in
        if msgs_to_verify = [] then Inr (s, ver_response [])
        else
          rbind (take_snapshot env s) (\<lambda>snapshot.
          let participants = snapshot_participants snapshot in
          rbind (calculate_expiration block_height (vc_block_expiry config)) (\<lambda>expires_at.
          rbind (create_messages_poll s expires_at snapshot (length msgs_to_verify)) (\<lambda>(s, i).
          rbind (try_fold (save_poll_message lib i) s (enumerate 0 msgs_to_verify)) (\<lambda>s.
          Inr (s, ver_response
            [VerPollStarted msgs_to_verify
               \<lparr>pmd_poll_id = i, pmd_source_chain = vc_source_chain config,
                pmd_source_gateway_address = vc_source_gateway_address config,
                pmd_confirmation_height = vc_confirmation_height config,
                pmd_expires_at = expires_at, pmd_participants = participants\<rparr>]))))))))"

definition ver_poll_results :: "poll \<Rightarrow> verifier_error + poll_results" where
  "ver_poll_results self =
     (case self of PollMessages weighted_poll \<Rightarrow> map_err (\<lambda>_. VerifierPanic ''vote'') (poll_results_of weighted_poll))"

definition make_quorum_event ::
    "verifier_state \<Rightarrow> vote option \<Rightarrow> u32 \<Rightarrow> u64 \<Rightarrow> verifier_error + verifier_event option" where
  "make_quorum_event s vote index_in_poll poll_id =
     (let status = map_option (\<lambda>vote. case vote of
            SucceededOnChain \<Rightarrow> SucceededOnSourceChain
          | FailedOnChain \<Rightarrow> FailedOnSourceChain
          | VoteNotFound \<Rightarrow> NotFoundOnSourceChain) vote in
      rbind (expect_config s) (\<lambda>config.
      rbind (load_message s poll_id index_in_poll) (\<lambda>msg.
      Inr (map_option (\<lambda>status. VerQuorumReached (map_option (\<lambda>m. (m, vc_source_chain config)) msg) status poll_id) status))))"

definition ver_vote ::
    "verifier_state \<Rightarrow> u64 \<Rightarrow> addr \<Rightarrow> u64 \<Rightarrow> vote list \<Rightarrow> verifier_response verifier_result" where
  "ver_vote s block_height sender poll_id votes =
     rbind (ok_or VerPollNotFound (ver_polls s poll_id)) (\<lambda>poll.
     rbind (ver_poll_results poll) (\<lambda>results_before_voting.
     rbind (poll_try_map (\<lambda>poll. map_err VerVoteError (cast_vote poll block_height sender votes)) poll) (\<lambda>poll.
     let s = s\<lparr>ver_polls := (ver_polls s)(poll_id \<mapsto> poll)\<rparr> in
     rbind (ver_poll_results poll) (\<lambda>results_after_voting.
     rbind (map_err (\<lambda>_. VerifierPanic ''failed to substract poll results'')
              (poll_results_difference results_after_voting results_before_voting)) (\<lambda>changed.
     rbind (try_map (\<lambda>(index_in_poll, vote).
              rbind (ok_or (VerifierPanic ''the amount of votes should never overflow u32'') (try_of_nat index_in_poll)) (\<lambda>idx.
              make_quorum_event s vote idx poll_id)) (enumerate 0 changed)) (\<lambda>quorum_events.
     let s = s\<lparr>ver_votes := (ver_votes s)((poll_id, sender) \<mapsto> votes)\<rparr> in
     Inr (s, ver_response (VerVoted poll_id sender votes # List.map_filter (\<lambda>e. e) quorum_events))))))))"

definition end_poll :: "verifier_state \<Rightarrow> u64 \<Rightarrow> u64 \<Rightarrow> verifier_response verifier_result" where
  "end_poll s block_height poll_id =
     rbind (expect_config s) (\<lambda>config.
     rbind (ok_or VerPollNotFound (ver_polls s poll_id)) (\<lambda>poll.
     rbind (poll_try_map (\<lambda>poll. map_err VerVoteError (poll_finish poll block_height)) poll) (\<lambda>poll.
     let s = s\<lparr>ver_polls := (ver_polls s)(poll_id \<mapsto> poll)\<rparr> in
     rbind (case poll of PollMessages poll \<Rightarrow>
              map_err (\<lambda>_. VerifierPanic ''vote'') (poll_state_of poll (\<lambda>voter. ver_votes s (poll_id, voter)))) (\<lambda>poll_result.
     let rewards_msgs =
           map (\<lambda>address. (vc_rewards_contract config, vc_source_chain config, show_nat (unat poll_id), address))
             (ps_consensus_participants poll_result) in
     Inr (s, \<lparr>vr_messages = rewards_msgs,
              vr_events = [VerPollEnded (ps_poll_id poll_result) (vc_source_chain config) (ps_results poll_result)]\<rparr>)))))"

definition ver_disable_execution :: "verifier_state \<Rightarrow> verifier_response verifier_result" where
  "ver_disable_execution s =
     rbind (map_err (\<lambda>_. VerDisableExecution) (engage VerExecutionDisabledEvent (ver_killswitch s))) (\<lambda>(k, evs).
     Inr (s\<lparr>ver_killswitch := k\<rparr>, ver_response evs))"

definition ver_enable_execution :: "verifier_state \<Rightarrow> verifier_response verifier_result" where
  "ver_enable_execution s =
     rbind (map_err (\<lambda>_. VerEnableExecution) (disengage VerExecutionEnabledEvent (ver_killswitch s))) (\<lambda>(k, evs).
     Inr (s\<lparr>ver_killswitch := k\<rparr>, ver_response evs))"

definition ver_update_admin :: "verifier_env \<Rightarrow> verifier_state \<Rightarrow> string \<Rightarrow> verifier_response verifier_result" where
  "ver_update_admin env s new_admin_address =
     rbind (ok_or VerFailedToUpdateAdmin (ve_validate_address env new_admin_address)) (\<lambda>new_admin.
     Inr (s\<lparr>ver_permissions := set_admin new_admin (ver_permissions s)\<rparr>, ver_response []))"

section \<open>Messages\<close>

datatype verifier_msg =
    EndPoll u64
  | CastVote u64 "vote list"
  | VerifyMessages "xrpl_message list"
  | UpdateVotingParameters "threshold option" "u64 option" "u32 option"
  | VerEnableExecutionMsg
  | VerDisableExecutionMsg
  | VerUpdateAdmin string

definition verifier_permission :: "verifier_msg \<Rightarrow> flag_set" where
  "verifier_permission msg =
     (case msg of
        EndPoll _ \<Rightarrow> AnyPermission
      | CastVote _ _ \<Rightarrow> AnyPermission
      | VerifyMessages _ \<Rightarrow> AnyPermission
      | UpdateVotingParameters _ _ _ \<Rightarrow> Governance
      | VerEnableExecutionMsg \<Rightarrow> Elevated
      | VerDisableExecutionMsg \<Rightarrow> Elevated
      | VerUpdateAdmin _ \<Rightarrow> Elevated)"

definition verifier_execute ::
    "xrpl_lib \<Rightarrow> verifier_env \<Rightarrow> u64 \<Rightarrow> addr \<Rightarrow> verifier_msg \<Rightarrow> verifier_state \<Rightarrow> verifier_response verifier_result" where
  "verifier_execute lib env block_height sender msg s =
     rbind (map_err VerPermission
              (ensure_permissions (ver_permissions s) sender ([] :: (unit + addr) list) [verifier_permission msg])) (\<lambda>_.
     case msg of
       VerifyMessages messages \<Rightarrow> verify_messages lib env s block_height messages
     | CastVote poll_id votes \<Rightarrow> ver_vote s block_height sender poll_id votes
     | EndPoll poll_id \<Rightarrow> end_poll s block_height poll_id
     | UpdateVotingParameters voting_threshold block_expiry confirmation_height \<Rightarrow>
         update_voting_parameters s voting_threshold block_expiry confirmation_height
     | VerDisableExecutionMsg \<Rightarrow> ver_disable_execution s
     | VerEnableExecutionMsg \<Rightarrow> ver_enable_execution s
     | VerUpdateAdmin new_admin_address \<Rightarrow> ver_update_admin env s new_admin_address)"

record verifier_instantiate_msg =
  vim_admin_address :: string
  vim_governance_address :: string
  vim_service_registry_address :: string
  vim_service_name :: string
  vim_source_gateway_address :: xrpl_account_id
  vim_voting_threshold :: threshold
  vim_block_expiry :: u64
  vim_confirmation_height :: u32
  vim_source_chain :: chain_name
  vim_rewards_address :: string

definition verifier_instantiate :: "verifier_env \<Rightarrow> verifier_instantiate_msg \<Rightarrow> verifier_response verifier_result" where
  "verifier_instantiate env msg =
     rbind (ok_or VerInvalidAddress (ve_validate_address env (vim_governance_address msg))) (\<lambda>governance_addr.
     rbind (ok_or VerInvalidAddress (ve_validate_address env (vim_admin_address msg))) (\<lambda>admin_addr.
     rbind (ok_or VerInvalidAddress (ve_validate_address env (vim_service_registry_address msg))) (\<lambda>registry.
     let gateway = ve_account_id_to_string env (vim_source_gateway_address msg) in
     if gateway = [] then Inl VerInvalidSourceGatewayAddress
     else
       rbind (ok_or VerInvalidAddress (ve_validate_address env (vim_rewards_address msg))) (\<lambda>rewards.
       let config = \<lparr>vc_service_registry_contract = registry, vc_service_name = vim_service_name msg,
             vc_source_gateway_address = gateway, vc_voting_threshold = vim_voting_threshold msg,
             vc_block_expiry = vim_block_expiry msg, vc_confirmation_height = vim_confirmation_height msg,
             vc_source_chain = vim_source_chain msg, vc_rewards_contract = rewards\<rparr> in
       Inr (\<lparr>ver_config = Some config, ver_poll_id = None, ver_polls = Map.empty, ver_votes = Map.empty,
             ver_poll_messages = [],
             ver_permissions = set_governance governance_addr (set_admin admin_addr \<lparr>admin = None, governance = None\<rparr>),
             ver_killswitch = killswitch_init Disengaged\<rparr>, ver_response [VerInstantiated config])))))"

section \<open>The status of a message\<close>

definition outcome :: "vote option \<Rightarrow> bool \<Rightarrow> verification_status" where
  "outcome consensus completed =
     (case consensus of
        Some SucceededOnChain \<Rightarrow> SucceededOnSourceChain
      | Some FailedOnChain \<Rightarrow> FailedOnSourceChain
      | Some VoteNotFound \<Rightarrow> NotFoundOnSourceChain
      | None \<Rightarrow> if completed then FailedToVerify else InProgress)"

lemma outcome_simps [simp]:
  "outcome (Some SucceededOnChain) b = SucceededOnSourceChain"
  "outcome (Some FailedOnChain) b = FailedOnSourceChain"
  "outcome (Some VoteNotFound) b = NotFoundOnSourceChain"
  "outcome None True = FailedToVerify"
  "outcome None False = InProgress"
  by (simp_all add: outcome_def)

lemma outcome_not_unknown [simp]: "outcome c b \<noteq> Unknown"
  by (auto simp: outcome_def split: option.splits vote.splits)

text \<open>Where a stored message is voted on.\<close>

definition polled :: "verifier_state \<Rightarrow> poll_content \<Rightarrow> weighted_poll \<Rightarrow> bool" where
  "polled s c p \<longleftrightarrow> ver_polls s (pn_poll_id c) = Some (PollMessages p)"

lemma ex_poll [result_simps]: "(\<exists>x. P x) \<longleftrightarrow> (\<exists>w. P (PollMessages w))"
  by (metis poll.exhaust)

lemma status_Inr_iff:
  "verifier_message_status lib s m h = Inr st \<longleftrightarrow>
     (case map_of (ver_poll_messages s) (message_hash lib m) of
        None \<Rightarrow> st = Unknown
      | Some c \<Rightarrow> pn_content c = m \<and> (\<exists>p v. polled s c p \<and> poll_consensus p (pn_index_in_poll c) = Inr v \<and>
          st = outcome v (voting_completed (PollMessages p) h)))"
proof (cases "map_of (ver_poll_messages s) (message_hash lib m)")
  case (Some c)
  show ?thesis
    unfolding verifier_message_status_def verification_status_of_def Some option.simps polled_def outcome_def
    by (auto simp: result_simps)
qed (auto simp: verifier_message_status_def verification_status_of_def)

lemma status_InrI:
  assumes "map_of (ver_poll_messages s) (message_hash lib m) = Some c" "pn_content c = m" "polled s c p"
    "poll_consensus p (pn_index_in_poll c) = Inr v" "st = outcome v (voting_completed (PollMessages p) h)"
  shows "verifier_message_status lib s m h = Inr st"
  unfolding status_Inr_iff using assms by auto

lemma status_entry:
  assumes "verifier_message_status lib s m h = Inr st" "map_of (ver_poll_messages s) (message_hash lib m) = Some c"
  obtains p v where "pn_content c = m" "polled s c p" "poll_consensus p (pn_index_in_poll c) = Inr v"
    "st = outcome v (voting_completed (PollMessages p) h)"
  using assms by (auto simp: status_Inr_iff)

lemma polled_unique: "polled s c p \<Longrightarrow> polled s c q \<Longrightarrow> p = q"
  by (simp add: polled_def)

section \<open>What a message changes\<close>

text \<open>
  A new poll on a batch of messages that need one, a vote, the end of a poll, and a change of the settings.
\<close>

definition config_ok :: "verifier_config option \<Rightarrow> bool" where
  "config_ok conf \<longleftrightarrow> (\<forall>c. conf = Some c \<longrightarrow> is_majority (vc_voting_threshold c) \<and> vc_block_expiry c \<noteq> 0)"

inductive verifier_effect :: "xrpl_lib \<Rightarrow> verifier_env \<Rightarrow> u64 \<Rightarrow> verifier_state \<Rightarrow> verifier_state \<Rightarrow> bool"
  for lib env h s where
  poll: "ver_config s = Some config \<Longrightarrow>
    (\<And>m. m \<in> set msgs \<Longrightarrow> \<exists>st. verifier_message_status lib s m h = Inr st \<and> needs_poll st) \<Longrightarrow>
    take_snapshot env s = Inr snap \<Longrightarrow> calculate_expiration h (vc_block_expiry config) = Inr e \<Longrightarrow>
    counter_incr (ver_poll_id s) = Inr i \<Longrightarrow>
    try_fold (save_poll_message lib i)
      (s\<lparr>ver_poll_id := Some i, ver_polls := (ver_polls s)(i \<mapsto> PollMessages (weighted_poll_new i snap e (length msgs)))\<rparr>)
      (enumerate 0 msgs) = Inr s' \<Longrightarrow> verifier_effect lib env h s s'"
| vote: "ver_polls s i = Some (PollMessages p) \<Longrightarrow> cast_vote p h sender votes = Inr p' \<Longrightarrow>
    verifier_effect lib env h s (s\<lparr>ver_polls := (ver_polls s)(i \<mapsto> PollMessages p'),
      ver_votes := (ver_votes s)((i, sender) \<mapsto> votes)\<rparr>)"
| finish: "ver_polls s i = Some (PollMessages p) \<Longrightarrow> poll_finish p h = Inr p' \<Longrightarrow>
    verifier_effect lib env h s (s\<lparr>ver_polls := (ver_polls s)(i \<mapsto> PollMessages p')\<rparr>)"
| settings: "(config_ok (ver_config s) \<Longrightarrow> config_ok conf) \<Longrightarrow>
    verifier_effect lib env h s (s\<lparr>ver_config := conf, ver_permissions := perm, ver_killswitch := k\<rparr>)"

lemma verify_messages_effect:
  assumes "verify_messages lib env s h messages = Inr (s', out)"
  shows "s' = s \<or> verifier_effect lib env h s s'"
proof -
  from assms obtain config ms where c: "ver_config s = Some config"
    and ms: "try_map (\<lambda>message. rbind (verifier_message_status lib s message h) (\<lambda>status. Inr (status, message))) messages = Inr ms"
    and r: "(let msgs_to_verify = map snd (filter (\<lambda>(status, _). needs_poll status) ms) in
        if msgs_to_verify = [] then Inr (s, ver_response [])
        else
          rbind (take_snapshot env s) (\<lambda>snapshot.
          let participants = snapshot_participants snapshot in
          rbind (calculate_expiration h (vc_block_expiry config)) (\<lambda>expires_at.
          rbind (create_messages_poll s expires_at snapshot (length msgs_to_verify)) (\<lambda>(s, i).
          rbind (try_fold (save_poll_message lib i) s (enumerate 0 msgs_to_verify)) (\<lambda>s.
          Inr (s, ver_response
            [VerPollStarted msgs_to_verify
               \<lparr>pmd_poll_id = i, pmd_source_chain = vc_source_chain config,
                pmd_source_gateway_address = vc_source_gateway_address config,
                pmd_confirmation_height = vc_confirmation_height config,
                pmd_expires_at = expires_at, pmd_participants = participants\<rparr>])))))) = Inr (s', out)"
    by (auto simp: verify_messages_def result_simps split: if_splits)
  define msgs where "msgs = map snd (filter (\<lambda>(status, _). needs_poll status) ms)"
  have st: "\<exists>st. verifier_message_status lib s m h = Inr st \<and> needs_poll st" if "m \<in> set msgs" for m
  proof -
    from that obtain st where "(st, m) \<in> set ms" "needs_poll st" by (auto simp: msgs_def)
    then show ?thesis
      using ms [unfolded try_map_Inr_iff] by (auto simp: in_set_conv_nth list_all2_conv_all_nth result_simps)
  qed
  show ?thesis
  proof (cases "msgs = []")
    case True
    then show ?thesis using r by (simp add: msgs_def Let_def)
  next
    case False
    with r [folded msgs_def] obtain snap e i where "take_snapshot env s = Inr snap" "calculate_expiration h (vc_block_expiry config) = Inr e"
      "counter_incr (ver_poll_id s) = Inr i"
      "try_fold (save_poll_message lib i)
        (s\<lparr>ver_poll_id := Some i, ver_polls := (ver_polls s)(i \<mapsto> PollMessages (weighted_poll_new i snap e (length msgs)))\<rparr>)
        (enumerate 0 msgs) = Inr s'"
      by (auto simp: Let_def result_simps create_messages_poll_def)
    then show ?thesis using poll [OF c st] by blast
  qed
qed

lemma ver_vote_effect:
  assumes "ver_vote s h sender i votes = Inr (s', out)"
  shows "verifier_effect lib env h s s'"
proof -
  from assms obtain p p' where "ver_polls s i = Some (PollMessages p)" "cast_vote p h sender votes = Inr p'"
    "s' = s\<lparr>ver_polls := (ver_polls s)(i \<mapsto> PollMessages p'), ver_votes := (ver_votes s)((i, sender) \<mapsto> votes)\<rparr>"
    by (auto simp: ver_vote_def result_simps poll_try_map_def Let_def)
  then show ?thesis using vote by metis
qed

lemma end_poll_effect:
  assumes "end_poll s h i = Inr (s', out)"
  shows "verifier_effect lib env h s s'"
proof -
  from assms obtain p p' where "ver_polls s i = Some (PollMessages p)" "poll_finish p h = Inr p'"
    "s' = s\<lparr>ver_polls := (ver_polls s)(i \<mapsto> PollMessages p')\<rparr>"
    by (auto simp: end_poll_def result_simps poll_try_map_def Let_def)
  then show ?thesis using finish by metis
qed

text \<open>
  A call as the contract can get it: \<open>MajorityThreshold\<close> and \<open>nonempty::Uint64\<close> exclude other parameters,
  and the weights the service registry reports for the active verifiers fit into 128 bits.
\<close>

type_synonym verifier_call = "verifier_env \<times> u64 \<times> addr \<times> verifier_msg"

definition verifier_call_ok :: "verifier_call \<Rightarrow> bool" where
  "verifier_call_ok call =
     (case call of (env, h, sender, msg) \<Rightarrow>
        (\<forall>name chain vs. ve_active_verifiers env name chain = Some vs \<longrightarrow> sum_list (map (unat \<circ> wv_weight) vs) < 2 ^ 128) \<and>
        (\<forall>t b c. msg = UpdateVotingParameters t b c \<longrightarrow>
           (\<forall>t'. t = Some t' \<longrightarrow> is_majority t') \<and> (\<forall>b'. b = Some b' \<longrightarrow> b' \<noteq> 0)))"

definition verifier_step :: "xrpl_lib \<Rightarrow> verifier_call \<Rightarrow> verifier_state \<Rightarrow> verifier_error + verifier_state" where
  "verifier_step lib call s =
     (case call of (env, h, sender, msg) \<Rightarrow> new_state (verifier_execute lib env h sender msg s))"

lemma ver_settings_effect:
  assumes "s' = s\<lparr>ver_config := ver_config s', ver_permissions := ver_permissions s', ver_killswitch := ver_killswitch s'\<rparr>"
    and "config_ok (ver_config s) \<Longrightarrow> config_ok (ver_config s')"
  shows "verifier_effect lib env h s s'"
  by (subst assms(1)) (rule settings [OF assms(2)])

lemma update_voting_parameters_effect:
  assumes "update_voting_parameters s t b c = Inr (s', out)" "verifier_call_ok (env, h, sender, UpdateVotingParameters t b c)"
  shows "verifier_effect lib env h s s'"
proof (rule ver_settings_effect)
  from assms(1) obtain config where s': "ver_config s = Some config" "s' = s\<lparr>ver_config := Some (config\<lparr>
           vc_voting_threshold := (case t of Some t \<Rightarrow> t | None \<Rightarrow> vc_voting_threshold config),
           vc_block_expiry := (case b of Some t \<Rightarrow> t | None \<Rightarrow> vc_block_expiry config),
           vc_confirmation_height := (case c of Some t \<Rightarrow> t | None \<Rightarrow> vc_confirmation_height config)\<rparr>)\<rparr>"
    by (auto simp: update_voting_parameters_def result_simps Let_def)
  then show "s' = s\<lparr>ver_config := ver_config s', ver_permissions := ver_permissions s', ver_killswitch := ver_killswitch s'\<rparr>"
    by simp
  show "config_ok (ver_config s')" if "config_ok (ver_config s)"
    using that s' assms(2) by (auto simp: config_ok_def verifier_call_ok_def split: option.splits)
qed

lemma verifier_execute_effect:
  assumes "verifier_execute lib env h sender msg s = Inr (s', out)" "verifier_call_ok (env, h, sender, msg)"
  shows "verifier_effect lib env h s s'"
proof (cases msg)
  case (VerifyMessages ms)
  then have "verify_messages lib env s h ms = Inr (s', out)"
    using assms(1) by (simp add: verifier_execute_def result_simps)
  then show ?thesis using verify_messages_effect ver_settings_effect [of s' s] by fastforce
next
  case (CastVote i votes)
  then have "ver_vote s h sender i votes = Inr (s', out)"
    using assms(1) by (simp add: verifier_execute_def result_simps)
  then show ?thesis by (rule ver_vote_effect)
next
  case (EndPoll i)
  then have "end_poll s h i = Inr (s', out)"
    using assms(1) by (simp add: verifier_execute_def result_simps)
  then show ?thesis by (rule end_poll_effect)
next
  case (UpdateVotingParameters t b c)
  then have "update_voting_parameters s t b c = Inr (s', out)"
    using assms(1) by (simp add: verifier_execute_def result_simps)
  then show ?thesis using update_voting_parameters_effect assms(2) UpdateVotingParameters by blast
qed (use assms(1) in \<open>auto simp: verifier_execute_def result_simps ver_disable_execution_def ver_enable_execution_def
      ver_update_admin_def intro!: ver_settings_effect\<close>)

section \<open>Invariants\<close>

text \<open>
  The votes recorded for an item of a poll add up to its tally, and who is marked as having voted has
  recorded votes.
\<close>

definition recorded :: "verifier_state \<Rightarrow> u64 \<Rightarrow> nat \<Rightarrow> vote \<Rightarrow> addr \<Rightarrow> bool" where
  "recorded s i k v a \<longleftrightarrow> (case ver_votes s (i, a) of None \<Rightarrow> False | Some vs \<Rightarrow> k < length vs \<and> vs ! k = v)"

definition recorded_weight :: "verifier_state \<Rightarrow> u64 \<Rightarrow> weighted_poll \<Rightarrow> nat \<Rightarrow> vote \<Rightarrow> nat" where
  "recorded_weight s i p k v =
     sum_list (map (\<lambda>(a, part). if recorded s i k v a then unat (part_weight part) else 0) (wp_participation p))"

definition votes_ok :: "verifier_state \<Rightarrow> u64 \<Rightarrow> weighted_poll \<Rightarrow> bool" where
  "votes_ok s i p \<longleftrightarrow>
     (\<forall>a part. map_of (wp_participation p) a = Some part \<longrightarrow> (part_voted part \<longleftrightarrow> ver_votes s (i, a) \<noteq> None)) \<and>
     (\<forall>k v. k < length (wp_tallies p) \<longrightarrow> unat (tally_of (wp_tallies p ! k) v) = recorded_weight s i p k v)"

definition verifier_inv :: "xrpl_lib \<Rightarrow> verifier_state \<Rightarrow> bool" where
  "verifier_inv lib s \<longleftrightarrow>
     config_ok (ver_config s) \<and> bt_wf (ver_poll_messages s) \<and>
     (\<forall>key c. map_of (ver_poll_messages s) key = Some c \<longrightarrow>
        message_hash lib (pn_content c) = key \<and>
        (\<exists>p. polled s c p \<and> unat (pn_index_in_poll c) < length (wp_tallies p))) \<and>
     (\<forall>i p. ver_polls s i = Some (PollMessages p) \<longrightarrow>
        i \<le> counter_cur (ver_poll_id s) \<and> poll_inv p \<and> majority_quorum p \<and> votes_ok s i p) \<and>
     (\<forall>i a. ver_votes s (i, a) \<noteq> None \<longrightarrow> i \<le> counter_cur (ver_poll_id s))"

lemma verifier_inv_content:
  assumes "verifier_inv lib s" "map_of (ver_poll_messages s) key = Some c"
  obtains p where "message_hash lib (pn_content c) = key" "polled s c p" "unat (pn_index_in_poll c) < length (wp_tallies p)"
  using assms unfolding verifier_inv_def by blast

lemma verifier_inv_polls:
  assumes "verifier_inv lib s" "ver_polls s i = Some (PollMessages p)"
  shows "i \<le> counter_cur (ver_poll_id s)" "poll_inv p" "majority_quorum p" "votes_ok s i p"
  using assms unfolding verifier_inv_def by blast+

lemma verifier_inv_votes:
  "verifier_inv lib s \<Longrightarrow> ver_votes s (i, a) \<noteq> None \<Longrightarrow> i \<le> counter_cur (ver_poll_id s)"
  unfolding verifier_inv_def by blast

lemma save_poll_messages_effect:
  assumes "try_fold (save_poll_message lib i) s (enumerate n msgs) = Inr s'" "bt_wf (ver_poll_messages s)"
  shows "\<exists>M. s' = s\<lparr>ver_poll_messages := M\<rparr> \<and> bt_wf M \<and> (msgs \<noteq> [] \<longrightarrow> n + length msgs \<le> 2 ^ 32) \<and>
    (\<forall>key. (map_of M key = map_of (ver_poll_messages s) key \<and> key \<notin> message_hash lib ` set msgs) \<or>
      (\<exists>m k. m \<in> set msgs \<and> message_hash lib m = key \<and> unat k < n + length msgs \<and>
         map_of M key = Some \<lparr>pn_content = m, pn_poll_id = i, pn_index_in_poll = k\<rparr>))"
  using assms
proof (induction msgs arbitrary: n s)
  case Nil
  then show ?case by (intro exI [of _ "ver_poll_messages s"]) simp
next
  case (Cons m msgs)
  from Cons.prems(1) obtain t where t: "save_poll_message lib i s (n, m) = Inr t"
      "try_fold (save_poll_message lib i) t (enumerate (Suc n) msgs) = Inr s'"
    by (auto simp: result_simps)
  from t(1) obtain k where k: "unat (k :: u32) = n" and t': "t = s\<lparr>ver_poll_messages :=
      bt_insert (message_hash lib m) \<lparr>pn_content = m, pn_poll_id = i, pn_index_in_poll = k\<rparr> (ver_poll_messages s)\<rparr>"
    by (auto simp: save_poll_message_def poll_content_new_def result_simps try_of_nat_Some)
  from t(2) have f: "try_fold (save_poll_message lib i)
        (s\<lparr>ver_poll_messages := bt_insert (message_hash lib m) \<lparr>pn_content = m, pn_poll_id = i, pn_index_in_poll = k\<rparr> (ver_poll_messages s)\<rparr>)
        (enumerate (Suc n) msgs) = Inr s'"
    by (simp add: t')
  have wf: "bt_wf (bt_insert (message_hash lib m) \<lparr>pn_content = m, pn_poll_id = i, pn_index_in_poll = k\<rparr> (ver_poll_messages s))"
    using Cons.prems(2) by (rule bt_wf_insert)
  from Cons.IH [OF f] wf obtain M where M: "s' = s\<lparr>ver_poll_messages := M\<rparr>" "bt_wf M"
      "msgs \<noteq> [] \<longrightarrow> Suc n + length msgs \<le> 2 ^ 32"
    and keys: "\<And>key. (map_of M key = map_of (bt_insert (message_hash lib m) \<lparr>pn_content = m, pn_poll_id = i, pn_index_in_poll = k\<rparr> (ver_poll_messages s)) key
        \<and> key \<notin> message_hash lib ` set msgs) \<or>
      (\<exists>m k. m \<in> set msgs \<and> message_hash lib m = key \<and> unat k < Suc n + length msgs \<and>
         map_of M key = Some \<lparr>pn_content = m, pn_poll_id = i, pn_index_in_poll = k\<rparr>)"
    by auto
  have "(map_of M key = map_of (ver_poll_messages s) key \<and> key \<notin> message_hash lib ` set (m # msgs)) \<or>
      (\<exists>m' k. m' \<in> set (m # msgs) \<and> message_hash lib m' = key \<and> unat k < n + length (m # msgs) \<and>
         map_of M key = Some \<lparr>pn_content = m', pn_poll_id = i, pn_index_in_poll = k\<rparr>)" for key
  proof (cases "key = message_hash lib m")
    case True
    have "unat k < n + length (m # msgs)" using k by simp
    then show ?thesis using keys [of key] True map_of_bt_insert [OF Cons.prems(2)] by fastforce
  next
    case False
    then show ?thesis using keys [of key] map_of_bt_insert [OF Cons.prems(2)] by fastforce
  qed
  moreover have "n + length (m # msgs) \<le> 2 ^ 32"
    using M(3) k unat_bound [of k] by (cases msgs) auto
  ultimately show ?case using M(1,2) by blast
qed

lemma new_poll_unvoted:
  "map_of (wp_participation (weighted_poll_new i snap e n)) a = Some part \<Longrightarrow> \<not> part_voted part"
  by (auto simp: weighted_poll_new_def map_of_bt_from_iter dest!: map_of_SomeD)

lemma new_poll_state:
  assumes "verifier_inv lib s" and "try_fold (save_poll_message lib i)
      (s\<lparr>ver_poll_id := Some i, ver_polls := (ver_polls s)(i \<mapsto> PollMessages q)\<rparr>) (enumerate 0 msgs) = Inr s'"
  obtains M where "s' = s\<lparr>ver_poll_id := Some i, ver_polls := (ver_polls s)(i \<mapsto> PollMessages q), ver_poll_messages := M\<rparr>"
    "bt_wf M" "length msgs \<le> 2 ^ 32"
    "\<And>key. (map_of M key = map_of (ver_poll_messages s) key \<and> key \<notin> message_hash lib ` set msgs) \<or>
      (\<exists>m k. m \<in> set msgs \<and> message_hash lib m = key \<and> unat k < length msgs \<and>
         map_of M key = Some \<lparr>pn_content = m, pn_poll_id = i, pn_index_in_poll = k\<rparr>)"
proof -
  have "bt_wf (ver_poll_messages s)" using assms(1) by (simp add: verifier_inv_def)
  with save_poll_messages_effect [OF assms(2)] show thesis using that by (cases "msgs = []") auto
qed

lemma verifier_inv_poll:
  assumes inv: "verifier_inv lib s" and c: "ver_config s = Some config"
    and snap: "take_snapshot env s = Inr snap" and i: "counter_incr (ver_poll_id s) = Inr i"
    and fold: "try_fold (save_poll_message lib i)
      (s\<lparr>ver_poll_id := Some i, ver_polls := (ver_polls s)(i \<mapsto> PollMessages (weighted_poll_new i snap e (length msgs)))\<rparr>)
      (enumerate 0 msgs) = Inr s'"
    and ok: "verifier_call_ok (env, h, sender, msg)"
  shows "verifier_inv lib s'"
proof -
  let ?p = "weighted_poll_new i snap e (length msgs)"
  from inv fold obtain M where
    s': "s' = s\<lparr>ver_poll_id := Some i, ver_polls := (ver_polls s)(i \<mapsto> PollMessages ?p), ver_poll_messages := M\<rparr>"
    and M: "bt_wf M" and len: "length msgs \<le> 2 ^ 32"
    and keys: "\<And>key. (map_of M key = map_of (ver_poll_messages s) key \<and> key \<notin> message_hash lib ` set msgs) \<or>
      (\<exists>m k. m \<in> set msgs \<and> message_hash lib m = key \<and> unat k < length msgs \<and>
         map_of M key = Some \<lparr>pn_content = m, pn_poll_id = i, pn_index_in_poll = k\<rparr>)"
    by (rule new_poll_state) blast
  have fresh: "counter_cur (ver_poll_id s) < i" using i by (rule counter_incr_greater)
  from snap c obtain vs where vs: "ve_active_verifiers env (vc_service_name config) (vc_source_chain config) = Some vs"
    and sn: "snapshot_new (vc_voting_threshold config) (map participant_from vs) = Inr snap"
    by (auto simp: take_snapshot_def result_simps Let_def split: if_splits)
  have w: "sum_list (map (\<lambda>p. unat (p_weight p)) (map participant_from vs)) < 2 ^ 128"
    using ok vs by (auto simp: verifier_call_ok_def participant_from_def o_def)
  have maj: "is_majority (vc_voting_threshold config)" using inv c by (simp add: verifier_inv_def config_ok_def)
  have p: "poll_inv ?p" "majority_quorum ?p"
    using weighted_poll_new_inv [OF sn _ w] weighted_poll_new_majority [OF sn maj w] len by auto
  have old: "ver_votes s (i, a) = None" for a
  proof (rule ccontr)
    assume "ver_votes s (i, a) \<noteq> None"
    then have "i \<le> counter_cur (ver_poll_id s)" using inv unfolding verifier_inv_def by blast
    then show False using fresh by simp
  qed
  have "votes_ok s' i ?p"
    using old new_poll_unvoted by (auto simp: votes_ok_def s' recorded_weight_def recorded_def weighted_poll_new_def
        tallies_default_eq tally_of_def split: vote.splits)
  moreover have "votes_ok s' j q" if "votes_ok s j q" for j q
    using that by (simp add: votes_ok_def s' recorded_weight_def recorded_def)
  ultimately have polls: "j \<le> i \<and> poll_inv q \<and> majority_quorum q \<and> votes_ok s' j q" if "ver_polls s' j = Some (PollMessages q)" for j q
    using that p inv fresh unfolding verifier_inv_def s' by (fastforce split: if_splits)
  have content: "message_hash lib (pn_content x) = key \<and> (\<exists>p. polled s' x p \<and> unat (pn_index_in_poll x) < length (wp_tallies p))"
    if x: "map_of (ver_poll_messages s') key = Some x" for key x
    using keys [of key]
  proof
    assume k: "map_of M key = map_of (ver_poll_messages s) key \<and> key \<notin> message_hash lib ` set msgs"
    then have "map_of (ver_poll_messages s) key = Some x" using x by (simp add: s')
    with inv obtain q where q: "message_hash lib (pn_content x) = key" "polled s x q"
        "unat (pn_index_in_poll x) < length (wp_tallies q)"
      by (rule verifier_inv_content)
    then have "pn_poll_id x \<noteq> i" using verifier_inv_polls(1) [OF inv] fresh unfolding polled_def by force
    then show ?thesis using q by (auto simp: polled_def s')
  next
    assume "\<exists>m k. m \<in> set msgs \<and> message_hash lib m = key \<and> unat k < length msgs \<and>
         map_of M key = Some \<lparr>pn_content = m, pn_poll_id = i, pn_index_in_poll = k\<rparr>"
    then show ?thesis using x by (auto simp: polled_def s' weighted_poll_new_def)
  qed
  have "j \<le> i" if "ver_votes s' (j, a) \<noteq> None" for j a
    using that inv fresh unfolding verifier_inv_def s' by (fastforce simp: s')
  then show ?thesis
    using inv M polls content unfolding verifier_inv_def by (simp add: s' counter_cur_def)
qed

lemma sum_list_map_change:
  fixes f g :: "'k \<times> 'v \<Rightarrow> nat"
  assumes "distinct (map fst m)" "map_of m k = Some x" "f (k, x) = 0" "\<And>a b. a \<noteq> k \<Longrightarrow> g (a, b) = f (a, b)"
  shows "sum_list (map g m) = sum_list (map f m) + g (k, x)"
  using assms
proof (induction m)
  case (Cons e m)
  show ?case
  proof (cases "fst e = k")
    case True
    have "g x = f x" if "x \<in> set m" for x
    proof -
      have "fst x \<in> fst ` set m" using that by (rule imageI)
      then have "fst x \<noteq> k" using Cons.prems(1) True by simp blast
      then show ?thesis using Cons.prems(4) [of "fst x" "snd x"] by simp
    qed
    then have eq: "sum_list (map g m) = sum_list (map f m)" by (simp cong: map_cong)
    show ?thesis using Cons.prems(2,3) True by (cases e) (simp add: eq)
  next
    case False
    then show ?thesis using Cons by (cases e) auto
  qed
qed simp

lemma votes_ok_cast:
  assumes inv: "poll_inv p" and ok: "votes_ok s i p" and cast: "cast_vote p h sender votes = Inr p'"
    and s': "ver_votes s' = (ver_votes s)((i, sender) \<mapsto> votes)"
  shows "votes_ok s' i p'"
proof -
  obtain part where part: "map_of (wp_participation p) sender = Some part" "\<not> part_voted part"
    and p': "wp_participation p' = bt_insert sender (part\<lparr>part_voted := True\<rparr>) (wp_participation p)"
    using cast by (auto elim: cast_vote_InrD)
  have wf: "bt_wf (wp_participation p)" using inv by (simp add: poll_inv_def)
  have marks: "part_voted x \<longleftrightarrow> ver_votes s' (i, a) \<noteq> None" if "map_of (wp_participation p') a = Some x" for a x
    using that ok unfolding votes_ok_def p' map_of_bt_insert [OF wf] s' by (auto split: if_splits)
  have "unat (tally_of (wp_tallies p' ! k) v) = recorded_weight s' i p' k v" if k: "k < length (wp_tallies p')" for k v
  proof -
    have k': "k < length (wp_tallies p)" using k cast_vote_frame(6) [OF cast] by simp
    have lv: "k < length votes" using cast_vote_size [OF inv cast] k' by simp
    have t: "tallies_wf (wp_tallies p ! k)" "tally_total (wp_tallies p ! k) = poll_voted_weight p"
      using inv k' by (simp_all add: poll_inv_def)
    have "unat (tally_of (wp_tallies p ! k) (votes ! k)) + unat (part_weight part) < 2 ^ LENGTH(128)"
      using tally_le_total [OF t(1), of "votes ! k"] t(2) cast_vote_weights [OF wf cast part(1)]
        poll_voted_le_total [of p'] inv by (simp add: poll_inv_def)
    then have "unat (tally_of (wp_tallies p' ! k) v) =
        unat (tally_of (wp_tallies p ! k) v) + (if votes ! k = v then unat (part_weight part) else 0)"
      by (auto simp: cast_vote_nth [OF inv cast k' part(1)] tally_of_tally [OF t(1)] saturating_add_no_overflow)
    also have "unat (tally_of (wp_tallies p ! k) v) = recorded_weight s i p k v"
      using ok k' by (simp add: votes_ok_def)
    also have "recorded_weight s i p k v + (if votes ! k = v then unat (part_weight part) else 0) = recorded_weight s' i p' k v"
    proof -
      let ?g = "\<lambda>(a, part). if recorded s' i k v a then unat (part_weight part) else 0"
      have none: "ver_votes s (i, sender) = None" using ok part by (auto simp: votes_ok_def)
      have "sum_list (map ?g (wp_participation p)) = recorded_weight s i p k v + ?g (sender, part)"
        unfolding recorded_weight_def
        by (rule sum_list_map_change [OF bt_wf_distinct [OF wf] part(1)]) (auto simp: recorded_def none s')
      moreover have "sum_list (map ?g (wp_participation p')) = sum_list (map ?g (wp_participation p))"
        using sum_list_bt_update [OF wf part(1), of ?g "part\<lparr>part_voted := True\<rparr>"]
        by (cases "recorded s' i k v sender") (simp_all add: p')
      ultimately show ?thesis by (auto simp: recorded_weight_def recorded_def s' lv)
    qed
    finally show ?thesis .
  qed
  then show ?thesis using marks by (simp add: votes_ok_def)
qed

lemma polled_update:
  assumes "polled s c p" "ver_polls s i = Some (PollMessages q)" "length (wp_tallies q') = length (wp_tallies q)"
    and "ver_polls s' = (ver_polls s)(i \<mapsto> PollMessages q')"
  shows "\<exists>p'. polled s' c p' \<and> length (wp_tallies p') = length (wp_tallies p)"
  using assms by (cases "pn_poll_id c = i") (auto simp: polled_def)

lemma verifier_inv_update:
  assumes inv: "verifier_inv lib s" and q: "ver_polls s i = Some (PollMessages q)"
    and q': "poll_inv q'" "majority_quorum q'" "length (wp_tallies q') = length (wp_tallies q)"
    and s': "ver_polls s' = (ver_polls s)(i \<mapsto> PollMessages q')" "ver_poll_messages s' = ver_poll_messages s"
      "ver_poll_id s' = ver_poll_id s" "ver_config s' = ver_config s"
    and votes: "votes_ok s' i q'" "\<And>j a. j \<noteq> i \<Longrightarrow> ver_votes s' (j, a) = ver_votes s (j, a)"
  shows "verifier_inv lib s'"
proof -
  have other: "votes_ok s' j p" if "votes_ok s j p" "j \<noteq> i" for j p
    using that votes(2) by (simp add: votes_ok_def recorded_weight_def recorded_def)
  have "\<exists>p. polled s' c p \<and> unat (pn_index_in_poll c) < length (wp_tallies p)" "message_hash lib (pn_content c) = key"
    if c: "map_of (ver_poll_messages s) key = Some c" for key c
  proof -
    from inv c obtain p where p: "message_hash lib (pn_content c) = key" "polled s c p" "unat (pn_index_in_poll c) < length (wp_tallies p)"
      by (rule verifier_inv_content)
    then show "\<exists>p. polled s' c p \<and> unat (pn_index_in_poll c) < length (wp_tallies p)" "message_hash lib (pn_content c) = key"
      using polled_update [OF p(2) q q'(3) s'(1)] by auto
  qed
  moreover have "j \<le> counter_cur (ver_poll_id s) \<and> poll_inv p \<and> majority_quorum p \<and> votes_ok s' j p"
    if "ver_polls s' j = Some (PollMessages p)" for j p
    using that verifier_inv_polls [OF inv] q q' votes(1) other s'(1) by (cases "j = i") auto
  moreover have "j \<le> counter_cur (ver_poll_id s)" if "ver_votes s' (j, a) \<noteq> None" for j a
    using that votes(2) verifier_inv_votes [OF inv] verifier_inv_polls(1) [OF inv q] by (cases "j = i") auto
  ultimately show ?thesis using inv unfolding verifier_inv_def s' by blast
qed

lemma finished_inv [simp]:
  "poll_inv (p\<lparr>wp_finished := b\<rparr>) = poll_inv p" "majority_quorum (p\<lparr>wp_finished := b\<rparr>) = majority_quorum p"
  "poll_consensus (p\<lparr>wp_finished := b\<rparr>) k = poll_consensus p k"
  by (simp_all add: poll_inv_def majority_quorum_def poll_total_weight_def poll_voted_weight_def poll_consensus_def)

lemma verifier_inv_effect:
  assumes inv: "verifier_inv lib s" and "verifier_effect lib env h s s'" and ok: "verifier_call_ok (env, h, sender, msg)"
  shows "verifier_inv lib s'"
  using assms(2)
proof (cases rule: verifier_effect.cases)
  case (poll config msgs snap e i)
  then show ?thesis using verifier_inv_poll [OF inv _ _ _ _ ok] by blast
next
  case (vote i p sender votes p')
  note p = verifier_inv_polls [OF inv vote(2)]
  show ?thesis
    by (rule verifier_inv_update [OF inv vote(2), where q' = p'])
      (use vote p in \<open>auto simp: cast_vote_inv cast_vote_majority cast_vote_frame intro: votes_ok_cast\<close>)
next
  case (finish i p p')
  note p = verifier_inv_polls [OF inv finish(2)]
  have p': "p' = p\<lparr>wp_finished := True\<rparr>" using finish(3) by (auto simp: poll_finish_def split: if_splits)
  show ?thesis
    by (rule verifier_inv_update [OF inv finish(2), where q' = p'])
      (use p in \<open>simp_all add: finish(1) p' finished_inv votes_ok_def recorded_weight_def recorded_def\<close>)
next
  case (settings conf perm k)
  then show ?thesis
    using inv unfolding verifier_inv_def by (simp add: polled_def votes_ok_def recorded_weight_def recorded_def)
qed

lemma verifier_step_effect:
  assumes "only verifier_call_ok (verifier_step lib) call s = Inr s'"
  obtains "s' = s" | env h sender msg where "call = (env, h, sender, msg)" "verifier_call_ok (env, h, sender, msg)"
    "verifier_effect lib env h s s'"
  using assms verifier_execute_effect
  by (cases call) (auto simp: only_def verifier_step_def result_simps split: if_splits)

interpretation ver: contract_invariant "only verifier_call_ok (verifier_step lib)" "verifier_inv lib" for lib
  by unfold_locales (auto elim!: verifier_step_effect intro: verifier_inv_effect)

lemma verifier_inv_instantiate:
  assumes "verifier_instantiate env msg = Inr (s, out)" "is_majority (vim_voting_threshold msg)" "vim_block_expiry msg \<noteq> 0"
  shows "verifier_inv lib s"
  using assms by (auto simp: verifier_instantiate_def result_simps Let_def verifier_inv_def config_ok_def bt_wf_def
      counter_cur_def split: if_splits)

section \<open>How a status changes\<close>

text \<open>A decided item of a poll stays decided, whatever happens to the poll.\<close>

lemma consensus_kept:
  assumes "poll_inv p" "majority_quorum p" "cast_vote p h sender votes = Inr p'" "poll_consensus p k = Inr (Some v)"
  shows "poll_consensus p' k = Inr (Some v)"
  using assms(4) cast_vote_consensus_stable [OF assms(1-3), of "unat k" v] cast_vote_frame(6) [OF assms(3)]
  by (auto simp: poll_consensus_def split: if_splits)

lemma finish_consensus:
  "poll_finish p h = Inr p' \<Longrightarrow> p' = p\<lparr>wp_finished := True\<rparr> \<and> poll_consensus p' k = poll_consensus p k \<and> wp_expires_at p \<le> h"
  by (auto simp: poll_finish_def poll_consensus_def split: if_splits)

lemma new_poll_undecided:
  assumes "majority_quorum (weighted_poll_new i snap e n)" "unat k < n"
  shows "poll_consensus (weighted_poll_new i snap e n) k = Inr None"
proof -
  have "s_quorum snap \<noteq> 0"
    using assms(1) by (auto simp: majority_quorum_def weighted_poll_new_def)
  then show ?thesis
    using assms(2) by (simp add: poll_consensus_def weighted_poll_new_def tallies_consensus_wf tallies_default_eq
        tally_of_def tallies_wf_def)
qed

text \<open>
  What a call does to the entry of a message: nothing, or it starts a new poll for it; and what it does to
  the poll the entry refers to: nothing, a vote is cast, or the poll is finished.
\<close>

lemma effect_on_entry:
  assumes inv: "verifier_inv lib s" and eff: "verifier_effect lib env h s s'" and ok: "verifier_call_ok (env, h, sender, msg)"
    and c': "map_of (ver_poll_messages s') key = Some c'"
  obtains
    (same) p where "map_of (ver_poll_messages s) key = Some c'" "polled s c' p" "polled s' c' p"
  | (voted) p p' sender votes where "map_of (ver_poll_messages s) key = Some c'" "polled s c' p" "polled s' c' p'"
      "cast_vote p h sender votes = Inr p'"
  | (finished) p p' where "map_of (ver_poll_messages s) key = Some c'" "polled s c' p" "polled s' c' p'" "poll_finish p h = Inr p'"
  | (started) p st where "message_hash lib (pn_content c') = key" "verifier_message_status lib s (pn_content c') h = Inr st" "needs_poll st"
      "polled s' c' p" "poll_consensus p (pn_index_in_poll c') = Inr None" "\<not> wp_finished p" "h < wp_expires_at p"
      "\<And>c. map_of (ver_poll_messages s) key = Some c \<Longrightarrow> pn_poll_id c \<noteq> pn_poll_id c'"
  using eff
proof (cases rule: verifier_effect.cases)
  case (poll config msgs snap e i)
  let ?p = "weighted_poll_new i snap e (length msgs)"
  from inv poll(6) obtain M where
    s': "s' = s\<lparr>ver_poll_id := Some i, ver_polls := (ver_polls s)(i \<mapsto> PollMessages ?p), ver_poll_messages := M\<rparr>"
    and keys: "\<And>key. (map_of M key = map_of (ver_poll_messages s) key \<and> key \<notin> message_hash lib ` set msgs) \<or>
      (\<exists>m k. m \<in> set msgs \<and> message_hash lib m = key \<and> unat k < length msgs \<and>
         map_of M key = Some \<lparr>pn_content = m, pn_poll_id = i, pn_index_in_poll = k\<rparr>)"
    by (rule new_poll_state) blast
  have inv': "verifier_inv lib s'" by (rule verifier_inv_poll [OF inv poll(1,3,5,6) ok])
  have fresh: "pn_poll_id c \<noteq> i" if "map_of (ver_poll_messages s) key = Some c" for c
  proof -
    from inv that obtain q where "polled s c q" by (rule verifier_inv_content)
    then have "pn_poll_id c \<le> counter_cur (ver_poll_id s)" using verifier_inv_polls(1) [OF inv] by (simp add: polled_def)
    then show ?thesis using counter_incr_greater [OF poll(5)] by auto
  qed
  from keys [of key] show thesis
  proof
    assume "map_of M key = map_of (ver_poll_messages s) key \<and> key \<notin> message_hash lib ` set msgs"
    then have c: "map_of (ver_poll_messages s) key = Some c'" using c' by (simp add: s')
    with inv obtain q where "polled s c' q" by (rule verifier_inv_content)
    then show thesis using same [OF c] fresh [OF c] by (simp add: polled_def s')
  next
    assume "\<exists>m k. m \<in> set msgs \<and> message_hash lib m = key \<and> unat k < length msgs \<and>
         map_of M key = Some \<lparr>pn_content = m, pn_poll_id = i, pn_index_in_poll = k\<rparr>"
    then obtain m k where m: "m \<in> set msgs" "message_hash lib m = key" "unat k < length msgs"
      and c: "c' = \<lparr>pn_content = m, pn_poll_id = i, pn_index_in_poll = k\<rparr>"
      using c' by (auto simp: s')
    obtain st where st: "verifier_message_status lib s m h = Inr st" "needs_poll st" using poll(2) [OF m(1)] by blast
    have "majority_quorum ?p" using verifier_inv_polls(3) [OF inv', of i ?p] by (simp add: s')
    then have "poll_consensus ?p k = Inr None" using m(3) by (rule new_poll_undecided)
    moreover have "h < wp_expires_at ?p"
      using poll(4) inv poll(1) by (auto simp: calculate_expiration_def result_simps checked_add_Some weighted_poll_new_def
          word_less_nat_alt verifier_inv_def config_ok_def unat_gt_0)
    moreover have "\<not> wp_finished ?p" by (simp add: weighted_poll_new_def)
    moreover have "polled s' c' ?p" by (simp add: polled_def s' c)
    ultimately show thesis using started [of st ?p] m(2) st fresh by (simp add: c)
  qed
next
  case (vote i p sender votes p')
  have c: "map_of (ver_poll_messages s) key = Some c'" using c' vote(1) by simp
  with inv obtain q where q: "polled s c' q" by (rule verifier_inv_content)
  show thesis
  proof (cases "pn_poll_id c' = i")
    case True
    then show thesis using voted [OF c, of p p'] vote by (simp add: polled_def)
  next
    case False
    then show thesis using same [OF c q] vote(1) q by (simp add: polled_def)
  qed
next
  case (finish i p p')
  have c: "map_of (ver_poll_messages s) key = Some c'" using c' finish(1) by simp
  with inv obtain q where q: "polled s c' q" by (rule verifier_inv_content)
  show thesis
  proof (cases "pn_poll_id c' = i")
    case True
    then show thesis using finished [OF c, of p p'] finish by (simp add: polled_def)
  next
    case False
    then show thesis using same [OF c q] finish(1) q by (simp add: polled_def)
  qed
next
  case (settings conf perm k)
  have c: "map_of (ver_poll_messages s) key = Some c'" using c' settings(1) by simp
  with inv obtain q where q: "polled s c' q" by (rule verifier_inv_content)
  then show thesis using same [OF c q] settings(1) by (simp add: polled_def)
qed

lemma entry_persists:
  assumes "verifier_inv lib s" "verifier_effect lib env h s s'" "map_of (ver_poll_messages s) key = Some c"
  shows "\<exists>c'. map_of (ver_poll_messages s') key = Some c'"
  using assms(2)
proof (cases rule: verifier_effect.cases)
  case (poll config msgs snap e i)
  from assms(1) poll(6) show ?thesis
  proof (rule new_poll_state)
    fix M
    assume "s' = s\<lparr>ver_poll_id := Some i, ver_polls := (ver_polls s)(i \<mapsto> PollMessages (weighted_poll_new i snap e (length msgs))),
        ver_poll_messages := M\<rparr>"
      and keys: "\<And>key. (map_of M key = map_of (ver_poll_messages s) key \<and> key \<notin> message_hash lib ` set msgs) \<or>
      (\<exists>m k. m \<in> set msgs \<and> message_hash lib m = key \<and> unat k < length msgs \<and>
         map_of M key = Some \<lparr>pn_content = m, pn_poll_id = i, pn_index_in_poll = k\<rparr>)"
    then show ?thesis using assms(3) keys [of key] by auto
  qed
qed (use assms(3) in auto)

lemma needs_poll_iff: "needs_poll st \<longleftrightarrow> st = NotFoundOnSourceChain \<or> st = FailedToVerify \<or> st = Unknown"
  by (cases st) (simp_all add: needs_poll_def)

lemma confirmed_outcome: "is_confirmed (outcome v b) \<Longrightarrow> (\<exists>w. v = Some w \<and> outcome v b' = outcome v b)"
  by (cases v; cases b) (auto simp: is_confirmed_def outcome_def)

lemma status_confirmed_kept:
  assumes inv: "verifier_inv lib s" and eff: "verifier_effect lib env h s s'" and ok: "verifier_call_ok (env, h, sender, msg)"
    and st: "verifier_message_status lib s m h0 = Inr st" "is_confirmed st"
  shows "verifier_message_status lib s' m h1 = Inr st"
proof -
  let ?key = "message_hash lib m"
  have "st \<noteq> Unknown" using st(2) by (auto simp: is_confirmed_def)
  then obtain c p v where c: "map_of (ver_poll_messages s) ?key = Some c" "pn_content c = m" "polled s c p"
      "poll_consensus p (pn_index_in_poll c) = Inr v" "st = outcome v (voting_completed (PollMessages p) h0)"
    using st(1) by (cases "map_of (ver_poll_messages s) ?key") (auto simp: status_Inr_iff)
  have "is_confirmed (outcome v (voting_completed (PollMessages p) h0))" using st(2) c(5) by simp
  then obtain w where w: "v = Some w" "\<And>b. outcome v b = st" using confirmed_outcome c(5) by blast
  obtain c' where c': "map_of (ver_poll_messages s') ?key = Some c'" using entry_persists [OF inv eff c(1)] by blast
  note poll = verifier_inv_polls [OF inv c(3) [unfolded polled_def]]
  from inv eff ok c' show ?thesis
  proof (cases rule: effect_on_entry)
    case (same q)
    then have "c' = c" "q = p" using c(1) polled_unique [OF c(3)] by auto
    then show ?thesis using status_InrI [OF c'] same(3) c w(2) by simp
  next
    case (voted q q' sender votes)
    then have q: "c' = c" "q = p" using c(1) polled_unique [OF c(3)] by auto
    then have "poll_consensus q' (pn_index_in_poll c) = Inr v"
      using voted(4) c(4) w(1) consensus_kept [OF poll(2,3)] by auto
    then show ?thesis using status_InrI [OF c'] voted(3) q c(2) w(2) by simp
  next
    case (finished q q')
    then have q: "c' = c" "q = p" using c(1) polled_unique [OF c(3)] by auto
    then have "poll_consensus q' (pn_index_in_poll c) = Inr v"
      using finished(4) c(4) finish_consensus by auto
    then show ?thesis using status_InrI [OF c'] finished(3) q c(2) w(2) by simp
  next
    case (started q st')
    have "map_of (ver_poll_messages s) (message_hash lib (pn_content c')) = Some c" using c(1) started(1) by simp
    with started(2) obtain r u where "polled s c r" "poll_consensus r (pn_index_in_poll c) = Inr u"
        "st' = outcome u (voting_completed (PollMessages r) h)"
      by (rule status_entry)
    then have "st' = st" using polled_unique [OF c(3)] c(4) w(2) by auto
    then show ?thesis using started(3) st(2) by (auto simp: needs_poll_iff is_confirmed_def)
  qed
qed

text \<open>The clock of the chain: a call carries the height of its block, and heights never decrease.\<close>

definition clocked :: "(verifier_call \<Rightarrow> verifier_state \<Rightarrow> verifier_error + verifier_state) \<Rightarrow>
    verifier_call \<Rightarrow> verifier_state \<times> u64 \<Rightarrow> verifier_error + verifier_state \<times> u64" where
  "clocked step call sn =
     (case (call, sn) of ((env, h, sender, msg), (s, now)) \<Rightarrow>
        if now \<le> h then rbind (step (env, h, sender, msg) s) (\<lambda>s'. Inr (s', h)) else Inr (s, now))"

definition clock_inv :: "xrpl_lib \<Rightarrow> verifier_state \<times> u64 \<Rightarrow> bool" where
  "clock_inv lib sn \<longleftrightarrow>
     verifier_inv lib (fst sn) \<and>
     (\<forall>i p. ver_polls (fst sn) i = Some (PollMessages p) \<longrightarrow> wp_finished p \<longrightarrow> wp_expires_at p \<le> snd sn)"

lemma clock_inv_effect:
  assumes inv: "clock_inv lib (s, now)" and eff: "verifier_effect lib env h s s'" and ok: "verifier_call_ok (env, h, sender, msg)"
    and le: "now \<le> h"
  shows "clock_inv lib (s', h)"
proof -
  have vi: "verifier_inv lib s" using inv by (simp add: clock_inv_def)
  have fin: "wp_expires_at p \<le> h" if "ver_polls s i = Some (PollMessages p)" "wp_finished p" for i p
    using inv that le unfolding clock_inv_def by fastforce
  have "wp_expires_at p \<le> h" if p: "ver_polls s' i = Some (PollMessages p)" "wp_finished p" for i p
    using eff
  proof (cases rule: verifier_effect.cases)
    case (poll config msgs snap e j)
    from vi poll(6) obtain M where
      "s' = s\<lparr>ver_poll_id := Some j, ver_polls := (ver_polls s)(j \<mapsto> PollMessages (weighted_poll_new j snap e (length msgs))),
        ver_poll_messages := M\<rparr>" by (rule new_poll_state)
    then show ?thesis using p fin by (auto simp: weighted_poll_new_def split: if_splits)
  next
    case (vote j q sender votes q')
    then show ?thesis using p fin cast_vote_frame [OF vote(3)] by (auto split: if_splits)
  next
    case (finish j q q')
    then show ?thesis using p fin finish_consensus [OF finish(3)] by (auto split: if_splits)
  next
    case (settings conf perm k)
    then show ?thesis using p fin by simp
  qed
  then show ?thesis using verifier_inv_effect [OF vi eff ok] by (simp add: clock_inv_def)
qed

interpretation ver_clock: contract_invariant "only verifier_call_ok (clocked (verifier_step lib))" "clock_inv lib" for lib
proof unfold_locales
  fix sn sn' call
  assume inv: "clock_inv lib sn" and step: "only verifier_call_ok (clocked (verifier_step lib)) call sn = Inr sn'"
  obtain env h sender msg s now where c: "call = (env, h, sender, msg)" "sn = (s, now)" by (cases call; cases sn)
  show "clock_inv lib sn'"
  proof (cases "verifier_call_ok call \<and> now \<le> h")
    case True
    then obtain s' where s': "verifier_step lib (env, h, sender, msg) s = Inr s'" "sn' = (s', h)"
      using step by (auto simp: only_def clocked_def c result_simps)
    then have "verifier_effect lib env h s s'"
      using verifier_execute_effect True by (auto simp: verifier_step_def result_simps c)
    then show ?thesis using clock_inv_effect inv True s'(2) unfolding c by blast
  next
    case False
    then show ?thesis using step inv by (auto simp: only_def clocked_def c split: if_splits)
  qed
qed

text \<open>The life of a message: the statuses that one call can lead to.\<close>

definition lifecycle :: "verification_status \<Rightarrow> verification_status list" where
  "lifecycle st =
     (case st of
        Unknown \<Rightarrow> [Unknown, InProgress]
      | InProgress \<Rightarrow> [InProgress, SucceededOnSourceChain, FailedOnSourceChain, NotFoundOnSourceChain]
      | NotFoundOnSourceChain \<Rightarrow> [NotFoundOnSourceChain, InProgress]
      | FailedToVerify \<Rightarrow> [FailedToVerify, InProgress]
      | SucceededOnSourceChain \<Rightarrow> [SucceededOnSourceChain]
      | FailedOnSourceChain \<Rightarrow> [FailedOnSourceChain])"

lemma lifecycle_refl: "st \<in> set (lifecycle st)"
  by (cases st) (simp_all add: lifecycle_def)

lemma open_poll: "\<not> wp_finished p \<Longrightarrow> h < wp_expires_at p \<Longrightarrow> \<not> voting_completed (PollMessages p) h"
  by (simp add: voting_completed_def poll_status_of_def not_le)

lemma open_lifecycle: "outcome v False \<in> set (lifecycle InProgress)"
  by (cases v rule: option.exhaust; cases "the v") (auto simp: lifecycle_def)

lemma lifecycle_step:
  assumes inv: "clock_inv lib (s, now)" and eff: "verifier_effect lib env h s s'" and ok: "verifier_call_ok (env, h, sender, msg)"
    and le: "now \<le> h" and st: "verifier_message_status lib s m h = Inr st" and st': "verifier_message_status lib s' m h = Inr st'"
  shows "st' \<in> set (lifecycle st)"
proof (cases "map_of (ver_poll_messages s') (message_hash lib m)")
  case None
  have vi: "verifier_inv lib s" using inv by (simp add: clock_inv_def)
  have "map_of (ver_poll_messages s) (message_hash lib m) = None"
    using entry_persists [OF vi eff, of "message_hash lib m"] None
    by (cases "map_of (ver_poll_messages s) (message_hash lib m)") auto
  then show ?thesis using st st' None by (auto simp: status_Inr_iff lifecycle_def)
next
  case (Some c')
  have vi: "verifier_inv lib s" using inv by (simp add: clock_inv_def)
  from st' Some obtain p' v' where m: "pn_content c' = m" and p': "polled s' c' p'" "poll_consensus p' (pn_index_in_poll c') = Inr v'"
      "st' = outcome v' (voting_completed (PollMessages p') h)"
    by (rule status_entry)
  from vi eff ok Some show ?thesis
  proof (cases rule: effect_on_entry)
    case (same p)
    from st same(1) obtain q v where "polled s c' q" "poll_consensus q (pn_index_in_poll c') = Inr v"
        "st = outcome v (voting_completed (PollMessages q) h)"
      by (rule status_entry)
    then have "st' = st" using polled_unique [OF same(2)] polled_unique [OF same(3) p'(1)] p'(2,3) by auto
    then show ?thesis by (simp add: lifecycle_refl)
  next
    case (voted p q' sender votes)
    have q': "q' = p'" by (rule polled_unique [OF voted(3) p'(1)])
    from st voted(1) obtain q v where q: "polled s c' q" "poll_consensus q (pn_index_in_poll c') = Inr v"
        "st = outcome v (voting_completed (PollMessages q) h)"
      by (rule status_entry)
    have qp: "q = p" by (rule polled_unique [OF q(1) voted(2)])
    have lt: "h < wp_expires_at p" using voted(4) by (rule cast_vote_InrD)
    have "\<not> wp_finished p"
      using inv voted(2) lt le unfolding clock_inv_def polled_def by fastforce
    then have "\<not> voting_completed (PollMessages p) h" "\<not> voting_completed (PollMessages p') h"
      using lt cast_vote_frame [OF voted(4)] q' by (simp_all add: open_poll)
    then have o: "st = outcome v False" "st' = outcome v' False" using q(3) p'(3) qp by simp_all
    show ?thesis
    proof (cases v)
      case None
      then show ?thesis using o open_lifecycle by simp
    next
      case (Some w)
      note poll = verifier_inv_polls [OF vi voted(2) [unfolded polled_def]]
      have "v' = v" using consensus_kept [OF poll(2,3) voted(4)] q(2) qp p'(2) q' Some by auto
      then show ?thesis using o lifecycle_refl by simp
    qed
  next
    case (finished p q')
    have q': "q' = p'" by (rule polled_unique [OF finished(3) p'(1)])
    from st finished(1) obtain q v where q: "polled s c' q" "poll_consensus q (pn_index_in_poll c') = Inr v"
        "st = outcome v (voting_completed (PollMessages q) h)"
      by (rule status_entry)
    have qp: "q = p" by (rule polled_unique [OF q(1) finished(2)])
    have f: "q' = p\<lparr>wp_finished := True\<rparr>" "poll_consensus q' (pn_index_in_poll c') = Inr v" "wp_expires_at p \<le> h"
      using finish_consensus [OF finished(4)] q(2) qp by auto
    have "voting_completed (PollMessages p) h" "voting_completed (PollMessages p') h"
      using f(1,3) q' by (auto simp: voting_completed_def poll_status_of_def)
    then have "st' = st" using q(3) p'(2,3) f(2) qp q' by simp
    then show ?thesis by (simp add: lifecycle_refl)
  next
    case (started p st0)
    have "st0 = st" using started(2) st m by simp
    moreover have "st' = InProgress"
      using open_poll [OF started(6,7)] started(4,5) p' polled_unique [OF started(4) p'(1)] by auto
    ultimately show ?thesis using started(3) by (auto simp: needs_poll_iff lifecycle_def)
  qed
qed

lemma status_time:
  assumes "verifier_message_status lib s m h = Inr st" "verifier_message_status lib s m h' = Inr st'" "h \<le> h'"
  shows "st' = st \<or> (st = InProgress \<and> st' = FailedToVerify)"
proof (cases "map_of (ver_poll_messages s) (message_hash lib m)")
  case None
  then show ?thesis using assms by (simp add: status_Inr_iff)
next
  case (Some c)
  from assms(1) Some obtain p v where p: "polled s c p" "poll_consensus p (pn_index_in_poll c) = Inr v"
    "st = outcome v (voting_completed (PollMessages p) h)" by (rule status_entry)
  from assms(2) Some obtain p' v' where p': "polled s c p'" "poll_consensus p' (pn_index_in_poll c) = Inr v'"
    "st' = outcome v' (voting_completed (PollMessages p') h')" by (rule status_entry)
  have "p' = p" by (rule polled_unique [OF p'(1) p(1)])
  moreover have "voting_completed (PollMessages p) h'" if "voting_completed (PollMessages p) h"
    using that assms(3) by (auto simp: voting_completed_def poll_status_of_def split: if_splits)
  ultimately show ?thesis using p p' by (cases v) (auto simp: outcome_def split: vote.splits)
qed

lemma confirmed_any_height:
  assumes "verifier_message_status lib s m h = Inr st" "is_confirmed st"
  shows "verifier_message_status lib s m h' = Inr st"
proof -
  have "st \<noteq> Unknown" using assms(2) by (auto simp: is_confirmed_def)
  then obtain c where c: "map_of (ver_poll_messages s) (message_hash lib m) = Some c"
    using assms(1) by (cases "map_of (ver_poll_messages s) (message_hash lib m)") (auto simp: status_Inr_iff)
  from assms(1) c obtain p v where p: "pn_content c = m" "polled s c p" "poll_consensus p (pn_index_in_poll c) = Inr v"
    "st = outcome v (voting_completed (PollMessages p) h)" by (rule status_entry)
  then show ?thesis using status_InrI [OF c p(1-3)] confirmed_outcome assms(2) by metis
qed

section \<open>The messages of a poll\<close>

definition poll_keys :: "verifier_state \<Rightarrow> u64 \<Rightarrow> bytes set" where
  "poll_keys s i = {key. \<exists>c. map_of (ver_poll_messages s) key = Some c \<and> pn_poll_id c = i}"

lemma finite_poll_keys: "finite (poll_keys s i)"
  by (rule finite_subset [OF _ finite_dom_map_of [of "ver_poll_messages s"]]) (auto simp: poll_keys_def)

lemma length_load_messages:
  assumes "bt_wf (ver_poll_messages s)"
  shows "length (load_messages s i) = card (poll_keys s i)"
proof -
  let ?f = "filter (\<lambda>(_, c). pn_poll_id c = i) (ver_poll_messages s)"
  have d: "distinct (map fst (ver_poll_messages s))" using assms by (rule bt_wf_distinct)
  have "fst ` set ?f = poll_keys s i"
    using d by (force simp: poll_keys_def dest: map_of_SomeD intro: map_of_is_SomeI)
  moreover have "distinct (map fst ?f)" using d by (rule distinct_map_filter)
  ultimately have "length ?f = card (poll_keys s i)"
    by (metis distinct_card length_map set_map)
  then show ?thesis by (simp add: load_messages_def)
qed

definition poll_keys_inv :: "xrpl_lib \<Rightarrow> verifier_state \<Rightarrow> bool" where
  "poll_keys_inv lib s \<longleftrightarrow> verifier_inv lib s \<and>
     (\<forall>i p. ver_polls s i = Some (PollMessages p) \<longrightarrow> card (poll_keys s i) \<le> length (wp_tallies p))"

text \<open>A new poll takes its messages out of earlier polls; nothing else changes which poll a message is in.\<close>

lemma effect_poll_keys:
  assumes inv: "verifier_inv lib s" and eff: "verifier_effect lib env h s s'" and p: "ver_polls s i = Some (PollMessages p)"
  shows "poll_keys s' i \<subseteq> poll_keys s i"
  using eff
proof (cases rule: verifier_effect.cases)
  case (poll config msgs snap e j)
  have "i \<noteq> j" using verifier_inv_polls(1) [OF inv p] counter_incr_greater [OF poll(5)] by auto
  from inv poll(6) show ?thesis
  proof (rule new_poll_state)
    fix M
    assume s': "s' = s\<lparr>ver_poll_id := Some j, ver_polls := (ver_polls s)(j \<mapsto> PollMessages (weighted_poll_new j snap e (length msgs))),
        ver_poll_messages := M\<rparr>"
      and keys: "\<And>key. (map_of M key = map_of (ver_poll_messages s) key \<and> key \<notin> message_hash lib ` set msgs) \<or>
      (\<exists>m k. m \<in> set msgs \<and> message_hash lib m = key \<and> unat k < length msgs \<and>
         map_of M key = Some \<lparr>pn_content = m, pn_poll_id = j, pn_index_in_poll = k\<rparr>)"
    show ?thesis
    proof
      fix key assume "key \<in> poll_keys s' i"
      then show "key \<in> poll_keys s i" using keys [of key] \<open>i \<noteq> j\<close> by (auto simp: poll_keys_def s')
    qed
  qed
qed (simp_all add: poll_keys_def)

lemma poll_keys_inv_effect:
  assumes inv: "poll_keys_inv lib s" and eff: "verifier_effect lib env h s s'" and ok: "verifier_call_ok (env, h, sender, msg)"
  shows "poll_keys_inv lib s'"
proof -
  have vi: "verifier_inv lib s" using inv by (simp add: poll_keys_inv_def)
  have old: "card (poll_keys s' i) \<le> length (wp_tallies p)" if "ver_polls s i = Some (PollMessages p)" for i p
    using card_mono [OF finite_poll_keys effect_poll_keys [OF vi eff that]] inv that unfolding poll_keys_inv_def by fastforce
  have "card (poll_keys s' i) \<le> length (wp_tallies p)" if p: "ver_polls s' i = Some (PollMessages p)" for i p
    using eff
  proof (cases rule: verifier_effect.cases)
    case (poll config msgs snap e j)
    from vi poll(6) show ?thesis
    proof (rule new_poll_state)
      fix M
      assume s': "s' = s\<lparr>ver_poll_id := Some j, ver_polls := (ver_polls s)(j \<mapsto> PollMessages (weighted_poll_new j snap e (length msgs))),
          ver_poll_messages := M\<rparr>"
        and keys: "\<And>key. (map_of M key = map_of (ver_poll_messages s) key \<and> key \<notin> message_hash lib ` set msgs) \<or>
        (\<exists>m k. m \<in> set msgs \<and> message_hash lib m = key \<and> unat k < length msgs \<and>
           map_of M key = Some \<lparr>pn_content = m, pn_poll_id = j, pn_index_in_poll = k\<rparr>)"
      show ?thesis
      proof (cases "i = j")
        case True
        have fresh: "pn_poll_id c \<noteq> j" if "map_of (ver_poll_messages s) key = Some c" for key c
        proof -
          from vi that obtain q where "polled s c q" by (rule verifier_inv_content)
          then show ?thesis using verifier_inv_polls(1) [OF vi] counter_incr_greater [OF poll(5)] by (force simp: polled_def)
        qed
        have "poll_keys s' j \<subseteq> message_hash lib ` set msgs"
        proof
          fix key assume "key \<in> poll_keys s' j"
          then show "key \<in> message_hash lib ` set msgs" using keys [of key] fresh [of key] by (auto simp: poll_keys_def s')
        qed
        then have "card (poll_keys s' j) \<le> length msgs"
          by (meson List.finite_set card_image_le card_length card_mono finite_imageI order_trans)
        then show ?thesis using p True by (auto simp: s' weighted_poll_new_def)
      next
        case False
        then show ?thesis using p old by (simp add: s')
      qed
    qed
  next
    case (vote j q sender votes q')
    then show ?thesis using p old cast_vote_frame(6) [OF vote(3)] by (auto split: if_splits)
  next
    case (finish j q q')
    then show ?thesis using p old finish_consensus [OF finish(3)] by (auto split: if_splits)
  next
    case (settings conf perm k)
    then show ?thesis using p old by simp
  qed
  then show ?thesis using verifier_inv_effect [OF vi eff ok] by (simp add: poll_keys_inv_def)
qed

interpretation ver_keys: contract_invariant "only verifier_call_ok (verifier_step lib)" "poll_keys_inv lib" for lib
  by unfold_locales (auto elim!: verifier_step_effect intro: poll_keys_inv_effect)

lemma poll_keys_inv_instantiate:
  assumes "verifier_instantiate env msg = Inr (s, out)" "is_majority (vim_voting_threshold msg)" "vim_block_expiry msg \<noteq> 0"
  shows "poll_keys_inv lib s"
  using verifier_inv_instantiate [OF assms] assms(1)
  by (auto simp: poll_keys_inv_def verifier_instantiate_def result_simps Let_def split: if_splits)

lemma effect_poll_size:
  assumes inv: "verifier_inv lib s" and eff: "verifier_effect lib env h s s'" and p: "ver_polls s i = Some (PollMessages p)"
  shows "\<exists>p'. ver_polls s' i = Some (PollMessages p') \<and> length (wp_tallies p') = length (wp_tallies p)"
  using eff
proof (cases rule: verifier_effect.cases)
  case (poll config msgs snap e j)
  have "i \<noteq> j" using verifier_inv_polls(1) [OF inv p] counter_incr_greater [OF poll(5)] by auto
  moreover from inv poll(6) obtain M where "s' = s\<lparr>ver_poll_id := Some j,
      ver_polls := (ver_polls s)(j \<mapsto> PollMessages (weighted_poll_new j snap e (length msgs))), ver_poll_messages := M\<rparr>"
    by (rule new_poll_state)
  ultimately show ?thesis using p by simp
next
  case (vote j q sender votes q')
  then show ?thesis using p cast_vote_frame(6) [OF vote(3)] by auto
next
  case (finish j q q')
  then show ?thesis using p finish_consensus [OF finish(3)] by auto
qed (use p in simp)

text \<open>A poll that lost a message never gets it back, so its query fails for good.\<close>

lemma unreadable_kept:
  assumes "run (only verifier_call_ok (verifier_step lib)) s t" "poll_keys_inv lib s"
    and "\<exists>p. ver_polls s i = Some (PollMessages p) \<and> length (wp_tallies p) = n" "card (poll_keys s i) < n"
  shows "poll_response t h i = Inl (VerifierPanic ''data inconsistency for number of messages in poll'')"
proof -
  let ?R = "\<lambda>s t. (\<exists>p. ver_polls s i = Some (PollMessages p) \<and> length (wp_tallies p) = n) \<and> card (poll_keys s i) < n \<longrightarrow>
    (\<exists>p. ver_polls t i = Some (PollMessages p) \<and> length (wp_tallies p) = n) \<and> card (poll_keys t i) < n"
  have "?R s t"
    using assms(1,2)
  proof (rule ver_keys.run_monotone)
    fix t call t'
    assume t: "poll_keys_inv lib t" and "only verifier_call_ok (verifier_step lib) call t = Inr t'"
    from this(2) show "?R t t'"
    proof (cases rule: verifier_step_effect)
      case (2 env h sender msg)
      have vi: "verifier_inv lib t" using t by (simp add: poll_keys_inv_def)
      show ?thesis
        using effect_poll_size [OF vi 2(3)] card_mono [OF finite_poll_keys effect_poll_keys [OF vi 2(3)]]
        by (meson le_less_trans)
    qed simp
  qed blast+
  then obtain p where p: "ver_polls t i = Some (PollMessages p)" "length (wp_tallies p) = n" "card (poll_keys t i) < n"
    using assms(3,4) by blast
  have "bt_wf (ver_poll_messages t)"
    using ver_keys.run_inv [OF assms(1,2)] by (simp add: poll_keys_inv_def verifier_inv_def)
  then show ?thesis
    using p by (simp add: poll_response_def length_load_messages)
qed

section \<open>Examples\<close>

definition demo_ver_env :: verifier_env where
  "demo_ver_env = \<lparr>ve_active_verifiers = (\<lambda>_ _. Some
      [\<lparr>wv_address = ''val1'', wv_weight = 1\<rparr>, \<lparr>wv_address = ''val2'', wv_weight = 1\<rparr>, \<lparr>wv_address = ''val3'', wv_weight = 2\<rparr>]),
     ve_validate_address = Some, ve_account_id_to_string = (\<lambda>_. ''r'')\<rparr>"

definition demo_ver_msg :: verifier_instantiate_msg where
  "demo_ver_msg = \<lparr>vim_admin_address = ''admin'', vim_governance_address = ''governance'', vim_service_registry_address = ''registry'',
     vim_service_name = ''verifiers'', vim_source_gateway_address = [7], vim_voting_threshold = demo_threshold,
     vim_block_expiry = 10, vim_confirmation_height = 1, vim_source_chain = ''xrpl'', vim_rewards_address = ''rewards''\<rparr>"

definition demo_ver_start :: verifier_state where
  "demo_ver_start = (case verifier_instantiate demo_ver_env demo_ver_msg of
     Inr (s, _) \<Rightarrow> s
   | Inl _ \<Rightarrow> \<lparr>ver_config = None, ver_poll_id = None, ver_polls = Map.empty, ver_votes = Map.empty, ver_poll_messages = [],
       ver_permissions = \<lparr>admin = None, governance = None\<rparr>, ver_killswitch = None\<rparr>)"

definition demo_pm :: xrpl_message where
  "demo_pm = ProverMessage \<lparr>pm_tx_id = [1], pm_unsigned_tx_hash = [2]\<rparr>"

definition demo_ver_calls :: "verifier_call list" where
  "demo_ver_calls = map (Pair demo_ver_env)
     [(5, ''relayer'', VerifyMessages [demo_pm]), (6, ''val1'', CastVote 1 [SucceededOnChain]), (6, ''val3'', CastVote 1 [SucceededOnChain])]"

definition demo_ver_voted :: verifier_state where
  "demo_ver_voted = deliver (verifier_step demo_lib) demo_ver_calls demo_ver_start"

lemma run_only:
  assumes "\<And>m. m \<in> set ms \<Longrightarrow> ok m"
  shows "run (only ok step) s (deliver step ms s)"
proof -
  have "deliver (only ok step) ms s = deliver step ms s"
    using assms by (induction ms arbitrary: s) (auto simp: deliver_def only_def)
  then show ?thesis using run_deliver [of "only ok step" s ms] by simp
qed

lemma demo_ver_ok: "verifier_call_ok (demo_ver_env, h, sender, msg)" if "\<And>t b c. msg \<noteq> UpdateVotingParameters t b c"
  using that by (auto simp: verifier_call_ok_def demo_ver_env_def)

lemma demo_ver_calls_ok: "call \<in> set demo_ver_calls \<Longrightarrow> verifier_call_ok call"
  by (auto simp: demo_ver_calls_def intro!: demo_ver_ok)

lemma demo_ver_instantiate: "\<exists>out. verifier_instantiate demo_ver_env demo_ver_msg = Inr (demo_ver_start, out)"
  by (simp add: demo_ver_start_def verifier_instantiate_def demo_ver_env_def demo_ver_msg_def Let_def)

lemma demo_ver_params: "is_majority (vim_voting_threshold demo_ver_msg)" "vim_block_expiry demo_ver_msg \<noteq> 0"
  by (simp_all add: demo_ver_msg_def demo_majority)

lemma verify_one:
  assumes "ver_killswitch s = Some Disengaged" "ver_config s = Some config" "verifier_message_status lib s m h = Inr st" "needs_poll st"
    and "take_snapshot env s = Inr snap" "calculate_expiration h (vc_block_expiry config) = Inr e" "counter_incr (ver_poll_id s) = Inr i"
  shows "verifier_step lib (env, h, sender, VerifyMessages [m]) s = Inr (s\<lparr>ver_poll_id := Some i,
     ver_polls := (ver_polls s)(i \<mapsto> PollMessages (weighted_poll_new i snap e 1)),
     ver_poll_messages := bt_insert (message_hash lib m) \<lparr>pn_content = m, pn_poll_id = i, pn_index_in_poll = 0\<rparr> (ver_poll_messages s)\<rparr>)"
  using assms by (simp add: verifier_step_def verifier_execute_def verifier_permission_def verify_messages_def
      create_messages_poll_def save_poll_message_def poll_content_new_def try_of_nat_def new_state_def)

definition demo_ver_polled :: verifier_state where
  "demo_ver_polled = demo_ver_start\<lparr>ver_poll_id := Some 1,
     ver_polls := [1 \<mapsto> PollMessages (weighted_poll_new 1 demo_snapshot 15 1)],
     ver_poll_messages := [(message_hash demo_lib demo_pm, \<lparr>pn_content = demo_pm, pn_poll_id = 1, pn_index_in_poll = 0\<rparr>)]\<rparr>"

lemma demo_ver_start_fields:
  "ver_killswitch demo_ver_start = Some Disengaged" "ver_poll_id demo_ver_start = None" "ver_polls demo_ver_start = Map.empty"
  "ver_poll_messages demo_ver_start = []" "take_snapshot demo_ver_env demo_ver_start = Inr demo_snapshot"
proof -
  show "take_snapshot demo_ver_env demo_ver_start = Inr demo_snapshot" by code_simp
qed (simp_all add: demo_ver_start_def verifier_instantiate_def demo_ver_env_def demo_ver_msg_def Let_def killswitch_init_def)

lemma demo_ver_config: obtains config where "ver_config demo_ver_start = Some config" "vc_block_expiry config = 10"
  by (simp add: demo_ver_start_def verifier_instantiate_def demo_ver_env_def demo_ver_msg_def Let_def)

lemma demo_first_poll: "verifier_step demo_lib (demo_ver_env, 5, ''relayer'', VerifyMessages [demo_pm]) demo_ver_start = Inr demo_ver_polled"
proof -
  obtain config where c: "ver_config demo_ver_start = Some config" "vc_block_expiry config = 10" by (rule demo_ver_config)
  have "verifier_message_status demo_lib demo_ver_start demo_pm 5 = Inr Unknown"
    by (simp add: status_Inr_iff demo_ver_start_fields)
  moreover have "calculate_expiration 5 (vc_block_expiry config) = Inr 15" "counter_incr (ver_poll_id demo_ver_start) = Inr 1"
    by (simp_all add: calculate_expiration_def c checked_add_def counter_incr_def counter_cur_def demo_ver_start_fields)
  ultimately show ?thesis
    using verify_one [OF demo_ver_start_fields(1) c(1) _ _ demo_ver_start_fields(5)]
    by (simp add: needs_poll_iff demo_ver_start_fields demo_ver_polled_def)
qed

section \<open>Properties\<close>

text \<open>
  C4: A confirmed status is final: once the verifier reports that a message succeeded or failed on the
  source chain, it reports the same after any further calls and at any height.\<close>

theorem confirmed_status_final:
  assumes "verifier_instantiate env msg = Inr (s0, out)" "is_majority (vim_voting_threshold msg)" "vim_block_expiry msg \<noteq> 0"
    and "run (only verifier_call_ok (verifier_step lib)) s0 s" "run (only verifier_call_ok (verifier_step lib)) s s'"
    and "verifier_message_status lib s m h = Inr st" "is_confirmed st"
  shows "verifier_message_status lib s' m h' = Inr st"
proof -
  have inv: "verifier_inv lib s" by (rule ver.run_inv [OF assms(4) verifier_inv_instantiate [OF assms(1-3)]])
  have "\<forall>m h h' st. verifier_message_status lib s m h = Inr st \<longrightarrow> is_confirmed st \<longrightarrow> verifier_message_status lib s' m h' = Inr st"
    using assms(5) inv
  proof (rule ver.run_monotone)
    show "\<forall>m h h' st. verifier_message_status lib t m h = Inr st \<longrightarrow> is_confirmed st \<longrightarrow> verifier_message_status lib t m h' = Inr st" for t
      using confirmed_any_height by blast
    show "\<forall>m h h' st. verifier_message_status lib t m h = Inr st \<longrightarrow> is_confirmed st \<longrightarrow> verifier_message_status lib t' m h' = Inr st"
      if "verifier_inv lib t" "only verifier_call_ok (verifier_step lib) call t = Inr t'" for t call t'
      using that(2) status_confirmed_kept [OF that(1)] confirmed_any_height by (cases rule: verifier_step_effect) blast+
  qed blast
  then show ?thesis using assms(6,7) by blast
qed

theorem confirmed_status_final_witness:
  "verifier_message_status demo_lib demo_ver_voted demo_pm 7 = Inr SucceededOnSourceChain \<and>
   verifier_message_status demo_lib (deliver (verifier_step demo_lib) [(demo_ver_env, 8, ''val2'', CastVote 1 [FailedOnChain])] demo_ver_voted)
     demo_pm 1000 = Inr SucceededOnSourceChain"
proof -
  obtain out where i: "verifier_instantiate demo_ver_env demo_ver_msg = Inr (demo_ver_start, out)"
    using demo_ver_instantiate by blast
  have st: "verifier_message_status demo_lib demo_ver_voted demo_pm 7 = Inr SucceededOnSourceChain" by code_simp
  have r: "run (only verifier_call_ok (verifier_step demo_lib)) demo_ver_start demo_ver_voted"
    unfolding demo_ver_voted_def by (rule run_only) (rule demo_ver_calls_ok)
  have r': "run (only verifier_call_ok (verifier_step demo_lib)) demo_ver_voted
      (deliver (verifier_step demo_lib) [(demo_ver_env, 8, ''val2'', CastVote 1 [FailedOnChain])] demo_ver_voted)"
    by (rule run_only) (auto intro!: demo_ver_ok)
  show ?thesis
    using confirmed_status_final [OF i demo_ver_params r r' st] st by (simp add: is_confirmed_def)
qed

text \<open>
  C5: The status of a message moves along its life cycle, in every reachable state and for every call:
  unknown messages are polled, a running poll decides or not, messages that were not found or whose poll
  failed can be polled again, and nothing else happens; as time passes, a poll that was not decided fails.\<close>

theorem status_lifecycle:
  assumes "verifier_instantiate env0 msg0 = Inr (s0, out)" "is_majority (vim_voting_threshold msg0)" "vim_block_expiry msg0 \<noteq> 0"
    and "run (only verifier_call_ok (clocked (verifier_step lib))) (s0, start) (s, now)"
    and "now \<le> h" "verifier_call_ok (env, h, sender, msg)" "verifier_step lib (env, h, sender, msg) s = Inr s'"
    and "verifier_message_status lib s m h = Inr st"
  shows "(\<forall>st'. verifier_message_status lib s' m h = Inr st' \<longrightarrow> st' \<in> set (lifecycle st)) \<and>
    (\<forall>h' st'. h \<le> h' \<longrightarrow> verifier_message_status lib s m h' = Inr st' \<longrightarrow> st' = st \<or> st = InProgress \<and> st' = FailedToVerify)"
proof -
  have "clock_inv lib (s0, start)"
    using verifier_inv_instantiate [OF assms(1-3)] assms(1)
    by (auto simp: clock_inv_def verifier_instantiate_def result_simps Let_def split: if_splits)
  then have inv: "clock_inv lib (s, now)" by (rule ver_clock.run_inv [OF assms(4)])
  have "verifier_effect lib env h s s'"
    using verifier_execute_effect assms(6,7) by (auto simp: verifier_step_def result_simps)
  then show ?thesis using lifecycle_step [OF inv _ assms(6,5,8)] status_time [OF assms(8)] by blast
qed

theorem status_lifecycle_witness:
  "\<exists>s'. verifier_step demo_lib (demo_ver_env, 5, ''relayer'', VerifyMessages [demo_pm]) demo_ver_start = Inr s' \<and>
     verifier_message_status demo_lib s' demo_pm 5 \<in> {Inr Unknown, Inr InProgress} \<union> range Inl"
proof -
  obtain out where i: "verifier_instantiate demo_ver_env demo_ver_msg = Inr (demo_ver_start, out)"
    using demo_ver_instantiate by blast
  have st: "verifier_message_status demo_lib demo_ver_start demo_pm 5 = Inr Unknown"
    by (simp add: status_Inr_iff demo_ver_start_fields)
  have "verifier_call_ok (demo_ver_env, 5, ''relayer'', VerifyMessages [demo_pm])" by (rule demo_ver_ok) simp
  from status_lifecycle [OF i demo_ver_params run_refl _ this demo_first_poll st, of 0] show ?thesis
    using demo_first_poll by (cases "verifier_message_status demo_lib demo_ver_polled demo_pm 5") (auto simp: lifecycle_def)
qed

text \<open>The votes behind a decision: they are recorded for the place of the message in its latest poll.\<close>

definition backed :: "verifier_state \<Rightarrow> poll_content \<Rightarrow> vote \<Rightarrow> bool" where
  "backed s c v \<longleftrightarrow>
     (case ver_polls s (pn_poll_id c) of
        Some (PollMessages p) \<Rightarrow>
          poll_total_weight p <
            2 * sum_list (map (\<lambda>(a, part).
                  if (case ver_votes s (pn_poll_id c, a) of
                        Some vs \<Rightarrow> unat (pn_index_in_poll c) < length vs \<and> vs ! unat (pn_index_in_poll c) = v
                      | None \<Rightarrow> False)
                  then unat (part_weight part) else 0) (wp_participation p))
      | None \<Rightarrow> False)"

lemma decision_backed:
  assumes inv: "verifier_inv lib s" and st: "verifier_message_status lib s m h = Inr (outcome (Some v) False)"
  shows "\<exists>c. map_of (ver_poll_messages s) (message_hash lib m) = Some c \<and> pn_content c = m \<and> backed s c v"
proof -
  obtain c where c: "map_of (ver_poll_messages s) (message_hash lib m) = Some c"
    using st by (cases "map_of (ver_poll_messages s) (message_hash lib m)") (auto simp: status_Inr_iff)
  with st obtain p w where p: "polled s c p" "poll_consensus p (pn_index_in_poll c) = Inr w"
      "outcome (Some v) False = outcome w (voting_completed (PollMessages p) h)"
    by (rule status_entry)
  have content: "pn_content c = m"
    using st c by (auto simp: verifier_message_status_def verification_status_of_def split: if_splits)
  let ?k = "unat (pn_index_in_poll c)"
  have w: "w = Some v" using p(3) by (cases w; cases v) (auto simp: outcome_def split: vote.splits if_splits)
  note poll = verifier_inv_polls [OF inv p(1) [unfolded polled_def]]
  have k: "?k < length (wp_tallies p)" "tallies_consensus (wp_tallies p ! ?k) (wp_quorum p) = Inr (Some v)"
    using p(2) w by (auto simp: poll_consensus_def split: if_splits)
  have t: "tallies_wf (wp_tallies p ! ?k)" using poll(2) k(1) by (simp add: poll_inv_def)
  have "wp_quorum p \<le> tally_of (wp_tallies p ! ?k) v"
    using k(2) by (cases v) (auto simp: tallies_consensus_wf [OF t] split: if_splits)
  then have "poll_total_weight p < 2 * recorded_weight s (pn_poll_id c) p ?k v"
    using poll(3,4) k(1) by (simp add: majority_quorum_def votes_ok_def word_le_nat_alt)
  moreover have "recorded s (pn_poll_id c) ?k v =
      (\<lambda>a. case ver_votes s (pn_poll_id c, a) of Some vs \<Rightarrow> ?k < length vs \<and> vs ! ?k = v | None \<Rightarrow> False)"
    by (rule ext) (simp add: recorded_def split: option.split)
  ultimately have "backed s c v" using p(1) unfolding backed_def recorded_weight_def polled_def by simp
  with c content show ?thesis by blast
qed



text \<open>
  C26: No assertion of a status query fails: in every reachable state the verifier answers the status of a
  message at every height, unless the hash of the message is also the hash of another message.\<close>

theorem status_query_total:
  assumes "verifier_instantiate env msg = Inr (s0, out)" "is_majority (vim_voting_threshold msg)" "vim_block_expiry msg \<noteq> 0"
    and "run (only verifier_call_ok (verifier_step lib)) s0 s" "\<And>m'. message_hash lib m' = message_hash lib m \<Longrightarrow> m' = m"
  shows "\<exists>st. verifier_message_status lib s m h = Inr st"
proof (cases "map_of (ver_poll_messages s) (message_hash lib m)")
  case None
  then show ?thesis by (simp add: status_Inr_iff)
next
  case (Some c)
  have inv: "verifier_inv lib s" by (rule ver.run_inv [OF assms(4) verifier_inv_instantiate [OF assms(1-3)]])
  from inv Some obtain p where p: "message_hash lib (pn_content c) = message_hash lib m" "polled s c p"
      "unat (pn_index_in_poll c) < length (wp_tallies p)"
    by (rule verifier_inv_content)
  obtain v where "poll_consensus p (pn_index_in_poll c) = Inr v"
    using poll_consensus_total [OF verifier_inv_polls(2) [OF inv p(2) [unfolded polled_def]] p(3)] by blast
  then show ?thesis using status_InrI [OF Some assms(5) [OF p(1)] p(2)] by blast
qed

theorem status_query_total_witness:
  "let lib = demo_lib\<lparr>message_hash := (\<lambda>m. if m = demo_pm then [1] else [2])\<rparr> in
     \<exists>st. verifier_message_status lib
       (deliver (verifier_step lib) [(demo_ver_env, 5, ''relayer'', VerifyMessages [demo_pm])] demo_ver_start) demo_pm 6 = Inr st"
proof -
  let ?lib = "demo_lib\<lparr>message_hash := (\<lambda>m. if m = demo_pm then [1] else [2])\<rparr>"
  obtain out where i: "verifier_instantiate demo_ver_env demo_ver_msg = Inr (demo_ver_start, out)"
    using demo_ver_instantiate by blast
  have r: "run (only verifier_call_ok (verifier_step ?lib)) demo_ver_start
      (deliver (verifier_step ?lib) [(demo_ver_env, 5, ''relayer'', VerifyMessages [demo_pm])] demo_ver_start)"
    by (rule run_only) (auto intro!: demo_ver_ok)
  have "m' = demo_pm" if "message_hash ?lib m' = message_hash ?lib demo_pm" for m'
    using that by (simp split: if_splits)
  then show ?thesis using status_query_total [OF i demo_ver_params r] unfolding Let_def by blast
qed

lemma demo_ver_expired: "verifier_message_status demo_lib demo_ver_polled demo_pm 20 = Inr FailedToVerify" by code_simp

lemma demo_ver_polled_fields:
  "ver_killswitch demo_ver_polled = Some Disengaged" "ver_poll_id demo_ver_polled = Some 1"
  "ver_config demo_ver_polled = ver_config demo_ver_start"
  "ver_poll_messages demo_ver_polled = [(message_hash demo_lib demo_pm, \<lparr>pn_content = demo_pm, pn_poll_id = 1, pn_index_in_poll = 0\<rparr>)]"
  using demo_ver_start_fields by (simp_all add: demo_ver_polled_def)

lemma demo_ver_polled_snapshot: "take_snapshot demo_ver_env demo_ver_polled = Inr demo_snapshot"
  using demo_ver_start_fields(5) by (simp add: take_snapshot_def demo_ver_polled_fields)

lemma demo_second_poll:
  obtains s where "verifier_step demo_lib (demo_ver_env, 20, ''relayer'', VerifyMessages [demo_pm]) demo_ver_polled = Inr s"
    "map_of (ver_poll_messages s) (message_hash demo_lib demo_pm) = Some \<lparr>pn_content = demo_pm, pn_poll_id = 2, pn_index_in_poll = 0\<rparr>"
proof -
  obtain config where c: "ver_config demo_ver_start = Some config" "vc_block_expiry config = 10" by (rule demo_ver_config)
  have c1: "ver_config demo_ver_polled = Some config" by (simp only: demo_ver_polled_fields c)
  have e: "calculate_expiration 20 (vc_block_expiry config) = Inr 30"
    by (simp add: calculate_expiration_def c checked_add_def)
  have i: "counter_incr (ver_poll_id demo_ver_polled) = Inr 2"
    by (simp add: counter_incr_def counter_cur_def checked_add_def demo_ver_polled_fields)
  have n: "needs_poll FailedToVerify" by (simp add: needs_poll_iff)
  show ?thesis
    by (rule that [OF verify_one [OF demo_ver_polled_fields(1) c1 demo_ver_expired n demo_ver_polled_snapshot e i]])
      (simp add: demo_ver_polled_fields)
qed

text \<open>
  C27: Polling a message again makes the earlier poll unreadable: once a message that was in a poll is
  put into a new poll, because the first one did not find or did not decide it, the query of the first
  poll aborts with its assertion on the number of messages, in this and in every later state.\<close>

theorem repolled_poll_unreadable:
  assumes "verifier_instantiate env msg = Inr (s0, out)" "is_majority (vim_voting_threshold msg)" "vim_block_expiry msg \<noteq> 0"
    and "run (only verifier_call_ok (verifier_step lib)) s0 s" "only verifier_call_ok (verifier_step lib) call s = Inr s'"
    and "map_of (ver_poll_messages s) key = Some c" "map_of (ver_poll_messages s') key = Some c'" "pn_poll_id c' \<noteq> pn_poll_id c"
    and "run (only verifier_call_ok (verifier_step lib)) s' s''"
  shows "poll_response s'' h (pn_poll_id c) = Inl (VerifierPanic ''data inconsistency for number of messages in poll'')"
proof -
  let ?i = "pn_poll_id c"
  have inv: "poll_keys_inv lib s" by (rule ver_keys.run_inv [OF assms(4) poll_keys_inv_instantiate [OF assms(1-3)]])
  then have vi: "verifier_inv lib s" by (simp add: poll_keys_inv_def)
  from vi assms(6) obtain p where p: "polled s c p" by (rule verifier_inv_content)
  have "card (poll_keys s' ?i) < length (wp_tallies p)" and vi': "poll_keys_inv lib s'" and
    p': "\<exists>p'. ver_polls s' ?i = Some (PollMessages p') \<and> length (wp_tallies p') = length (wp_tallies p)"
    using assms(5)
  proof (atomize (full), cases rule: verifier_step_effect)
    case 1
    then show "card (poll_keys s' ?i) < length (wp_tallies p) \<and> poll_keys_inv lib s' \<and>
        (\<exists>p'. ver_polls s' ?i = Some (PollMessages p') \<and> length (wp_tallies p') = length (wp_tallies p))"
      using assms(6-8) by simp
  next
    case (2 env h sender msg)
    have "key \<in> poll_keys s ?i - poll_keys s' ?i" using assms(6-8) by (auto simp: poll_keys_def)
    then have "poll_keys s' ?i \<subset> poll_keys s ?i"
      using effect_poll_keys [OF vi 2(3)] p by (auto simp: polled_def)
    then have "card (poll_keys s' ?i) < card (poll_keys s ?i)" by (rule psubset_card_mono [OF finite_poll_keys])
    then show "card (poll_keys s' ?i) < length (wp_tallies p) \<and> poll_keys_inv lib s' \<and>
        (\<exists>p'. ver_polls s' ?i = Some (PollMessages p') \<and> length (wp_tallies p') = length (wp_tallies p))"
      using inv p poll_keys_inv_effect [OF inv 2(3,2)] effect_poll_size [OF vi 2(3)] unfolding poll_keys_inv_def polled_def by fastforce
  qed
  then show ?thesis using unreadable_kept [OF assms(9) vi'] by blast
qed

theorem repolled_poll_unreadable_witness:
  "\<exists>s h. run (only verifier_call_ok (verifier_step demo_lib)) demo_ver_start s \<and>
     poll_response s h 1 = Inl (VerifierPanic ''data inconsistency for number of messages in poll'')"
proof -
  let ?key = "message_hash demo_lib demo_pm"
  let ?step = "only verifier_call_ok (verifier_step demo_lib)"
  obtain out where i: "verifier_instantiate demo_ver_env demo_ver_msg = Inr (demo_ver_start, out)"
    using demo_ver_instantiate ..
  have ok: "verifier_call_ok (demo_ver_env, h, ''relayer'', VerifyMessages [demo_pm])" for h by (rule demo_ver_ok) simp
  have "?step (demo_ver_env, 5, ''relayer'', VerifyMessages [demo_pm]) demo_ver_start = Inr demo_ver_polled"
    by (simp only: only_def ok demo_first_poll if_True)
  then have r: "run ?step demo_ver_start demo_ver_polled" by (rule run_step [OF run_refl])
  have c: "map_of (ver_poll_messages demo_ver_polled) ?key = Some \<lparr>pn_content = demo_pm, pn_poll_id = 1, pn_index_in_poll = 0\<rparr>"
    by (simp add: demo_ver_polled_fields)
  obtain s' where s': "verifier_step demo_lib (demo_ver_env, 20, ''relayer'', VerifyMessages [demo_pm]) demo_ver_polled = Inr s'"
      "map_of (ver_poll_messages s') ?key = Some \<lparr>pn_content = demo_pm, pn_poll_id = 2, pn_index_in_poll = 0\<rparr>"
    by (rule demo_second_poll)
  have step: "?step (demo_ver_env, 20, ''relayer'', VerifyMessages [demo_pm]) demo_ver_polled = Inr s'"
    by (simp only: only_def ok s'(1) if_True)
  have ne: "pn_poll_id \<lparr>pn_content = demo_pm, pn_poll_id = 2, pn_index_in_poll = 0\<rparr> \<noteq>
      pn_poll_id \<lparr>pn_content = demo_pm, pn_poll_id = 1, pn_index_in_poll = 0\<rparr>" by simp
  note p = repolled_poll_unreadable [OF i demo_ver_params r step c s'(2) ne run_refl, unfolded poll_content.select_convs]
  have "run ?step demo_ver_start s' \<and>
      poll_response s' 20 1 = Inl (VerifierPanic ''data inconsistency for number of messages in poll'')"
    by (rule conjI [OF run_step [where step = ?step, OF r step] p])
  then show ?thesis by (rule exI [of _ s', OF exI [of _ 20]])
qed

end
