(* ===== verification/Msg_Id.thy ===== *)
theory Msg_Id
  imports Amplifier_Prelude
begin

text \<open>
  The formats of message ids (\<open>packages/axelar-wasm-std/src/msg_id\<close>) and the Starknet field elements
  (\<open>packages/starknet-checked-felt\<close>). Each format parses and prints an id; \<open>canonical_id\<close> states the contract of
  the trait \<open>MessageId\<close>: one string identifies a given message. The regular expressions are written out as
  the predicates they define. The codecs of the crates \<open>hex\<close>, \<open>bs58\<close>, \<open>bech32\<close> and \<open>starknet_types_core\<close>, the
  Unicode table of letters and digits and whether a pattern compiles are the fields of a record;
  \<open>msg_id_laws\<close> names what the formats rely on.
\<close>

datatype checked_felt_error =
    AddressPrefix
  | AddressLength
  | Overflowing
  | HexDecode

datatype msg_id_error =
    InvalidMessageID string string
  | EventIndexOverflow string
  | InvalidTxHash string
  | InvalidTxDigest string
  | InvalidBech32mFormat string
  | InvalidBech32m string
  | InvalidFieldElement checked_felt_error string

record msg_id_lib =
  hex_encode :: "bytes \<Rightarrow> string"
  hex_decode :: "string \<Rightarrow> bytes option"
  bs58_encode :: "bytes \<Rightarrow> string"
  bs58_decode :: "string \<Rightarrow> bytes option"
  bech32m_hrpstring :: "string \<Rightarrow> (string \<times> string) option"
  all_alphanumeric :: "string \<Rightarrow> bool"
  bech32m_regex_ok :: "string \<Rightarrow> nat \<Rightarrow> bool"
  felt_lower_hex_64 :: "u256 \<Rightarrow> string"

section \<open>Patterns\<close>

definition char_in :: "char \<Rightarrow> char \<Rightarrow> char \<Rightarrow> bool" where
  "char_in a b c \<longleftrightarrow> (of_char a :: nat) \<le> of_char c \<and> (of_char c :: nat) \<le> of_char b"

definition is_digit :: "char \<Rightarrow> bool" where
  "is_digit c \<longleftrightarrow> char_in CHR ''0'' CHR ''9'' c"

definition is_hex :: "char \<Rightarrow> bool" where
  "is_hex c \<longleftrightarrow> is_digit c \<or> char_in CHR ''a'' CHR ''f'' c"

definition is_base58 :: "char \<Rightarrow> bool" where
  "is_base58 c \<longleftrightarrow> char_in CHR ''1'' CHR ''9'' c \<or> char_in CHR ''A'' CHR ''H'' c \<or> char_in CHR ''J'' CHR ''N'' c \<or>
     char_in CHR ''P'' CHR ''Z'' c \<or> char_in CHR ''a'' CHR ''k'' c \<or> char_in CHR ''m'' CHR ''z'' c"

definition is_bech32 :: "char \<Rightarrow> bool" where
  "is_bech32 c \<longleftrightarrow> c = CHR ''0'' \<or> char_in CHR ''2'' CHR ''9'' c \<or> c = CHR ''a'' \<or> char_in CHR ''c'' CHR ''h'' c \<or>
     char_in CHR ''j'' CHR ''n'' c \<or> char_in CHR ''p'' CHR ''z'' c"

text \<open>\<open>0|[1-9][0-9]*\<close>\<close>

definition index_pattern :: "string \<Rightarrow> bool" where
  "index_pattern s \<longleftrightarrow>
     s = ''0'' \<or> (case s of [] \<Rightarrow> False | c # cs \<Rightarrow> char_in CHR ''1'' CHR ''9'' c \<and> list_all is_digit cs)"

definition hex_hash_pattern :: "string \<Rightarrow> bool" where
  "hex_hash_pattern s \<longleftrightarrow> take 2 s = ''0x'' \<and> length s = 66 \<and> list_all is_hex (drop 2 s)"

definition field_element_pattern :: "string \<Rightarrow> bool" where
  "field_element_pattern s \<longleftrightarrow> take 3 s = ''0x0'' \<and> length s = 66 \<and> list_all is_hex (drop 3 s)"

definition base58_pattern :: "nat \<Rightarrow> nat \<Rightarrow> string \<Rightarrow> bool" where
  "base58_pattern lo hi s \<longleftrightarrow> lo \<le> length s \<and> length s \<le> hi \<and> list_all is_base58 s"

text \<open>The captures of \<open>^(T)-(0|[1-9][0-9]*)$\<close>, where no text of \<open>T\<close> has a dash.\<close>

definition captures_indexed :: "(string \<Rightarrow> bool) \<Rightarrow> string \<Rightarrow> (string \<times> string) option" where
  "captures_indexed tx_pattern s =
     (case dropWhile (\<lambda>c. c \<noteq> CHR ''-'') s of
        [] \<Rightarrow> None
      | _ # index \<Rightarrow>
          (let tx = takeWhile (\<lambda>c. c \<noteq> CHR ''-'') s
           in if tx_pattern tx \<and> index_pattern index then Some (tx, index) else None))"

definition parse_index :: "string \<Rightarrow> string \<Rightarrow> msg_id_error + u64" where
  "parse_index message_id index = ok_or (EventIndexOverflow message_id) (Option.bind (read_nat index) try_of_nat)"

text \<open>A slice converted to an array of \<open>n\<close> bytes.\<close>

definition array_try_from :: "nat \<Rightarrow> 'e \<Rightarrow> bytes \<Rightarrow> 'e + bytes" where
  "array_try_from n e b = (if length b = n then Inr b else Inl e)"

section \<open>The formats\<close>

record hex_tx_hash = hth_tx_hash :: bytes

definition hex_tx_hash_from_str :: "msg_id_lib \<Rightarrow> string \<Rightarrow> msg_id_error + hex_tx_hash" where
  "hex_tx_hash_from_str lib message_id =
     (if \<not> hex_hash_pattern message_id then Inl (InvalidMessageID message_id ''^0x[0-9a-f]{64}$'')
      else
        rbind (ok_or (InvalidTxHash message_id) (hex_decode lib (drop 2 message_id))) (\<lambda>b.
        rbind (array_try_from 32 (InvalidTxHash message_id) b) (\<lambda>h. Inr \<lparr>hth_tx_hash = h\<rparr>)))"

definition hex_tx_hash_to_string :: "msg_id_lib \<Rightarrow> hex_tx_hash \<Rightarrow> string" where
  "hex_tx_hash_to_string lib self = ''0x'' @ hex_encode lib (hth_tx_hash self)"

record hex_tx_hash_and_event_index =
  hti_tx_hash :: bytes
  hti_event_index :: u64

definition hex_indexed_from_str :: "msg_id_lib \<Rightarrow> string \<Rightarrow> msg_id_error + hex_tx_hash_and_event_index" where
  "hex_indexed_from_str lib message_id =
     rbind (ok_or (InvalidMessageID message_id ''^(0x[0-9a-f]{64})-(0|[1-9][0-9]*)$'')
              (captures_indexed hex_hash_pattern message_id)) (\<lambda>(tx_id, event_index).
     rbind (ok_or (InvalidTxHash message_id) (hex_decode lib (drop 2 tx_id))) (\<lambda>b.
     rbind (array_try_from 32 (InvalidTxHash message_id) b) (\<lambda>h.
     rbind (parse_index message_id event_index) (\<lambda>i.
     Inr \<lparr>hti_tx_hash = h, hti_event_index = i\<rparr>))))"

definition hex_indexed_to_string :: "msg_id_lib \<Rightarrow> hex_tx_hash_and_event_index \<Rightarrow> string" where
  "hex_indexed_to_string lib self =
     ''0x'' @ hex_encode lib (hti_tx_hash self) @ ''-'' @ show_nat (unat (hti_event_index self))"

record base58_tx_digest_and_event_index =
  b58_tx_digest :: bytes
  b58_event_index :: u64

definition base58_from_str :: "msg_id_lib \<Rightarrow> string \<Rightarrow> msg_id_error + base58_tx_digest_and_event_index" where
  "base58_from_str lib message_id =
     rbind (ok_or (InvalidMessageID message_id ''^([1-9A-HJ-NP-Za-km-z]{32,44})-(0|[1-9][0-9]*)$'')
              (captures_indexed (base58_pattern 32 44) message_id)) (\<lambda>(tx_id, event_index).
     rbind (ok_or (InvalidTxDigest message_id) (bs58_decode lib tx_id)) (\<lambda>b.
     rbind (array_try_from 32 (InvalidTxDigest message_id) b) (\<lambda>h.
     rbind (parse_index message_id event_index) (\<lambda>i.
     Inr \<lparr>b58_tx_digest = h, b58_event_index = i\<rparr>))))"

definition base58_to_string :: "msg_id_lib \<Rightarrow> base58_tx_digest_and_event_index \<Rightarrow> string" where
  "base58_to_string lib self =
     bs58_encode lib (b58_tx_digest self) @ ''-'' @ show_nat (unat (b58_event_index self))"

record base58_solana_tx_signature_and_event_index =
  sol_raw_signature :: bytes
  sol_event_index :: u64

definition decode_b58_signature :: "msg_id_lib \<Rightarrow> string \<Rightarrow> msg_id_error + bytes" where
  "decode_b58_signature lib signature =
     rbind (ok_or (InvalidTxDigest signature) (bs58_decode lib signature)) (\<lambda>b.
     array_try_from 64 (InvalidTxDigest signature) b)"

definition solana_from_str :: "msg_id_lib \<Rightarrow> string \<Rightarrow> msg_id_error + base58_solana_tx_signature_and_event_index" where
  "solana_from_str lib message_id =
     rbind (ok_or (InvalidMessageID message_id ''^([1-9A-HJ-NP-Za-km-z]{64,88})-(0|[1-9][0-9]*)$'')
              (captures_indexed (base58_pattern 64 88) message_id)) (\<lambda>(signature, event_index).
     rbind (decode_b58_signature lib signature) (\<lambda>h.
     rbind (parse_index message_id event_index) (\<lambda>i.
     Inr \<lparr>sol_raw_signature = h, sol_event_index = i\<rparr>)))"

definition solana_to_string :: "msg_id_lib \<Rightarrow> base58_solana_tx_signature_and_event_index \<Rightarrow> string" where
  "solana_to_string lib self =
     bs58_encode lib (sol_raw_signature self) @ ''-'' @ show_nat (unat (sol_event_index self))"

section \<open>Field elements\<close>

function trim_0x :: "string \<Rightarrow> string" where
  "trim_0x s = (if take 2 s = ''0x'' then trim_0x (drop 2 s) else s)"
  by pat_completeness auto

termination
  by (relation "measure length") (auto dest: arg_cong [where f = length])

declare trim_0x.simps [simp del]

text \<open>\<open>U256::from_be_slice\<close>\<close>

definition nat_of_be_bytes :: "bytes \<Rightarrow> nat" where
  "nat_of_be_bytes b = foldl (\<lambda>a x. a * 256 + unat x) 0 b"

definition FELT_MAX_U256 :: u256 where
  "FELT_MAX_U256 = of_nat (nat_of_be_bytes ([8, 0, 0, 0, 0, 0, 0, 17] @ replicate 24 0))"

definition checked_felt_try_from :: "u256 \<Rightarrow> checked_felt_error + u256" where
  "checked_felt_try_from value = (if value \<le> FELT_MAX_U256 then Inr value else Inl Overflowing)"

definition checked_felt_from_str :: "msg_id_lib \<Rightarrow> string \<Rightarrow> checked_felt_error + u256" where
  "checked_felt_from_str lib s =
     (if take 2 s \<noteq> ''0x'' then Inl AddressPrefix
      else
        (let trimmed_addr = trim_0x s
         in if length trimmed_addr \<noteq> 64 then Inl AddressLength
            else
              rbind (ok_or HexDecode (hex_decode lib trimmed_addr)) (\<lambda>felt_hex_bytes.
              checked_felt_try_from (of_nat (nat_of_be_bytes felt_hex_bytes)))))"

record field_element_and_event_index =
  fe_tx_hash :: u256
  fe_event_index :: u64

definition field_element_from_str :: "msg_id_lib \<Rightarrow> string \<Rightarrow> msg_id_error + field_element_and_event_index" where
  "field_element_from_str lib message_id =
     rbind (ok_or (InvalidMessageID message_id ''^(0x0[0-9a-f]{63})-(0|[1-9][0-9]*)$'')
              (captures_indexed field_element_pattern message_id)) (\<lambda>(tx_id, event_index).
     rbind (map_err (\<lambda>e. InvalidFieldElement e tx_id) (checked_felt_from_str lib tx_id)) (\<lambda>felt.
     rbind (parse_index message_id event_index) (\<lambda>i.
     Inr \<lparr>fe_tx_hash = felt, fe_event_index = i\<rparr>)))"

definition field_element_to_string :: "msg_id_lib \<Rightarrow> field_element_and_event_index \<Rightarrow> string" where
  "field_element_to_string lib self =
     ''0x'' @ felt_lower_hex_64 lib (fe_tx_hash self) @ ''-'' @ show_nat (unat (fe_event_index self))"

section \<open>Bech32m\<close>

definition verify_bech32m :: "msg_id_lib \<Rightarrow> string \<Rightarrow> string \<Rightarrow> msg_id_error + unit" where
  "verify_bech32m lib input expected_prefix =
     rbind (ok_or (InvalidBech32m input) (bech32m_hrpstring lib input)) (\<lambda>(hrp, data_part).
     if hrp \<noteq> expected_prefix then Inl (InvalidBech32m input)
     else if data_part = [] then Inl (InvalidBech32m input) else Inr ())"

definition bech32m_from_str :: "msg_id_lib \<Rightarrow> string \<Rightarrow> nat \<Rightarrow> string \<Rightarrow> msg_id_error + string" where
  "bech32m_from_str lib prefix len message_id =
     (if \<not> (prefix \<noteq> [] \<and> length prefix \<le> 83)
      then Inl (InvalidBech32mFormat ''Prefix size should be between 1 and 83'')
      else
        (let data_part_length = saturating_sub (saturating_sub len (length prefix)) 1 in
         if \<not> 6 \<le> data_part_length
         then Inl (InvalidBech32mFormat ''The data part should be at least 6 characters long'')
         else if \<not> all_alphanumeric lib prefix
         then Inl (InvalidBech32mFormat ''The prefix should contain only Bech32m valid characters'')
         else if \<not> bech32m_regex_ok lib prefix data_part_length
         then Inl (InvalidBech32mFormat ''Failed to create regex'')
         else if take (length prefix + 1) message_id = prefix @ ''1'' \<and>
           length message_id = length prefix + 1 + data_part_length \<and>
           list_all is_bech32 (drop (length prefix + 1) message_id)
         then rbind (verify_bech32m lib message_id prefix) (\<lambda>_. Inr message_id)
         else Inl (InvalidMessageID message_id prefix)))"

section \<open>Verifying a message id\<close>

datatype message_id_format =
    FieldElementAndEventIndex
  | HexTxHashAndEventIndex
  | Base58TxDigestAndEventIndex
  | Base58SolanaTxSignatureAndEventIndex
  | HexTxHash
  | Bech32m string u32

definition verify_msg_id :: "msg_id_lib \<Rightarrow> string \<Rightarrow> message_id_format \<Rightarrow> msg_id_error + unit" where
  "verify_msg_id lib message_id format =
     (case format of
        FieldElementAndEventIndex \<Rightarrow> rbind (field_element_from_str lib message_id) (\<lambda>_. Inr ())
      | HexTxHashAndEventIndex \<Rightarrow> rbind (hex_indexed_from_str lib message_id) (\<lambda>_. Inr ())
      | Base58TxDigestAndEventIndex \<Rightarrow> rbind (base58_from_str lib message_id) (\<lambda>_. Inr ())
      | Base58SolanaTxSignatureAndEventIndex \<Rightarrow> rbind (solana_from_str lib message_id) (\<lambda>_. Inr ())
      | HexTxHash \<Rightarrow> rbind (hex_tx_hash_from_str lib message_id) (\<lambda>_. Inr ())
      | Bech32m prefix len \<Rightarrow> rbind (bech32m_from_str lib prefix (unat len) message_id) (\<lambda>_. Inr ()))"

section \<open>Addresses\<close>

text \<open>
  \<open>packages/axelar-wasm-std/src/address.rs\<close>; the address types of the crates \<open>alloy\<close>, \<open>sui_types\<close> and
  \<open>stellar_xdr\<close> and the Unicode upper case are parameters.
\<close>

datatype address_format = Eip55 | Sui | Stellar | Starknet

record address_lib =
  al_parse_checksummed :: "string \<Rightarrow> bool"
  al_sui_from_str :: "string \<Rightarrow> bool"
  al_stellar_from_str :: "string \<Rightarrow> bool"
  al_to_uppercase :: "string \<Rightarrow> string"
  al_codecs :: msg_id_lib

datatype address_error = AddressError string

definition validate_address :: "address_lib \<Rightarrow> string \<Rightarrow> address_format \<Rightarrow> address_error + unit" where
  "validate_address lib address format =
     (case format of
        Eip55 \<Rightarrow> ensure (al_parse_checksummed lib address) (AddressError address)
      | Sui \<Rightarrow> ensure (al_sui_from_str lib address) (AddressError address)
      | Stellar \<Rightarrow>
          if address \<noteq> al_to_uppercase lib address then Inl (AddressError address)
          else ensure (al_stellar_from_str lib address) (AddressError address)
      | Starknet \<Rightarrow>
          rbind (map_err (\<lambda>_. AddressError address) (checked_felt_from_str (al_codecs lib) address)) (\<lambda>_. Inr ()))"

section \<open>What the codecs promise\<close>

text \<open>
  The documented behaviour of the codecs: lower-case hexadecimal with two digits per byte, decoding as the
  inverse of encoding, and field elements printed as 64 hexadecimal digits.
\<close>

definition hex_char :: "nat \<Rightarrow> char" where
  "hex_char n = ''0123456789abcdef'' ! n"

definition hex_byte :: "u8 \<Rightarrow> string" where
  "hex_byte x = [hex_char (unat x div 16), hex_char (unat x mod 16)]"

definition msg_id_laws :: "msg_id_lib \<Rightarrow> bool" where
  "msg_id_laws lib \<longleftrightarrow>
     (\<forall>b. hex_encode lib b = concat (map hex_byte b)) \<and>
     (\<forall>b. hex_decode lib (hex_encode lib b) = Some b) \<and>
     (\<forall>s b. hex_decode lib s = Some b \<and> list_all is_hex s \<longrightarrow> hex_encode lib b = s) \<and>
     (\<forall>b. bs58_decode lib (bs58_encode lib b) = Some b) \<and>
     (\<forall>s b. bs58_decode lib s = Some b \<longrightarrow> bs58_encode lib b = s) \<and>
     (\<forall>v. felt_lower_hex_64 lib v = hex_encode lib (be_bytes 32 v))"

section \<open>Event indices\<close>

lemma digit_value: "is_digit c \<Longrightarrow> 48 \<le> (of_char c :: nat) \<and> (of_char c :: nat) \<le> 57"
  by (simp add: is_digit_def char_in_def)

lemma read_digits_leading:
  assumes "cs \<noteq> []" "char_in CHR ''1'' CHR ''9'' (hd cs)" "list_all is_digit cs"
  shows "\<exists>n. 0 < n \<and> read_digits 0 cs = Some n \<and> show_nat n = cs"
  using assms
proof (induction cs rule: rev_induct)
  case (snoc c cs)
  from snoc.prems have d: "48 \<le> (of_char c :: nat)" "(of_char c :: nat) \<le> 57" using digit_value [of c] by simp_all
  have c: "char_of (of_char c :: nat) = c" by simp
  show ?case
  proof (cases "cs = []")
    case True
    with snoc.prems d c show ?thesis by (auto simp: Let_def char_in_def show_nat.simps)
  next
    case False
    with snoc obtain n where n: "0 < n" "read_digits 0 cs = Some n" "show_nat n = cs" by auto
    let ?m = "10 * n + (of_char c - 48)"
    have "(of_char c - 48 :: nat) < 10" using d by linarith
    then have "?m div 10 = n" "?m mod 10 = of_char c - 48" "\<not> ?m < 10" using n(1) by simp_all
    moreover have "48 + (of_char c - 48) = (of_char c :: nat)" using d by simp
    ultimately have "48 + ?m mod 10 = of_char c" by simp
    note m = \<open>?m div 10 = n\<close> this \<open>\<not> ?m < 10\<close>
    have "show_nat ?m = cs @ [c]" by (subst show_nat.simps) (simp only: m n(3) if_False c)
    moreover have "read_digits 0 (cs @ [c]) = Some ?m" using d by (simp add: read_digits_append n(2) Let_def)
    ultimately show ?thesis using n(1) by (intro exI [of _ ?m]) simp
  qed
qed simp

lemma char_of_zero: "char_of (48 :: nat) = CHR ''0''"
  by (simp add: char_of_eq_iff take_bit_eq_mod)

lemma index_pattern_read:
  assumes "index_pattern s"
  shows "\<exists>n. read_nat s = Some n \<and> show_nat n = s"
proof (cases "s = ''0''")
  case True
  then show ?thesis by (simp add: read_nat_def Let_def show_nat.simps char_of_zero)
next
  case False
  with assms obtain c cs where s: "s = c # cs" "char_in CHR ''1'' CHR ''9'' c" "list_all is_digit cs"
    by (auto simp: index_pattern_def split: list.splits)
  then have "is_digit c" "c \<noteq> CHR ''+''" by (auto simp: is_digit_def char_in_def)
  with s read_digits_leading [of s] show ?thesis by (auto simp: read_nat_def)
qed

lemma show_nat_pattern: "index_pattern (show_nat n)"
proof (induction n rule: show_nat.induct)
  case (1 n)
  have one: "char_in CHR ''1'' CHR ''9'' (char_of (48 + k))" if "0 < k" "k < 10" for k :: nat
    using that by (simp add: char_in_def of_char_of)
  have dig: "is_digit (char_of (48 + k))" if "k < 10" for k :: nat
    using that by (simp add: is_digit_def char_in_def of_char_of)
  show ?case
  proof (cases "n < 10")
    case True
    then show ?thesis using one [of n] by (cases "n = 0") (simp_all add: show_nat.simps index_pattern_def char_of_zero)
  next
    case False
    have "show_nat (n div 10) \<noteq> ''0''" using False show_nat_inj [of "n div 10" 0] by (auto simp: show_nat.simps [of 0] char_of_zero)
    with 1 False have "index_pattern (show_nat (n div 10) @ [char_of (48 + n mod 10)])"
      using dig [of "n mod 10"] by (auto simp: index_pattern_def split: list.splits)
    with False show ?thesis by (subst show_nat.simps) simp
  qed
qed

lemma parse_index_Inr_iff:
  assumes "index_pattern s"
  shows "parse_index m s = Inr i \<longleftrightarrow> s = show_nat (unat i)"
proof -
  obtain n where n: "read_nat s = Some n" "show_nat n = s" using index_pattern_read [OF assms] by blast
  have "parse_index m s = Inr i \<longleftrightarrow> unat i = n" by (simp add: parse_index_def ok_or_Inr_iff try_of_nat_Some n(1))
  with n(2) show ?thesis using show_nat_inj by metis
qed

lemma captures_indexed_iff:
  assumes "\<And>t. P t \<Longrightarrow> CHR ''-'' \<notin> set t"
  shows "captures_indexed P s = Some (tx, idx) \<longleftrightarrow> s = tx @ ''-'' @ idx \<and> P tx \<and> index_pattern idx"
proof
  assume a: "captures_indexed P s = Some (tx, idx)"
  then obtain c where "dropWhile (\<lambda>c. c \<noteq> CHR ''-'') s = c # idx" "tx = takeWhile (\<lambda>c. c \<noteq> CHR ''-'') s" "P tx" "index_pattern idx"
    by (auto simp: captures_indexed_def Let_def split: list.splits if_splits)
  moreover from this(1) have "c = CHR ''-''" by (metis (mono_tags, lifting) dropWhile_eq_Cons_conv)
  ultimately show "s = tx @ ''-'' @ idx \<and> P tx \<and> index_pattern idx"
    using takeWhile_dropWhile_id [of "\<lambda>c. c \<noteq> CHR ''-''" s] by simp
next
  assume "s = tx @ ''-'' @ idx \<and> P tx \<and> index_pattern idx"
  moreover from this assms [of tx] have "\<And>c. c \<in> set tx \<Longrightarrow> c \<noteq> CHR ''-''" by auto
  ultimately show "captures_indexed P s = Some (tx, idx)"
    by (simp add: captures_indexed_def Let_def)
qed

section \<open>Hexadecimal text\<close>

lemma hex_char_is_hex:
  assumes "n < 16"
  shows "is_hex (hex_char n)"
proof -
  have "list_all (\<lambda>n. is_hex (hex_char n)) [0..<16]" by code_simp
  with assms show ?thesis by (simp add: list_all_iff)
qed

lemma list_all_hex_byte: "list_all is_hex (hex_byte x)"
proof -
  have "unat x < 256" using unat_bound [of x] by simp
  then show ?thesis using hex_char_is_hex by (simp add: hex_byte_def)
qed

lemma hex_text: "list_all is_hex (concat (map hex_byte b))" "length (concat (map hex_byte b)) = 2 * length b"
  by (induction b) (simp_all add: list_all_hex_byte, simp add: hex_byte_def)

lemma is_hex_other: "is_hex c \<Longrightarrow> c \<noteq> CHR ''-''" "is_hex c \<Longrightarrow> c \<noteq> CHR ''x''"
  by (auto simp: is_hex_def is_digit_def char_in_def)

lemma hex_hash_pattern_iff: "hex_hash_pattern s \<longleftrightarrow> (\<exists>t. s = ''0x'' @ t \<and> length t = 64 \<and> list_all is_hex t)"
proof
  assume "hex_hash_pattern s"
  then have "s = ''0x'' @ drop 2 s" "length (drop 2 s) = 64" "list_all is_hex (drop 2 s)"
    using append_take_drop_id [of 2 s] by (simp_all add: hex_hash_pattern_def)
  then show "\<exists>t. s = ''0x'' @ t \<and> length t = 64 \<and> list_all is_hex t" by blast
qed (auto simp: hex_hash_pattern_def numeral_2_eq_2)

lemma field_element_pattern_iff:
  "field_element_pattern s \<longleftrightarrow> (\<exists>t. s = ''0x'' @ t \<and> length t = 64 \<and> list_all is_hex t \<and> hd t = CHR ''0'')"
proof
  assume "field_element_pattern s"
  then have "s = ''0x0'' @ drop 3 s" "length (drop 3 s) = 63" "list_all is_hex (drop 3 s)"
    using append_take_drop_id [of 3 s] by (simp_all add: field_element_pattern_def)
  then have "s = ''0x'' @ (CHR ''0'' # drop 3 s) \<and> length (CHR ''0'' # drop 3 s) = 64 \<and> list_all is_hex (CHR ''0'' # drop 3 s) \<and>
      hd (CHR ''0'' # drop 3 s) = CHR ''0''" by (simp add: is_hex_def is_digit_def char_in_def)
  then show "\<exists>t. s = ''0x'' @ t \<and> length t = 64 \<and> list_all is_hex t \<and> hd t = CHR ''0''" by blast
next
  assume "\<exists>t. s = ''0x'' @ t \<and> length t = 64 \<and> list_all is_hex t \<and> hd t = CHR ''0''"
  then obtain t where "s = ''0x'' @ t" "length t = 64" "list_all is_hex t" "hd t = CHR ''0''" by blast
  then show "field_element_pattern s" by (cases t) (simp_all add: field_element_pattern_def numeral_3_eq_3)
qed

lemma no_dash:
  assumes "hex_hash_pattern s \<or> field_element_pattern s \<or> base58_pattern l h s"
  shows "CHR ''-'' \<notin> set s"
proof -
  have h: "\<not> is_hex CHR ''-''" and b: "\<not> is_base58 CHR ''-''" by code_simp+
  from assms consider (hex) t where "s = ''0x'' @ t" "list_all is_hex t" | (base58) "list_all is_base58 s"
    by (auto simp: hex_hash_pattern_iff field_element_pattern_iff base58_pattern_def)
  then show ?thesis
  proof cases
    case hex
    with h show ?thesis by (auto simp: list_all_iff)
  next
    case base58
    with b show ?thesis by (auto simp: list_all_iff)
  qed
qed

lemma trim_0x_hex: "list_all is_hex t \<Longrightarrow> trim_0x (''0x'' @ t) = t"
proof -
  assume t: "list_all is_hex t"
  have "take 2 t \<noteq> ''0x''"
  proof
    assume "take 2 t = ''0x''"
    then have "CHR ''x'' \<in> set t" using set_take_subset [of 2 t] by auto
    with t show False by (auto simp: list_all_iff dest: is_hex_other)
  qed
  then have "trim_0x t = t" by (simp add: trim_0x.simps)
  then show ?thesis by (subst trim_0x.simps) simp
qed

section \<open>Numbers from bytes\<close>

lemma nat_of_be_bytes_snoc: "nat_of_be_bytes (b @ [x]) = nat_of_be_bytes b * 256 + unat x"
  by (simp add: nat_of_be_bytes_def)

lemma nat_of_be_bytes_bound: "nat_of_be_bytes b < 256 ^ length b"
proof (induction b rule: rev_induct)
  case (snoc x b)
  have "unat x < 256" using unat_bound [of x] by simp
  with snoc show ?case by (simp add: nat_of_be_bytes_snoc)
qed (simp add: nat_of_be_bytes_def)

lemma nat_of_be_bytes_digit: "i < length b \<Longrightarrow> nat_of_be_bytes b div 256 ^ i mod 256 = unat (b ! (length b - 1 - i))"
proof (induction b arbitrary: i rule: rev_induct)
  case (snoc x b)
  have x: "unat x < 256" using unat_bound [of x] by simp
  show ?case
  proof (cases i)
    case 0
    with x show ?thesis by (simp add: nat_of_be_bytes_snoc)
  next
    case (Suc j)
    have "nat_of_be_bytes (b @ [x]) div 256 ^ i = nat_of_be_bytes b div 256 ^ j"
      using x by (simp add: Suc nat_of_be_bytes_snoc div_mult2_eq)
    moreover have "length b - Suc j < length b" using snoc.prems Suc by simp
    ultimately show ?thesis using snoc Suc by (simp add: nth_append)
  qed
qed simp

lemma be_bytes_of_nat:
  assumes "LENGTH('a::len) = 8 * k" "length b = k"
  shows "be_bytes k (of_nat (nat_of_be_bytes b) :: 'a word) = b"
proof (rule nth_equalityI)
  let ?w = "of_nat (nat_of_be_bytes b) :: 'a word"
  have u: "unat ?w = nat_of_be_bytes b"
    using nat_of_be_bytes_bound [of b] assms by (simp add: unat_of_nat power_mult)
  fix i assume i: "i < length (be_bytes k ?w)"
  then have "unat (be_bytes k ?w ! i) = drop_bit (8 * (k - 1 - i)) (unat ?w) mod 256"
    by (simp add: be_bytes_def unsigned_ucast_eq unsigned_take_bit_eq take_bit_eq_mod unat_drop_bit_eq)
  also have "\<dots> = unat ?w div 2 ^ (8 * (k - 1 - i)) mod 256" by (simp add: drop_bit_eq_div)
  also have "\<dots> = unat (b ! (length b - 1 - (k - 1 - i)))"
    using nat_of_be_bytes_digit [of "k - 1 - i" b] i assms(2) by (simp add: u power_mult)
  finally show "be_bytes k ?w ! i = b ! i" using i assms(2) by (simp add: word_unat_eq_iff)
qed (simp add: assms)

lemma nat_of_be_bytes_inverse: "of_nat (nat_of_be_bytes (be_bytes 32 v)) = (v :: u256)"
  by (rule be_bytes_inj [of 32]) (simp_all add: be_bytes_of_nat)

section \<open>The contract of a message id\<close>

text \<open>
  \<open>MessageId\<close>: two different strings cannot parse to the same id and two different ids cannot print to the
  same string; \<open>ok\<close> are the values of the type of ids.
\<close>

locale canonical_id =
  fixes from_str :: "string \<Rightarrow> msg_id_error + 'a"
    and to_string :: "'a \<Rightarrow> string"
    and ok :: "'a \<Rightarrow> bool"
  assumes parse_print: "from_str s = Inr a \<Longrightarrow> to_string a = s"
    and parse_ok: "from_str s = Inr a \<Longrightarrow> ok a"
    and print_inj: "ok a \<Longrightarrow> ok b \<Longrightarrow> to_string a = to_string b \<Longrightarrow> a = b"
begin

lemma parse_inj: "from_str s = Inr a \<Longrightarrow> from_str t = Inr a \<Longrightarrow> s = t"
  using parse_print by blast

lemma parse_eq_iff: "from_str s = Inr a \<Longrightarrow> from_str t = Inr b \<Longrightarrow> s = t \<longleftrightarrow> a = b"
  using parse_print by auto

end

text \<open>Where every id prints to a text that parses, parsing accepts exactly the printed ids.\<close>

locale complete_id = canonical_id +
  assumes print_parse: "ok a \<Longrightarrow> from_str (to_string a) = Inr a"
begin

lemma parse_iff: "from_str s = Inr a \<longleftrightarrow> ok a \<and> s = to_string a"
  using parse_print parse_ok print_parse by blast

end

lemma complete_idI:
  assumes "\<And>s a. from_str s = Inr a \<longleftrightarrow> ok a \<and> s = to_string a"
  shows "complete_id from_str to_string ok"
proof unfold_locales
  fix a b assume "ok a" "ok b" "to_string a = to_string b"
  with assms [of "to_string a" a] assms [of "to_string b" b] show "a = b" by simp
qed (simp_all add: assms)

lemma array_Inr_iff [result_simps]: "array_try_from n e b = Inr c \<longleftrightarrow> length b = n \<and> c = b"
  by (auto simp: array_try_from_def)

lemma hex_laws:
  assumes "msg_id_laws lib"
  shows "list_all is_hex (hex_encode lib b)" "length (hex_encode lib b) = 2 * length b"
    "felt_lower_hex_64 lib v = hex_encode lib (be_bytes 32 v)"
  using assms hex_text [of b] unfolding msg_id_laws_def by metis+

lemma hex_decode_iff:
  assumes "msg_id_laws lib" "list_all is_hex t"
  shows "hex_decode lib t = Some b \<longleftrightarrow> t = hex_encode lib b"
  using assms unfolding msg_id_laws_def by metis

lemma hex_hash_decode:
  assumes "msg_id_laws lib"
  shows "hex_hash_pattern s \<and> hex_decode lib (drop 2 s) = Some b \<and> length b = 32 \<longleftrightarrow> length b = 32 \<and> s = ''0x'' @ hex_encode lib b"
proof
  assume a: "hex_hash_pattern s \<and> hex_decode lib (drop 2 s) = Some b \<and> length b = 32"
  then obtain t where t: "s = ''0x'' @ t" "list_all is_hex t" by (auto simp: hex_hash_pattern_iff)
  with a hex_decode_iff [OF assms t(2), of b] show "length b = 32 \<and> s = ''0x'' @ hex_encode lib b" by simp
next
  assume a: "length b = 32 \<and> s = ''0x'' @ hex_encode lib b"
  moreover from a have "hex_hash_pattern s" unfolding hex_hash_pattern_iff using hex_laws(1,2) [OF assms, of b] by simp
  ultimately show "hex_hash_pattern s \<and> hex_decode lib (drop 2 s) = Some b \<and> length b = 32"
    using hex_decode_iff [OF assms hex_laws(1) [OF assms, of b], of b] by simp
qed

lemma indexedD:
  assumes "captures_indexed P s = Some (tx, idx)" "parse_index m idx = Inr i" "\<And>t. P t \<Longrightarrow> CHR ''-'' \<notin> set t"
  shows "s = tx @ ''-'' @ show_nat (unat i) \<and> P tx"
proof -
  have "s = tx @ ''-'' @ idx" "P tx" "index_pattern idx" using captures_indexed_iff [of P s tx idx] assms by simp_all
  with parse_index_Inr_iff assms(2) show ?thesis by simp
qed

lemma indexed_iff:
  assumes "\<And>t. P t \<Longrightarrow> CHR ''-'' \<notin> set t"
  shows "(\<exists>tx idx. captures_indexed P s = Some (tx, idx) \<and> parse_index m idx = Inr i \<and> Q tx) \<longleftrightarrow>
    (\<exists>tx. s = tx @ ''-'' @ show_nat (unat i) \<and> P tx \<and> Q tx)"
proof
  assume "\<exists>tx idx. captures_indexed P s = Some (tx, idx) \<and> parse_index m idx = Inr i \<and> Q tx"
  then show "\<exists>tx. s = tx @ ''-'' @ show_nat (unat i) \<and> P tx \<and> Q tx" using indexedD [OF _ _ assms] by blast
next
  assume "\<exists>tx. s = tx @ ''-'' @ show_nat (unat i) \<and> P tx \<and> Q tx"
  then obtain tx where "s = tx @ ''-'' @ show_nat (unat i)" "P tx" "Q tx" by blast
  then have "captures_indexed P s = Some (tx, show_nat (unat i))" "parse_index m (show_nat (unat i)) = Inr i" "Q tx"
    using captures_indexed_iff [of P s tx] assms parse_index_Inr_iff [OF show_nat_pattern] show_nat_pattern by simp_all
  then show "\<exists>tx idx. captures_indexed P s = Some (tx, idx) \<and> parse_index m idx = Inr i \<and> Q tx" by blast
qed

lemma hex_tx_hash_complete:
  assumes "msg_id_laws lib"
  shows "complete_id (hex_tx_hash_from_str lib) (hex_tx_hash_to_string lib) (\<lambda>a. length (hth_tx_hash a) = 32)"
proof (rule complete_idI)
  fix s a
  have "hex_tx_hash_from_str lib s = Inr a \<longleftrightarrow>
      hex_hash_pattern s \<and> hex_decode lib (drop 2 s) = Some (hth_tx_hash a) \<and> length (hth_tx_hash a) = 32"
    by (cases a) (auto simp: hex_tx_hash_from_str_def result_simps)
  also have "\<dots> \<longleftrightarrow> length (hth_tx_hash a) = 32 \<and> s = hex_tx_hash_to_string lib a"
    unfolding hex_hash_decode [OF assms] hex_tx_hash_to_string_def ..
  finally show "hex_tx_hash_from_str lib s = Inr a \<longleftrightarrow> length (hth_tx_hash a) = 32 \<and> s = hex_tx_hash_to_string lib a" .
qed

lemma hex_indexed_complete:
  assumes "msg_id_laws lib"
  shows "complete_id (hex_indexed_from_str lib) (hex_indexed_to_string lib) (\<lambda>a. length (hti_tx_hash a) = 32)"
proof (rule complete_idI)
  fix s a
  have "hex_indexed_from_str lib s = Inr a \<longleftrightarrow>
      (\<exists>tx idx. captures_indexed hex_hash_pattern s = Some (tx, idx) \<and> parse_index s idx = Inr (hti_event_index a) \<and>
         hex_decode lib (drop 2 tx) = Some (hti_tx_hash a) \<and> length (hti_tx_hash a) = 32)"
    by (cases a) (auto simp: hex_indexed_from_str_def result_simps)
  also have "\<dots> \<longleftrightarrow> (\<exists>tx. s = tx @ ''-'' @ show_nat (unat (hti_event_index a)) \<and> hex_hash_pattern tx \<and>
         hex_decode lib (drop 2 tx) = Some (hti_tx_hash a) \<and> length (hti_tx_hash a) = 32)"
    by (rule indexed_iff) (simp add: no_dash)
  also have "\<dots> \<longleftrightarrow> length (hti_tx_hash a) = 32 \<and> s = hex_indexed_to_string lib a"
    unfolding hex_hash_decode [OF assms] hex_indexed_to_string_def by auto
  finally show "hex_indexed_from_str lib s = Inr a \<longleftrightarrow> length (hti_tx_hash a) = 32 \<and> s = hex_indexed_to_string lib a" .
qed

lemma felt_first_byte:
  assumes "v \<le> FELT_MAX_U256"
  shows "hd (hex_byte (hd (be_bytes 32 v))) = CHR ''0''"
proof -
  have m: "unat FELT_MAX_U256 div 2 ^ 248 = 8" by code_simp
  have "hd (be_bytes 32 v) = ucast (drop_bit 248 v)" by (simp add: be_bytes_def upt_conv_Cons)
  then have "unat (hd (be_bytes 32 v)) = unat v div 2 ^ 248 mod 256"
    by (simp add: unsigned_ucast_eq unsigned_take_bit_eq take_bit_eq_mod unat_drop_bit_eq) (simp add: drop_bit_eq_div)
  also have "\<dots> \<le> unat v div 2 ^ 248" by simp
  also have "\<dots> \<le> 8" using assms div_le_mono [of "unat v" "unat FELT_MAX_U256" "2 ^ 248"] by (simp only: m word_le_nat_alt)
  finally have "unat (hd (be_bytes 32 v)) div 16 = 0" by simp
  then show ?thesis by (simp add: hex_byte_def hex_char_def)
qed

lemma felt_decode:
  assumes "msg_id_laws lib"
  shows "field_element_pattern s \<and> checked_felt_from_str lib s = Inr v \<longleftrightarrow> v \<le> FELT_MAX_U256 \<and> s = ''0x'' @ felt_lower_hex_64 lib v"
proof
  assume a: "field_element_pattern s \<and> checked_felt_from_str lib s = Inr v"
  then obtain t where t: "s = ''0x'' @ t" "length t = 64" "list_all is_hex t" by (auto simp: field_element_pattern_iff)
  with a trim_0x_hex [OF t(3)] obtain b where b: "hex_decode lib t = Some b" "v = of_nat (nat_of_be_bytes b)" "v \<le> FELT_MAX_U256"
    by (auto simp: checked_felt_from_str_def checked_felt_try_from_def Let_def result_simps)
  then have e: "t = hex_encode lib b" using hex_decode_iff [OF assms t(3)] by simp
  then have "length b = 32" using t(2) hex_laws(2) [OF assms, of b] by simp
  then have "be_bytes 32 v = b" unfolding b(2) by (intro be_bytes_of_nat) simp_all
  with b(3) t(1) e hex_laws(3) [OF assms] show "v \<le> FELT_MAX_U256 \<and> s = ''0x'' @ felt_lower_hex_64 lib v" by simp
next
  assume a: "v \<le> FELT_MAX_U256 \<and> s = ''0x'' @ felt_lower_hex_64 lib v"
  let ?b = "be_bytes 32 v" and ?t = "hex_encode lib (be_bytes 32 v)"
  have h: "list_all is_hex ?t" and l: "length ?t = 64" using hex_laws(1,2) [OF assms, of ?b] by simp_all
  have "?b \<noteq> []" using length_be_bytes [of 32 v] by fastforce
  moreover have "?t = concat (map hex_byte ?b)" using assms unfolding msg_id_laws_def by blast
  ultimately have "hd ?t = CHR ''0''" using felt_first_byte [of v] a by (cases ?b) (simp_all add: hex_byte_def)
  with a h l have "field_element_pattern s" unfolding field_element_pattern_iff hex_laws(3) [OF assms] by blast
  moreover have "checked_felt_from_str lib s = Inr v"
    using a h l trim_0x_hex [OF h] hex_decode_iff [OF assms h, of ?b]
    by (simp add: checked_felt_from_str_def checked_felt_try_from_def Let_def hex_laws(3) [OF assms] nat_of_be_bytes_inverse)
  ultimately show "field_element_pattern s \<and> checked_felt_from_str lib s = Inr v" ..
qed

lemma field_element_complete:
  assumes "msg_id_laws lib"
  shows "complete_id (field_element_from_str lib) (field_element_to_string lib) (\<lambda>a. fe_tx_hash a \<le> FELT_MAX_U256)"
proof (rule complete_idI)
  fix s a
  have "field_element_from_str lib s = Inr a \<longleftrightarrow>
      (\<exists>tx idx. captures_indexed field_element_pattern s = Some (tx, idx) \<and> parse_index s idx = Inr (fe_event_index a) \<and>
         checked_felt_from_str lib tx = Inr (fe_tx_hash a))"
    by (cases a) (auto simp: field_element_from_str_def result_simps)
  also have "\<dots> \<longleftrightarrow> (\<exists>tx. s = tx @ ''-'' @ show_nat (unat (fe_event_index a)) \<and> field_element_pattern tx \<and>
         checked_felt_from_str lib tx = Inr (fe_tx_hash a))"
    by (rule indexed_iff) (simp add: no_dash)
  also have "\<dots> \<longleftrightarrow> fe_tx_hash a \<le> FELT_MAX_U256 \<and> s = field_element_to_string lib a"
    unfolding felt_decode [OF assms] field_element_to_string_def by auto
  finally show "field_element_from_str lib s = Inr a \<longleftrightarrow> fe_tx_hash a \<le> FELT_MAX_U256 \<and> s = field_element_to_string lib a" .
qed

text \<open>Two texts with a dash before an index agree only if both parts do.\<close>

lemma indexed_text_inj:
  assumes "t @ ''-'' @ show_nat m = u @ ''-'' @ show_nat n"
  shows "t = u \<and> m = n"
proof -
  have d: "CHR ''-'' \<notin> set (show_nat k)" for k using show_nat_digits [of "CHR ''-''" k] by auto
  from assms have "rev (show_nat m) @ CHR ''-'' # rev t = rev (show_nat n) @ CHR ''-'' # rev u"
    by (metis append_Cons append_Nil append_assoc rev.simps(2) rev_append rev_rev_ident)
  moreover have "takeWhile (\<lambda>c. c \<noteq> CHR ''-'') (rev (show_nat k) @ CHR ''-'' # r) = rev (show_nat k)" for k r
    using d [of k] by (subst takeWhile_append2) auto
  ultimately have "rev (show_nat m) = rev (show_nat n)" by metis
  then have "m = n" using show_nat_inj by simp
  with assms show ?thesis by simp
qed

lemma indexed_print_inj:
  assumes "msg_id_laws lib"
    and "bs58_encode lib x @ ''-'' @ show_nat (unat i) = bs58_encode lib y @ ''-'' @ show_nat (unat (j :: u64))"
  shows "x = y \<and> i = j"
proof -
  from indexed_text_inj [OF assms(2)] have e: "bs58_encode lib x = bs58_encode lib y" "unat i = unat j" by simp_all
  from e(1) have "bs58_decode lib (bs58_encode lib x) = bs58_decode lib (bs58_encode lib y)" by (rule arg_cong)
  with assms(1) have "x = y" unfolding msg_id_laws_def by simp
  with e(2) show ?thesis by (simp add: word_unat_eq_iff)
qed

lemma base58_no_dash: "base58_pattern l h t \<Longrightarrow> CHR ''-'' \<notin> set t"
  by (rule no_dash) blast

lemma base58_message_id:
  assumes "msg_id_laws lib"
  shows "canonical_id (base58_from_str lib) (base58_to_string lib) (\<lambda>a. length (b58_tx_digest a) = 32)"
proof
  have p: "base58_to_string lib a = s \<and> length (b58_tx_digest a) = 32" if "base58_from_str lib s = Inr a" for s a
  proof -
    from that obtain tx idx where c: "captures_indexed (base58_pattern 32 44) s = Some (tx, idx)"
        "parse_index s idx = Inr (b58_event_index a)" "bs58_decode lib tx = Some (b58_tx_digest a)" "length (b58_tx_digest a) = 32"
      by (cases a) (auto simp: base58_from_str_def result_simps)
    have "bs58_encode lib (b58_tx_digest a) = tx" using assms c(3) unfolding msg_id_laws_def by blast
    with indexedD [OF c(1,2) base58_no_dash] c(4) show ?thesis by (simp add: base58_to_string_def)
  qed
  then show "base58_to_string lib a = s" "length (b58_tx_digest a) = 32" if "base58_from_str lib s = Inr a" for s a
    using that by simp_all
  show "a = b" if "base58_to_string lib a = base58_to_string lib b" for a b
    using indexed_print_inj [OF assms that [unfolded base58_to_string_def]] by (cases a, cases b) simp
qed

lemma solana_message_id:
  assumes "msg_id_laws lib"
  shows "canonical_id (solana_from_str lib) (solana_to_string lib) (\<lambda>a. length (sol_raw_signature a) = 64)"
proof
  have p: "solana_to_string lib a = s \<and> length (sol_raw_signature a) = 64" if "solana_from_str lib s = Inr a" for s a
  proof -
    from that obtain tx idx where c: "captures_indexed (base58_pattern 64 88) s = Some (tx, idx)"
        "parse_index s idx = Inr (sol_event_index a)" "bs58_decode lib tx = Some (sol_raw_signature a)" "length (sol_raw_signature a) = 64"
      by (cases a) (auto simp: solana_from_str_def decode_b58_signature_def result_simps)
    have "bs58_encode lib (sol_raw_signature a) = tx" using assms c(3) unfolding msg_id_laws_def by blast
    with indexedD [OF c(1,2) base58_no_dash] c(4) show ?thesis by (simp add: solana_to_string_def)
  qed
  then show "solana_to_string lib a = s" "length (sol_raw_signature a) = 64" if "solana_from_str lib s = Inr a" for s a
    using that by simp_all
  show "a = b" if "solana_to_string lib a = solana_to_string lib b" for a b
    using indexed_print_inj [OF assms that [unfolded solana_to_string_def]] by (cases a, cases b) simp
qed

lemma bech32m_Inr: "bech32m_from_str lib prefix len s = Inr a \<Longrightarrow> a = s"
  by (auto simp: bech32m_from_str_def Let_def result_simps)

interpretation bech32m: canonical_id "bech32m_from_str lib prefix len" "\<lambda>a. a" "\<lambda>_. True" for lib prefix len
  by unfold_locales (auto dest: bech32m_Inr)

section \<open>A hexadecimal codec\<close>

text \<open>A codec that keeps the laws: hexadecimal as it is, and the bytes of the text in place of base 58.\<close>

definition hex_value :: "char \<Rightarrow> nat option" where
  "hex_value c =
     (if is_digit c then Some (of_char c - 48) else if char_in CHR ''a'' CHR ''f'' c then Some (of_char c - 87) else None)"

fun demo_hex_decode :: "string \<Rightarrow> bytes option" where
  "demo_hex_decode [] = Some []"
| "demo_hex_decode [_] = None"
| "demo_hex_decode (c # d # s) =
     (case (hex_value c, hex_value d, demo_hex_decode s) of
        (Some h, Some l, Some b) \<Rightarrow> Some (of_nat (16 * h + l) # b)
      | _ \<Rightarrow> None)"

definition demo_msg_id_lib :: msg_id_lib where
  "demo_msg_id_lib =
     \<lparr>hex_encode = \<lambda>b. concat (map hex_byte b), hex_decode = demo_hex_decode,
      bs58_encode = map (\<lambda>x. char_of (unat x)), bs58_decode = \<lambda>s. Some (string_bytes s),
      bech32m_hrpstring = \<lambda>_. None, all_alphanumeric = \<lambda>_. False, bech32m_regex_ok = \<lambda>_ _. False,
      felt_lower_hex_64 = \<lambda>v. concat (map hex_byte (be_bytes 32 v))\<rparr>"

lemma hex_value_digit:
  assumes "n < 16"
  shows "hex_value (hex_char n) = Some n"
proof -
  have "list_all (\<lambda>n. hex_value (hex_char n) = Some n) [0..<16]" by code_simp
  with assms show ?thesis by (simp add: list_all_iff)
qed

lemma hex_char_value: "hex_value c = Some n \<Longrightarrow> hex_char n = c \<and> n < 16"
proof -
  assume v: "hex_value c = Some n"
  let ?P = "\<lambda>k :: nat. case hex_value (char_of k) of None \<Rightarrow> True | Some n \<Rightarrow> hex_char n = char_of k \<and> n < 16"
  have "list_all ?P [0..<256]" by code_simp
  then have "?P (of_char c)" unfolding list_all_iff by (rule bspec) simp
  with v show ?thesis by simp
qed

lemma hex_byte_of_digits:
  assumes "h < 16" "l < 16"
  shows "hex_byte (of_nat (16 * h + l)) = [hex_char h, hex_char l]"
proof -
  have "unat (of_nat (16 * h + l) :: u8) = (16 * h + l) mod 256" by (simp only: unat_of_nat) simp
  then have "unat (of_nat (16 * h + l) :: u8) = 16 * h + l" using assms by simp
  with assms show ?thesis by (simp add: hex_byte_def)
qed

lemma demo_hex_decode_encode: "demo_hex_decode (concat (map hex_byte b)) = Some b"
proof (induction b)
  case (Cons x b)
  have "unat x < 256" using unat_bound [of x] by simp
  with Cons show ?case by (simp add: hex_byte_def hex_value_digit)
qed simp

lemma demo_hex_encode_decode: "demo_hex_decode s = Some b \<Longrightarrow> concat (map hex_byte b) = s"
proof (induction s arbitrary: b rule: demo_hex_decode.induct)
  case (3 c d s)
  then show ?case using hex_char_value [of c] hex_char_value [of d] hex_byte_of_digits
    by (auto split: option.splits)
qed simp_all

lemma demo_msg_id_laws: "msg_id_laws demo_msg_id_lib"
proof -
  have "unat (of_char c :: u8) = of_char c mod 256" for c
    by (simp add: unat_of_nat flip: of_nat_of_char [where ?'a = u8])
  then have c: "char_of (unat (of_char c :: u8)) = c" for c by (simp add: of_char_mod_256)
  have "unat x < 256" for x :: u8 using unat_bound [of x] by simp
  then have "of_char (char_of (unat x)) = x" for x :: u8
    by (simp add: of_char_of flip: of_nat_of_char [where ?'a = u8])
  with c show ?thesis
    by (simp add: msg_id_laws_def demo_msg_id_lib_def demo_hex_decode_encode demo_hex_encode_decode string_bytes_def o_def)
qed

section \<open>The property\<close>

text \<open>
  C29: There is only one string that identifies a message: in every format, parsing accepts exactly what
  printing an id yields (for hashes and field elements), no two strings parse to the same id and no two
  ids print to the same string.\<close>

theorem message_ids_canonical:
  assumes "msg_id_laws lib"
  shows "(\<forall>s a. hex_tx_hash_from_str lib s = Inr a \<longleftrightarrow> length (hth_tx_hash a) = 32 \<and> s = hex_tx_hash_to_string lib a) \<and>
    (\<forall>s a. hex_indexed_from_str lib s = Inr a \<longleftrightarrow> length (hti_tx_hash a) = 32 \<and> s = hex_indexed_to_string lib a) \<and>
    (\<forall>s a. field_element_from_str lib s = Inr a \<longleftrightarrow> fe_tx_hash a \<le> FELT_MAX_U256 \<and> s = field_element_to_string lib a) \<and>
    (\<forall>s a. base58_from_str lib s = Inr a \<longrightarrow> s = base58_to_string lib a) \<and> inj (base58_to_string lib) \<and>
    (\<forall>s a. solana_from_str lib s = Inr a \<longrightarrow> s = solana_to_string lib a) \<and> inj (solana_to_string lib) \<and>
    (\<forall>prefix len s a. bech32m_from_str lib prefix len s = Inr a \<longrightarrow> s = a)"
proof (intro conjI allI impI)
  show "hex_tx_hash_from_str lib s = Inr a \<longleftrightarrow> length (hth_tx_hash a) = 32 \<and> s = hex_tx_hash_to_string lib a" for s a
    by (rule complete_id.parse_iff [OF hex_tx_hash_complete [OF assms]])
  show "hex_indexed_from_str lib s = Inr a \<longleftrightarrow> length (hti_tx_hash a) = 32 \<and> s = hex_indexed_to_string lib a" for s a
    by (rule complete_id.parse_iff [OF hex_indexed_complete [OF assms]])
  show "field_element_from_str lib s = Inr a \<longleftrightarrow> fe_tx_hash a \<le> FELT_MAX_U256 \<and> s = field_element_to_string lib a" for s a
    by (rule complete_id.parse_iff [OF field_element_complete [OF assms]])
  show "s = base58_to_string lib a" if "base58_from_str lib s = Inr a" for s a
    using canonical_id.parse_print [OF base58_message_id [OF assms] that] ..
  show "s = solana_to_string lib a" if "solana_from_str lib s = Inr a" for s a
    using canonical_id.parse_print [OF solana_message_id [OF assms] that] ..
  show "s = a" if "bech32m_from_str lib prefix len s = Inr a" for prefix len s a
    using bech32m.parse_print [OF that] ..
  show "inj (base58_to_string lib)"
    using indexed_print_inj [OF assms] by (auto simp: inj_def base58_to_string_def)
  show "inj (solana_to_string lib)"
    using indexed_print_inj [OF assms] by (auto simp: inj_def solana_to_string_def)
qed

theorem message_ids_canonical_witness:
  "msg_id_laws demo_msg_id_lib \<and>
   hex_tx_hash_from_str demo_msg_id_lib (''0x'' @ concat (replicate 32 ''ab'')) = Inr \<lparr>hth_tx_hash = replicate 32 171\<rparr>"
proof -
  have "''0x'' @ concat (replicate 32 ''ab'') = hex_tx_hash_to_string demo_msg_id_lib \<lparr>hth_tx_hash = replicate 32 171\<rparr>"
    by code_simp
  with message_ids_canonical [OF demo_msg_id_laws] have
    "hex_tx_hash_from_str demo_msg_id_lib (''0x'' @ concat (replicate 32 ''ab'')) = Inr \<lparr>hth_tx_hash = replicate 32 171\<rparr>"
    by simp
  with demo_msg_id_laws show ?thesis ..
qed

interpretation hex_ids: complete_id "hex_tx_hash_from_str demo_msg_id_lib" "hex_tx_hash_to_string demo_msg_id_lib"
    "\<lambda>a. length (hth_tx_hash a) = 32"
  by (rule hex_tx_hash_complete [OF demo_msg_id_laws])

interpretation felt_ids: complete_id "field_element_from_str demo_msg_id_lib" "field_element_to_string demo_msg_id_lib"
    "\<lambda>a. fe_tx_hash a \<le> FELT_MAX_U256"
  by (rule field_element_complete [OF demo_msg_id_laws])

text \<open>
  C35: A Starknet address has more than one accepted spelling: the prefix may be repeated, and the
  repeated prefix is cut off, so that the longer text denotes the same field element.\<close>

theorem starknet_prefix_repeated:
  assumes "list_all is_hex t" "length t = 64" "validate_address lib (''0x'' @ t) Starknet = Inr ()"
  shows "validate_address lib (''0x0x'' @ t) Starknet = Inr () \<and>
    checked_felt_from_str (al_codecs lib) (''0x0x'' @ t) = checked_felt_from_str (al_codecs lib) (''0x'' @ t)"
proof -
  have "trim_0x (''0x0x'' @ t) = t" using trim_0x_hex [OF assms(1)] by (subst trim_0x.simps) simp
  then have "checked_felt_from_str (al_codecs lib) (''0x0x'' @ t) = checked_felt_from_str (al_codecs lib) (''0x'' @ t)"
    using trim_0x_hex [OF assms(1)] by (simp add: checked_felt_from_str_def)
  with assms(3) show ?thesis by (auto simp: validate_address_def result_simps)
qed

theorem starknet_prefix_repeated_witness:
  "validate_address \<lparr>al_parse_checksummed = \<lambda>_. False, al_sui_from_str = \<lambda>_. False, al_stellar_from_str = \<lambda>_. False,
     al_to_uppercase = \<lambda>s. s, al_codecs = demo_msg_id_lib\<rparr> (''0x0x'' @ replicate 64 CHR ''0'') Starknet = Inr ()"
proof -
  let ?lib = "\<lparr>al_parse_checksummed = \<lambda>_. False, al_sui_from_str = \<lambda>_. False, al_stellar_from_str = \<lambda>_. False,
     al_to_uppercase = \<lambda>s. s, al_codecs = demo_msg_id_lib\<rparr>"
  have "list_all is_hex (replicate 64 CHR ''0'')" by code_simp
  moreover have "validate_address ?lib (''0x'' @ replicate 64 CHR ''0'') Starknet = Inr ()" by code_simp
  ultimately show ?thesis using starknet_prefix_repeated [of "replicate 64 CHR ''0''" ?lib] by simp
qed

end
