(* ===== verification/Router_Contract.thy ===== *)
theory Router_Contract
  imports Router_Api Msg_Id
begin

unbundle bit_operations_syntax

text \<open>
  The router (\<open>contracts/router\<close>): the registry of chains and their gateways, freezing and unfreezing,
  the validation of messages and their delivery to the gateways of their destinations, the queries and
  the permissions. The registry is the ordered map from chain names to endpoints with its index by
  gateway. The lemmas show that a gateway belongs to at most one chain, so that the lookup by gateway never
  aborts, and give what a successful routing means.
\<close>

section \<open>State\<close>

record chain_endpoint =
  ce_name :: chain_name
  ce_gateway :: addr
  ce_frozen_status :: gateway_direction
  ce_msg_id_format :: message_id_format

record router_state =
  rt_config :: "addr option"
  rt_chains :: "(chain_name, chain_endpoint) btree_map"
  rt_permissions :: permission_state
  rt_killswitch :: killswitch

datatype router_event =
    RouterInstantiated addr addr addr
  | ChainRegistered chain_name addr
  | GatewayUpgraded chain_name addr
  | ChainFrozenEvent chain_name gateway_direction
  | ChainUnfrozenEvent chain_name gateway_direction
  | MessageRouted router_message
  | RoutingDisabledEvent
  | RoutingEnabledEvent

record router_response =
  rr_messages :: "(addr \<times> router_message list) list"
  rr_events :: "router_event list"

abbreviation router_events :: "router_event list \<Rightarrow> router_response" where
  "router_events evs \<equiv> \<lparr>rr_messages = [], rr_events = evs\<rparr>"

text \<open>What the router reads from the nexus module of the chain it runs on, the validation of addresses and the
  codecs of message ids.\<close>

record router_env =
  re_is_chain_registered :: "chain_name \<Rightarrow> bool option"
  re_validate_address :: "string \<Rightarrow> addr option"
  re_msg_ids :: msg_id_lib

type_synonym 'a router_result = "router_error + router_state \<times> 'a"

definition incoming_frozen :: "chain_endpoint \<Rightarrow> bool" where
  "incoming_frozen self \<longleftrightarrow> ce_frozen_status self AND Incoming = Incoming"

definition outgoing_frozen :: "chain_endpoint \<Rightarrow> bool" where
  "outgoing_frozen self \<longleftrightarrow> ce_frozen_status self AND Outgoing = Outgoing"

section \<open>Registry\<close>

definition load_router_config :: "router_state \<Rightarrow> router_error + addr" where
  "load_router_config s = ok_or StoreFailure (rt_config s)"

definition load_chain_by_chain_name :: "router_state \<Rightarrow> chain_name \<Rightarrow> chain_endpoint option" where
  "load_chain_by_chain_name s chain_name = map_of (rt_chains s) chain_name"

definition index_load_chain_by_gateway :: "router_state \<Rightarrow> addr \<Rightarrow> router_error + chain_endpoint option" where
  "index_load_chain_by_gateway s contract_address =
     (case filter (\<lambda>(_, chain). ce_gateway chain = contract_address) (rt_chains s) of
        [] \<Rightarrow> Inr None
      | [(_, chain)] \<Rightarrow> Inr (Some chain)
      | _ \<Rightarrow> Inl (RouterPanic ''More than one gateway for chain''))"

definition load_chain_by_gateway :: "router_state \<Rightarrow> addr \<Rightarrow> router_error + chain_endpoint" where
  "load_chain_by_gateway s gateway =
     rbind (index_load_chain_by_gateway s gateway) (\<lambda>chain. ok_or GatewayNotRegistered chain)"

definition find_chain_for_gateway :: "router_state \<Rightarrow> addr \<Rightarrow> router_error + chain_endpoint option" where
  "find_chain_for_gateway s contract_address = index_load_chain_by_gateway s contract_address"

text \<open>\<open>IndexedMap::update\<close>\<close>

definition update_chain ::
    "router_state \<Rightarrow> chain_name \<Rightarrow> (chain_endpoint option \<Rightarrow> router_error + chain_endpoint) \<Rightarrow> router_error + router_state" where
  "update_chain s chain f =
     rbind (f (map_of (rt_chains s) chain)) (\<lambda>endpoint.
     Inr (s\<lparr>rt_chains := bt_insert chain endpoint (rt_chains s)\<rparr>))"

definition register_chain ::
    "router_env \<Rightarrow> router_state \<Rightarrow> chain_name \<Rightarrow> addr \<Rightarrow> message_id_format \<Rightarrow> router_response router_result" where
  "register_chain env s name gateway msg_id_format =
     rbind (find_chain_for_gateway s gateway) (\<lambda>found.
     if found \<noteq> None then Inl GatewayAlreadyRegistered
     else
       rbind (ok_or Nexus (re_is_chain_registered env name)) (\<lambda>registered.
       if registered then Inl ChainAlreadyExists
       else
         rbind (update_chain s name (\<lambda>chain. case chain of
                  Some _ \<Rightarrow> Inl ChainAlreadyExists
                | None \<Rightarrow> Inr \<lparr>ce_name = name, ce_gateway = gateway, ce_frozen_status = DirectionNone,
                               ce_msg_id_format = msg_id_format\<rparr>)) (\<lambda>s.
         Inr (s, router_events [ChainRegistered name gateway]))))"

definition upgrade_gateway ::
    "router_state \<Rightarrow> chain_name \<Rightarrow> addr \<Rightarrow> router_response router_result" where
  "upgrade_gateway s chain contract_address =
     rbind (find_chain_for_gateway s contract_address) (\<lambda>found.
     if found \<noteq> None then Inl GatewayAlreadyRegistered
     else
       rbind (update_chain s chain (\<lambda>c. case c of
                None \<Rightarrow> Inl ChainNotFound
              | Some c \<Rightarrow> Inr (c\<lparr>ce_gateway := contract_address\<rparr>))) (\<lambda>s.
       Inr (s, router_events [GatewayUpgraded chain contract_address])))"

definition freeze_specific_chain ::
    "router_state \<Rightarrow> chain_name \<Rightarrow> gateway_direction \<Rightarrow> router_event router_result" where
  "freeze_specific_chain s chain direction =
     rbind (update_chain s chain (\<lambda>c. case c of
              None \<Rightarrow> Inl ChainNotFound
            | Some c \<Rightarrow> Inr (c\<lparr>ce_frozen_status := ce_frozen_status c OR direction\<rparr>))) (\<lambda>s.
     Inr (s, ChainFrozenEvent chain direction))"

definition unfreeze_specific_chain ::
    "router_state \<Rightarrow> chain_name \<Rightarrow> gateway_direction \<Rightarrow> router_event router_result" where
  "unfreeze_specific_chain s chain direction =
     rbind (update_chain s chain (\<lambda>c. case c of
              None \<Rightarrow> Inl ChainNotFound
            | Some c \<Rightarrow> Inr (c\<lparr>ce_frozen_status := ce_frozen_status c AND NOT direction\<rparr>))) (\<lambda>s.
     Inr (s, ChainUnfrozenEvent chain direction))"

text \<open>The chains are the entries of a hash map, in the order in which it yields them.\<close>

definition freeze_chains ::
    "router_state \<Rightarrow> (chain_name \<times> gateway_direction) list \<Rightarrow> router_response router_result" where
  "freeze_chains s chain_map =
     rbind (try_fold (\<lambda>(s, events) (chain, direction).
              rbind (freeze_specific_chain s chain direction) (\<lambda>(s, e). Inr (s, events @ [e]))) (s, []) chain_map) (\<lambda>(s, events).
     Inr (s, router_events events))"

definition unfreeze_chains ::
    "router_state \<Rightarrow> (chain_name \<times> gateway_direction) list \<Rightarrow> router_response router_result" where
  "unfreeze_chains s chain_map =
     rbind (try_fold (\<lambda>(s, events) (chain, direction).
              rbind (unfreeze_specific_chain s chain direction) (\<lambda>(s, e). Inr (s, events @ [e]))) (s, []) chain_map) (\<lambda>(s, events).
     Inr (s, router_events events))"

definition disable_routing :: "router_state \<Rightarrow> router_response router_result" where
  "disable_routing s =
     rbind (map_err RouterStd (engage RoutingDisabledEvent (rt_killswitch s))) (\<lambda>(k, events).
     Inr (s\<lparr>rt_killswitch := k\<rparr>, router_events events))"

definition enable_routing :: "router_state \<Rightarrow> router_response router_result" where
  "enable_routing s =
     rbind (map_err RouterStd (disengage RoutingEnabledEvent (rt_killswitch s))) (\<lambda>(k, events).
     Inr (s\<lparr>rt_killswitch := k\<rparr>, router_events events))"

section \<open>Routing\<close>

definition verify_msg_ids :: "router_env \<Rightarrow> router_message list \<Rightarrow> message_id_format \<Rightarrow> router_error + unit" where
  "verify_msg_ids env msgs expected_format =
     map_err (\<lambda>_. InvalidMessageId)
       (try_fold (\<lambda>_ msg. verify_msg_id (re_msg_ids env) (message_id (msg_cc_id msg)) expected_format) () msgs)"

definition validate_msgs ::
    "router_env \<Rightarrow> router_state \<Rightarrow> addr \<Rightarrow> addr \<Rightarrow> router_message list \<Rightarrow> router_error + router_message list" where
  "validate_msgs env s axelarnet_gateway sender msgs =
     (if sender = axelarnet_gateway then
        rbind (verify_msg_ids env msgs HexTxHashAndEventIndex) (\<lambda>_. Inr msgs)
      else
        rbind (load_chain_by_gateway s sender) (\<lambda>chain.
        if incoming_frozen chain then Inl (ChainFrozen (ce_name chain))
        else if list_ex (\<lambda>msg. source_chain (msg_cc_id msg) \<noteq> ce_name chain) msgs then Inl WrongSourceChain
        else rbind (verify_msg_ids env msgs (ce_msg_id_format chain)) (\<lambda>_. Inr msgs)))"

text \<open>\<open>Itertools::group_by\<close>: maximal runs of elements with the same key.\<close>

fun group_runs :: "('a \<Rightarrow> 'k) \<Rightarrow> 'a list \<Rightarrow> ('k \<times> 'a list) list" where
  "group_runs key [] = []"
| "group_runs key (x # xs) =
     (case group_runs key xs of
        [] \<Rightarrow> [(key x, [x])]
      | (k, ys) # gs \<Rightarrow> if k = key x then (k, x # ys) # gs else (key x, [x]) # (k, ys) # gs)"

definition destination_gateway :: "router_env \<Rightarrow> router_state \<Rightarrow> addr \<Rightarrow> chain_name \<Rightarrow> router_error + addr" where
  "destination_gateway env s axelarnet_gateway destination_chain =
     (case load_chain_by_chain_name s destination_chain of
        Some chain \<Rightarrow> if outgoing_frozen chain then Inl (ChainFrozen (ce_name chain)) else Inr (ce_gateway chain)
      | None \<Rightarrow>
          rbind (ok_or Nexus (re_is_chain_registered env destination_chain)) (\<lambda>registered.
          if registered then Inr axelarnet_gateway else Inl ChainNotFound))"

definition route_messages ::
    "router_env \<Rightarrow> router_state \<Rightarrow> addr \<Rightarrow> router_message list \<Rightarrow> router_error + router_response" where
  "route_messages env s sender msgs =
     (if \<not> is_contract_active (rt_killswitch s) then Inl RoutingDisabled
      else
        rbind (load_router_config s) (\<lambda>axelarnet_gateway.
        rbind (validate_msgs env s axelarnet_gateway sender msgs) (\<lambda>msgs.
        rbind (try_map (\<lambda>(destination_chain, ms).
                 rbind (destination_gateway env s axelarnet_gateway destination_chain) (\<lambda>gateway. Inr (gateway, ms)))
                 (group_runs msg_destination_chain msgs)) (\<lambda>wasm_msgs.
        Inr \<lparr>rr_messages = wasm_msgs, rr_events = map MessageRouted msgs\<rparr>))))"

section \<open>The contract\<close>

datatype router_msg =
    RegisterChain chain_name string message_id_format
  | UpgradeGateway chain_name string
  | FreezeChains "(chain_name \<times> gateway_direction) list"
  | UnfreezeChains "(chain_name \<times> gateway_direction) list"
  | DisableRouting
  | EnableRouting
  | RouteMessages "router_message list"

definition find_gateway_address :: "router_state \<Rightarrow> addr \<Rightarrow> router_error + addr" where
  "find_gateway_address s sender =
     rbind (load_router_config s) (\<lambda>axelarnet_gateway.
     if axelarnet_gateway = sender then Inr axelarnet_gateway
     else rbind (load_chain_by_gateway s sender) (\<lambda>chain. Inr (ce_gateway chain)))"

definition router_permissions :: "router_state \<Rightarrow> addr \<Rightarrow> router_msg \<Rightarrow> permission_error + unit" where
  "router_permissions s sender msg =
     (case msg of
        RegisterChain _ _ _ \<Rightarrow> ensure_permissions (rt_permissions s) sender ([] :: (router_error + addr) list) [Governance]
      | UpgradeGateway _ _ \<Rightarrow> ensure_permissions (rt_permissions s) sender ([] :: (router_error + addr) list) [Governance]
      | RouteMessages _ \<Rightarrow> ensure_permissions (rt_permissions s) sender [find_gateway_address s sender] []
      | _ \<Rightarrow> ensure_permissions (rt_permissions s) sender ([] :: (router_error + addr) list) [Elevated])"

definition router_execute ::
    "router_env \<Rightarrow> router_state \<Rightarrow> addr \<Rightarrow> router_msg \<Rightarrow> router_response router_result" where
  "router_execute env s sender msg =
     rbind (map_err RouterPermission (router_permissions s sender msg)) (\<lambda>_.
     case msg of
       RegisterChain chain gateway_address msg_id_format \<Rightarrow>
         rbind (ok_or InvalidAddress (re_validate_address env gateway_address)) (\<lambda>gateway.
         register_chain env s chain gateway msg_id_format)
     | UpgradeGateway chain contract_address \<Rightarrow>
         rbind (ok_or InvalidAddress (re_validate_address env contract_address)) (\<lambda>gateway.
         upgrade_gateway s chain gateway)
     | FreezeChains chain_map \<Rightarrow> freeze_chains s chain_map
     | UnfreezeChains chain_map \<Rightarrow> unfreeze_chains s chain_map
     | RouteMessages msgs \<Rightarrow> rbind (route_messages env s sender msgs) (\<lambda>out. Inr (s, out))
     | DisableRouting \<Rightarrow> disable_routing s
     | EnableRouting \<Rightarrow> enable_routing s)"

record router_instantiate_msg =
  rim_admin_address :: string
  rim_governance_address :: string
  rim_axelarnet_gateway :: string

definition router_instantiate ::
    "router_env \<Rightarrow> router_instantiate_msg \<Rightarrow> router_response router_result" where
  "router_instantiate env msg =
     rbind (ok_or InvalidAddress (re_validate_address env (rim_admin_address msg))) (\<lambda>admin_address.
     rbind (ok_or InvalidAddress (re_validate_address env (rim_governance_address msg))) (\<lambda>governance_address.
     rbind (ok_or InvalidAddress (re_validate_address env (rim_axelarnet_gateway msg))) (\<lambda>axelarnet_gateway.
     Inr (\<lparr>rt_config = Some axelarnet_gateway, rt_chains = [],
           rt_permissions = set_governance governance_address (set_admin admin_address \<lparr>admin = None, governance = None\<rparr>),
           rt_killswitch = killswitch_init Disengaged\<rparr>,
          router_events [RouterInstantiated admin_address governance_address axelarnet_gateway]))))"

text \<open>The migration; whether the stored version matches is an answer of the crates \<open>cw2\<close> and \<open>semver\<close>, and \<open>None\<close> its failure.\<close>

definition router_migrate :: "bool \<Rightarrow> string list \<Rightarrow> router_state \<Rightarrow> router_state option" where
  "router_migrate is_old_version chains_to_remove s =
     (if \<not> is_old_version then None
      else Some (foldl (\<lambda>s chain. s\<lparr>rt_chains := filter (\<lambda>(name, _). name \<noteq> chain) (rt_chains s)\<rparr>) s chains_to_remove))"

section \<open>Queries\<close>

definition chain_info :: "router_state \<Rightarrow> chain_name \<Rightarrow> router_error + chain_endpoint" where
  "chain_info s chain = ok_or ChainNotFound (map_of (rt_chains s) chain)"

definition DEFAULT_LIMIT :: u32 where "DEFAULT_LIMIT = - 1"

definition query_chains :: "router_state \<Rightarrow> chain_name option \<Rightarrow> u32 option \<Rightarrow> chain_endpoint list" where
  "query_chains s start_after limit =
     (let limit = unat (case limit of None \<Rightarrow> DEFAULT_LIMIT | Some l \<Rightarrow> l);
          start = (case start_after of None \<Rightarrow> \<lambda>_. True | Some c \<Rightarrow> \<lambda>(name, _). c < name)
      in map snd (take limit (filter start (rt_chains s))))"

section \<open>Invariant\<close>

type_synonym router_call = "router_env \<times> addr \<times> router_msg"

definition router_step :: "router_call \<Rightarrow> router_state \<Rightarrow> router_error + router_state" where
  "router_step call s = (case call of (env, sender, msg) \<Rightarrow> new_state (router_execute env s sender msg))"

text \<open>Every endpoint is stored under its name and no two chains share a gateway.\<close>

definition router_inv :: "router_state \<Rightarrow> bool" where
  "router_inv s \<longleftrightarrow>
     bt_wf (rt_chains s) \<and>
     (\<forall>k c. map_of (rt_chains s) k = Some c \<longrightarrow> ce_name c = k) \<and>
     (\<forall>k c k' c'. map_of (rt_chains s) k = Some c \<longrightarrow> map_of (rt_chains s) k' = Some c' \<longrightarrow>
        ce_gateway c = ce_gateway c' \<longrightarrow> k = k')"

lemma filter_one:
  assumes "distinct xs" "\<And>x y. x \<in> set xs \<Longrightarrow> y \<in> set xs \<Longrightarrow> P x \<Longrightarrow> P y \<Longrightarrow> x = y"
  shows "filter P xs = (case find P xs of None \<Rightarrow> [] | Some x \<Rightarrow> [x])"
  using assms
proof (induction xs)
  case (Cons x xs)
  show ?case
  proof (cases "P x")
    case True
    with Cons.prems have "filter P xs = []" by (auto simp: filter_empty_conv)
    with True show ?thesis by simp
  next
    case False
    with Cons show ?thesis by simp
  qed
qed simp

lemma index_load_total:
  assumes "router_inv s"
  shows "index_load_chain_by_gateway s a = Inr (map_option snd (find (\<lambda>(_, c). ce_gateway c = a) (rt_chains s)))"
proof -
  let ?P = "\<lambda>(k :: chain_name, c). ce_gateway c = a"
  have d: "distinct (map fst (rt_chains s))" using assms by (simp add: router_inv_def bt_wf_distinct)
  have "filter ?P (rt_chains s) = (case find ?P (rt_chains s) of None \<Rightarrow> [] | Some x \<Rightarrow> [x])"
  proof (rule filter_one)
    show "distinct (rt_chains s)" using d by (simp add: distinct_map)
    fix x y assume "x \<in> set (rt_chains s)" "y \<in> set (rt_chains s)" "?P x" "?P y"
    with d assms have "map_of (rt_chains s) (fst x) = Some (snd x)" "map_of (rt_chains s) (fst y) = Some (snd y)"
      "ce_gateway (snd x) = ce_gateway (snd y)" by auto
    moreover from this assms have "fst x = fst y" unfolding router_inv_def by blast
    ultimately show "x = y" by (simp add: prod_eq_iff)
  qed
  then show ?thesis by (auto simp: index_load_chain_by_gateway_def split: option.splits prod.splits)
qed

lemma find_gatewayD:
  assumes "find (\<lambda>(_, c). ce_gateway c = a) m = Some (k, c)" "distinct (map fst m)"
  shows "map_of m k = Some c \<and> ce_gateway c = a"
proof -
  from assms(1) obtain i where "i < length m" "m ! i = (k, c)" "ce_gateway c = a" by (auto simp: find_Some_iff)
  with assms(2) nth_mem [of i m] show ?thesis by simp
qed

lemma load_chain_by_gateway_Inr:
  assumes "router_inv s" "load_chain_by_gateway s a = Inr c"
  shows "map_of (rt_chains s) (ce_name c) = Some c \<and> ce_gateway c = a"
proof -
  from assms obtain k where "find (\<lambda>(_, c). ce_gateway c = a) (rt_chains s) = Some (k, c)"
    by (auto simp: load_chain_by_gateway_def index_load_total result_simps)
  moreover have "distinct (map fst (rt_chains s))" using assms(1) by (simp add: router_inv_def bt_wf_distinct)
  ultimately have "map_of (rt_chains s) k = Some c \<and> ce_gateway c = a" by (rule find_gatewayD)
  with assms(1) show ?thesis unfolding router_inv_def by auto
qed

lemma unused_gateway:
  assumes "router_inv s" "find_chain_for_gateway s a = Inr None" "map_of (rt_chains s) k = Some c"
  shows "ce_gateway c \<noteq> a"
proof -
  from assms(1,2) have "find (\<lambda>(_, c). ce_gateway c = a) (rt_chains s) = None"
    by (simp add: find_chain_for_gateway_def index_load_total)
  with map_of_SomeD [OF assms(3)] show ?thesis by (auto simp: find_None_iff)
qed

text \<open>What an update of the registry keeps: a new gateway must be unused.\<close>

lemma update_chain_inv:
  assumes inv: "router_inv s" and upd: "update_chain s k f = Inr s'"
    and f: "\<And>e. f (map_of (rt_chains s) k) = Inr e \<Longrightarrow> ce_name e = k \<and>
      (\<forall>k' c. map_of (rt_chains s) k' = Some c \<longrightarrow> k' \<noteq> k \<longrightarrow> ce_gateway c \<noteq> ce_gateway e)"
  shows "router_inv s'"
proof -
  from upd obtain e where e: "f (map_of (rt_chains s) k) = Inr e" "s' = s\<lparr>rt_chains := bt_insert k e (rt_chains s)\<rparr>"
    by (auto simp: update_chain_def result_simps)
  have "bt_wf (rt_chains s)" using inv by (simp add: router_inv_def)
  then have m: "map_of (rt_chains s') = (map_of (rt_chains s))(k \<mapsto> e)" "bt_wf (rt_chains s')"
    by (simp_all add: e(2) map_of_bt_insert bt_wf_insert)
  show ?thesis
    unfolding router_inv_def m(1) using inv f [OF e(1)] m(2)
    by (auto simp: router_inv_def split: if_splits; metis)
qed

lemma freeze_inv:
  assumes "router_inv s" "update_chain s k (\<lambda>c. case c of None \<Rightarrow> Inl ChainNotFound | Some c \<Rightarrow> Inr (c\<lparr>ce_frozen_status := g c\<rparr>)) = Inr s'"
  shows "router_inv s'"
proof (rule update_chain_inv [OF assms])
  fix e assume "(case map_of (rt_chains s) k of None \<Rightarrow> Inl ChainNotFound | Some c \<Rightarrow> Inr (c\<lparr>ce_frozen_status := g c\<rparr>)) = Inr e"
  then obtain c where "map_of (rt_chains s) k = Some c" "e = c\<lparr>ce_frozen_status := g c\<rparr>" by (auto split: option.splits)
  with assms(1) show "ce_name e = k \<and> (\<forall>k' c. map_of (rt_chains s) k' = Some c \<longrightarrow> k' \<noteq> k \<longrightarrow> ce_gateway c \<noteq> ce_gateway e)"
    by (auto simp: router_inv_def)
qed

lemma register_chain_inv:
  assumes "router_inv s" "register_chain env s name gateway fmt = Inr (s', out)"
  shows "router_inv s'"
proof -
  let ?f = "\<lambda>chain. case chain of Some _ \<Rightarrow> Inl ChainAlreadyExists
      | None \<Rightarrow> Inr \<lparr>ce_name = name, ce_gateway = gateway, ce_frozen_status = DirectionNone, ce_msg_id_format = fmt\<rparr>"
  from assms(2) have u: "find_chain_for_gateway s gateway = Inr None" "update_chain s name ?f = Inr s'"
    by (auto simp: register_chain_def result_simps)
  show ?thesis
  proof (rule update_chain_inv [OF assms(1) u(2)])
    fix e assume "?f (map_of (rt_chains s) name) = Inr e"
    then have "ce_name e = name" "ce_gateway e = gateway" by (auto split: option.splits)
    with unused_gateway [OF assms(1) u(1)]
    show "ce_name e = name \<and> (\<forall>k' c. map_of (rt_chains s) k' = Some c \<longrightarrow> k' \<noteq> name \<longrightarrow> ce_gateway c \<noteq> ce_gateway e)" by simp
  qed
qed

lemma upgrade_gateway_inv:
  assumes "router_inv s" "upgrade_gateway s k gateway = Inr (s', out)"
  shows "router_inv s'"
proof -
  from assms(2) have u: "find_chain_for_gateway s gateway = Inr None"
    "update_chain s k (\<lambda>c. case c of None \<Rightarrow> Inl ChainNotFound | Some c \<Rightarrow> Inr (c\<lparr>ce_gateway := gateway\<rparr>)) = Inr s'"
    by (auto simp: upgrade_gateway_def result_simps)
  show ?thesis
  proof (rule update_chain_inv [OF assms(1) u(2)])
    fix e assume "(case map_of (rt_chains s) k of None \<Rightarrow> Inl ChainNotFound | Some c \<Rightarrow> Inr (c\<lparr>ce_gateway := gateway\<rparr>)) = Inr e"
    then obtain c where "map_of (rt_chains s) k = Some c" "e = c\<lparr>ce_gateway := gateway\<rparr>" by (auto split: option.splits)
    with assms(1) unused_gateway [OF assms(1) u(1)]
    show "ce_name e = k \<and> (\<forall>k' c. map_of (rt_chains s) k' = Some c \<longrightarrow> k' \<noteq> k \<longrightarrow> ce_gateway c \<noteq> ce_gateway e)"
      by (auto simp: router_inv_def)
  qed
qed

lemma freeze_chains_inv:
  assumes "router_inv s" "freeze_chains s ds = Inr (s', out)"
  shows "router_inv s'"
proof -
  from assms(2) obtain events where f: "try_fold (\<lambda>(s, events) (chain, direction).
      rbind (freeze_specific_chain s chain direction) (\<lambda>(s, e). Inr (s, events @ [e]))) (s, []) ds = Inr (s', events)"
    by (auto simp: freeze_chains_def result_simps)
  have "(\<lambda>(s, _). router_inv s) (s', events)"
    by (rule try_fold_invariant [OF f])
      (auto simp: assms(1) freeze_specific_chain_def result_simps intro: freeze_inv)
  then show ?thesis by simp
qed

lemma unfreeze_chains_inv:
  assumes "router_inv s" "unfreeze_chains s ds = Inr (s', out)"
  shows "router_inv s'"
proof -
  from assms(2) obtain events where f: "try_fold (\<lambda>(s, events) (chain, direction).
      rbind (unfreeze_specific_chain s chain direction) (\<lambda>(s, e). Inr (s, events @ [e]))) (s, []) ds = Inr (s', events)"
    by (auto simp: unfreeze_chains_def result_simps)
  have "(\<lambda>(s, _). router_inv s) (s', events)"
    by (rule try_fold_invariant [OF f])
      (auto simp: assms(1) unfreeze_specific_chain_def result_simps intro: freeze_inv)
  then show ?thesis by simp
qed

lemma router_execute_inv:
  assumes inv: "router_inv s" and ex: "router_execute env s sender msg = Inr (s', out)"
  shows "router_inv s'"
proof (cases msg)
  case DisableRouting
  with ex inv show ?thesis by (auto simp: router_execute_def result_simps disable_routing_def router_inv_def)
next
  case EnableRouting
  with ex inv show ?thesis by (auto simp: router_execute_def result_simps enable_routing_def router_inv_def)
qed (use ex inv in \<open>auto simp: router_execute_def result_simps
      intro: register_chain_inv upgrade_gateway_inv freeze_chains_inv unfreeze_chains_inv\<close>)

interpretation router: contract_invariant router_step router_inv
  by unfold_locales (auto simp: router_step_def result_simps intro: router_execute_inv)

lemma router_inv_instantiate: "router_instantiate env msg = Inr (s, out) \<Longrightarrow> router_inv s"
  by (auto simp: router_instantiate_def result_simps router_inv_def bt_wf_def)

section \<open>Routing\<close>

lemma group_runs_concat: "concat (map snd (group_runs key xs)) = xs"
  by (induction xs) (auto split: list.splits prod.splits)

lemma group_runs_key: "(k, ys) \<in> set (group_runs key xs) \<Longrightarrow> ys \<noteq> [] \<and> (\<forall>y \<in> set ys. key y = k)"
  by (induction xs arbitrary: k ys) (auto split: list.splits prod.splits if_splits, blast)

lemma verify_msg_ids_Inr:
  "verify_msg_ids env msgs fmt = Inr u \<longleftrightarrow> (\<forall>m \<in> set msgs. verify_msg_id (re_msg_ids env) (message_id (msg_cc_id m)) fmt = Inr ())"
proof -
  have "try_fold (\<lambda>_ m. f m) () ms = Inr () \<longleftrightarrow> (\<forall>m \<in> set ms. f m = Inr ())" for f :: "router_message \<Rightarrow> msg_id_error + unit" and ms
    by (induction ms) (auto simp: rbind_Inr_iff)
  then show ?thesis by (simp add: verify_msg_ids_def result_simps)
qed

lemma wasm_msgs_groups:
  assumes "try_map (\<lambda>(d, ms). rbind (g d) (\<lambda>a. Inr (a, ms))) gs = Inr ws"
  shows "map snd ws = map snd gs \<and> (\<forall>(a, ms) \<in> set ws. \<exists>d. (d, ms) \<in> set gs \<and> g d = Inr a)"
  using assms by (induction gs arbitrary: ws) (auto simp: result_simps, blast+)

text \<open>Where a message of a batch goes: the gateway of its destination.\<close>

definition delivered_to :: "router_env \<Rightarrow> router_state \<Rightarrow> addr \<Rightarrow> chain_name \<Rightarrow> bool" where
  "delivered_to env s a d \<longleftrightarrow>
     (case map_of (rt_chains s) d of
        Some c \<Rightarrow> a = ce_gateway c \<and> \<not> outgoing_frozen c
      | None \<Rightarrow> rt_config s = Some a \<and> re_is_chain_registered env d = Some True)"

lemma destination_gateway_Inr:
  "rt_config s = Some g \<Longrightarrow> destination_gateway env s g d = Inr a \<Longrightarrow> delivered_to env s a d"
  by (auto simp: destination_gateway_def delivered_to_def load_chain_by_chain_name_def result_simps split: option.splits if_splits)

lemma route_messages_Inr:
  assumes "route_messages env s sender msgs = Inr out"
  obtains g where "rt_killswitch s = Some Disengaged" "rt_config s = Some g" "validate_msgs env s g sender msgs = Inr msgs"
    "concat (map snd (rr_messages out)) = msgs"
    "\<forall>a ms. (a, ms) \<in> set (rr_messages out) \<longrightarrow> ms \<noteq> [] \<and> (\<exists>d. delivered_to env s a d \<and> (\<forall>m \<in> set ms. msg_destination_chain m = d))"
proof -
  from assms obtain g msgs' ws where r: "rt_killswitch s = Some Disengaged" "rt_config s = Some g"
      "validate_msgs env s g sender msgs = Inr msgs'" "rr_messages out = ws"
      "try_map (\<lambda>(d, ms). rbind (destination_gateway env s g d) (\<lambda>a. Inr (a, ms))) (group_runs msg_destination_chain msgs') = Inr ws"
    by (auto simp: route_messages_def load_router_config_def result_simps split: if_splits)
  then have m: "msgs' = msgs" by (auto simp: validate_msgs_def result_simps split: if_splits)
  note w = wasm_msgs_groups [OF r(5)]
  show thesis
  proof (rule that [OF r(1,2)])
    show "validate_msgs env s g sender msgs = Inr msgs" using r(3) m by simp
    show "concat (map snd (rr_messages out)) = msgs" using w group_runs_concat [of msg_destination_chain msgs] by (simp add: r(4) m)
    show "\<forall>a ms. (a, ms) \<in> set (rr_messages out) \<longrightarrow> ms \<noteq> [] \<and> (\<exists>d. delivered_to env s a d \<and> (\<forall>m \<in> set ms. msg_destination_chain m = d))"
      using w group_runs_key destination_gateway_Inr [OF r(2)] unfolding r(4) m by fast
  qed
qed

lemma validate_msgs_Inr:
  assumes "router_inv s" "validate_msgs env s g sender msgs = Inr msgs'"
  shows "sender = g \<and> (\<forall>m \<in> set msgs. verify_msg_id (re_msg_ids env) (message_id (msg_cc_id m)) HexTxHashAndEventIndex = Inr ()) \<or>
    (\<exists>c. map_of (rt_chains s) (ce_name c) = Some c \<and> ce_gateway c = sender \<and> \<not> incoming_frozen c \<and>
       (\<forall>m \<in> set msgs. source_chain (msg_cc_id m) = ce_name c \<and>
          verify_msg_id (re_msg_ids env) (message_id (msg_cc_id m)) (ce_msg_id_format c) = Inr ()))"
proof (cases "sender = g")
  case True
  with assms(2) show ?thesis by (simp add: validate_msgs_def result_simps verify_msg_ids_Inr)
next
  case False
  with assms(2) obtain c where c: "load_chain_by_gateway s sender = Inr c" "\<not> incoming_frozen c"
      "\<forall>m \<in> set msgs. source_chain (msg_cc_id m) = ce_name c" "verify_msg_ids env msgs (ce_msg_id_format c) = Inr ()"
    by (auto simp: validate_msgs_def result_simps list_ex_iff)
  with load_chain_by_gateway_Inr [OF assms(1) c(1)] show ?thesis by (auto simp: verify_msg_ids_Inr)
qed

section \<open>Freezing\<close>

lemma bt_insert_existing:
  "bt_wf m \<Longrightarrow> map_of m k = Some c \<Longrightarrow> bt_insert k v m = map (\<lambda>(k', c'). if k' = k then (k', v) else (k', c')) m"
proof (induction m)
  case (Cons e m)
  obtain k' c' where e: "e = (k', c')" by fastforce
  show ?case
  proof (cases "k' = k")
    case True
    with Cons.prems(1) have "k \<notin> fst ` set m" by (auto simp: e bt_wf_def)
    then have "map (\<lambda>(k', c'). if k' = k then (k', v) else (k', c')) m = m" by (intro map_idI) force
    with True show ?thesis by (simp add: e)
  next
    case False
    with Cons.prems have "map_of m k = Some c" by (simp add: e)
    moreover from this have "k' < k" using Cons.prems(1) map_of_SomeD by (fastforce simp: e bt_wf_def)
    ultimately show ?thesis using Cons False by (auto simp: e bt_wf_def)
  qed
qed simp

text \<open>The registry after an operation that changes the frozen status of the given chains.\<close>

definition refreeze :: "(u8 \<Rightarrow> u8 \<Rightarrow> u8) \<Rightarrow> (chain_name \<times> u8) list \<Rightarrow> router_state \<Rightarrow> router_state" where
  "refreeze f ds s = s\<lparr>rt_chains := map (\<lambda>(k, c). (k, case map_of ds k of None \<Rightarrow> c
     | Some d \<Rightarrow> c\<lparr>ce_frozen_status := f (ce_frozen_status c) d\<rparr>)) (rt_chains s)\<rparr>"

lemma refreeze_keys: "map fst (rt_chains (refreeze f ds s)) = map fst (rt_chains s)"
  by (simp add: refreeze_def split_def o_def)

lemma refreeze_one:
  assumes "bt_wf (rt_chains s)" "map_of (rt_chains s) k = Some c"
  shows "s\<lparr>rt_chains := bt_insert k (c\<lparr>ce_frozen_status := f (ce_frozen_status c) d\<rparr>) (rt_chains s)\<rparr> = refreeze f [(k, d)] s"
proof -
  have "c' = c" if "(k, c') \<in> set (rt_chains s)" for c'
    using that assms by (simp add: map_of_is_SomeI bt_wf_distinct)
  then have "map (\<lambda>(k', c'). if k' = k then (k', c\<lparr>ce_frozen_status := f (ce_frozen_status c) d\<rparr>) else (k', c')) (rt_chains s) =
      map (\<lambda>(k', c'). (k', case map_of [(k, d)] k' of None \<Rightarrow> c' | Some d \<Rightarrow> c'\<lparr>ce_frozen_status := f (ce_frozen_status c') d\<rparr>)) (rt_chains s)"
    by (intro map_cong refl) auto
  then show ?thesis by (simp only: refreeze_def bt_insert_existing [OF assms])
qed

lemma refreeze_Cons: "k \<notin> fst ` set ds \<Longrightarrow> refreeze f ds (refreeze f [(k, d)] s) = refreeze f ((k, d) # ds) s"
proof -
  assume "k \<notin> fst ` set ds"
  then have "map_of ds k = None" by (simp add: map_of_eq_None_iff)
  then show ?thesis unfolding refreeze_def
    by (auto intro!: arg_cong [where f = "\<lambda>m. s\<lparr>rt_chains := m\<rparr>"] split: option.splits)
qed

lemma freeze_fold:
  fixes f :: "u8 \<Rightarrow> u8 \<Rightarrow> u8" and ev :: "chain_name \<Rightarrow> u8 \<Rightarrow> router_event"
  defines "upd \<equiv> \<lambda>s chain d. rbind (update_chain s chain (\<lambda>c. case c of None \<Rightarrow> Inl ChainNotFound
      | Some c \<Rightarrow> Inr (c\<lparr>ce_frozen_status := f (ce_frozen_status c) d\<rparr>))) (\<lambda>s. Inr (s, ev chain d))"
  assumes "bt_wf (rt_chains s)" "distinct (map fst ds)"
  shows "try_fold (\<lambda>(s, events) (chain, d). rbind (upd s chain d) (\<lambda>(s, e). Inr (s, events @ [e]))) (s, events) ds =
    (if fst ` set ds \<subseteq> fst ` set (rt_chains s) then Inr (refreeze f ds s, events @ map (\<lambda>(k, d). ev k d) ds) else Inl ChainNotFound)"
  using assms(2,3)
proof (induction ds arbitrary: s events)
  case Nil
  then show ?case by (simp add: refreeze_def)
next
  case (Cons kd ds)
  obtain k d where kd: "kd = (k, d)" by fastforce
  show ?case
  proof (cases "map_of (rt_chains s) k")
    case None
    then have "k \<notin> fst ` set (rt_chains s)" by (simp add: map_of_eq_None_iff)
    with None show ?thesis by (simp add: kd upd_def update_chain_def)
  next
    case (Some c)
    let ?s = "refreeze f [(k, d)] s"
    have u: "upd s k d = Inr (?s, ev k d)"
      using refreeze_one [OF Cons.prems(1) Some, of f d] by (simp add: upd_def update_chain_def Some)
    have "bt_wf (rt_chains ?s)" using Cons.prems(1) by (simp add: bt_wf_def refreeze_keys)
    moreover have "fst ` set (rt_chains ?s) = fst ` set (rt_chains s)" by (metis refreeze_keys list.set_map)
    moreover have "k \<in> fst ` set (rt_chains s)" using map_of_SomeD [OF Some] by force
    ultimately show ?thesis using Cons.IH [of ?s] Cons.prems(2) refreeze_Cons [of k ds f d s] by (simp add: kd u)
  qed
qed

lemma freeze_chains_eq:
  assumes "bt_wf (rt_chains s)" "distinct (map fst ds)"
  shows "new_state (freeze_chains s ds) =
    (if fst ` set ds \<subseteq> fst ` set (rt_chains s) then Inr (refreeze (OR) ds s) else Inl ChainNotFound)"
  using freeze_fold [OF assms, of "(OR)" ChainFrozenEvent "[]"]
  by (simp add: freeze_chains_def freeze_specific_chain_def new_state_def)

lemma unfreeze_chains_eq:
  assumes "bt_wf (rt_chains s)" "distinct (map fst ds)"
  shows "new_state (unfreeze_chains s ds) =
    (if fst ` set ds \<subseteq> fst ` set (rt_chains s) then Inr (refreeze (\<lambda>a d. a AND NOT d) ds s) else Inl ChainNotFound)"
  using freeze_fold [OF assms, of "\<lambda>a d. a AND NOT d" ChainUnfrozenEvent "[]"]
  by (simp add: unfreeze_chains_def unfreeze_specific_chain_def new_state_def)

lemma refreeze_order:
  assumes "set ds = set es" "distinct (map fst ds)" "distinct (map fst es)"
  shows "refreeze f ds s = refreeze f es s"
proof -
  have "map_of ds = map_of es" using assms by (metis map_of_inject_set)
  then show ?thesis by (simp add: refreeze_def)
qed

section \<open>Pages\<close>

lemma sorted_after_take:
  assumes "bt_wf m" "filter p m = xs @ (k, c) # ys" "\<And>k c k' c'. p (k, c) \<Longrightarrow> k < k' \<Longrightarrow> p (k', c')"
  shows "filter (\<lambda>(k', _). k < k') m = ys"
proof -
  have "(k, c) \<in> set (filter p m)" by (simp add: assms(2))
  then have "p (k, c)" by simp
  then have "\<And>e. (\<lambda>(k', _). k < k') e \<Longrightarrow> p e" using assms(3) by auto
  then have "filter (\<lambda>(k', _). k < k') m = filter (\<lambda>(k', _). k < k') (filter p m)"
    unfolding filter_filter by (intro filter_cong refl) blast
  moreover have "sorted_wrt (\<lambda>a b. fst a < fst b) (filter p m)"
    using assms(1) by (simp add: bt_wf_def sorted_wrt_map sorted_wrt_filter)
  then have "sorted_wrt (\<lambda>a b. fst a < fst b) (xs @ (k, c) # ys)" by (simp only: assms(2))
  then have "\<And>e. e \<in> set xs \<Longrightarrow> \<not> k < fst e" "\<And>e. e \<in> set ys \<Longrightarrow> k < fst e"
    by (auto simp: sorted_wrt_append)
  then have "filter (\<lambda>(k', _). k < k') xs = []" "filter (\<lambda>(k', _). k < k') ys = ys"
    by (auto simp: filter_empty_conv filter_id_conv)
  then have "filter (\<lambda>(k', _). k < k') (xs @ (k, c) # ys) = ys" by simp
  ultimately show ?thesis by (simp add: assms(2))
qed

lemma chain_page:
  assumes inv: "router_inv s" and page: "query_chains s start (Some n) \<noteq> []" and sum: "unat n + unat m < 2 ^ 32"
  shows "query_chains s start (Some n) @ query_chains s (Some (ce_name (last (query_chains s start (Some n))))) (Some m) =
    query_chains s start (Some (n + m))"
proof -
  define p where "p = (case start of None \<Rightarrow> \<lambda>_. True | Some c \<Rightarrow> \<lambda>(name, _ :: chain_endpoint). c < name)"
  have q: "query_chains s start (Some l) = map snd (take (unat l) (filter p (rt_chains s)))" for l
    by (simp add: query_chains_def p_def Let_def)
  let ?F = "filter p (rt_chains s)" and ?n = "unat n"
  from page have ne: "take ?n ?F \<noteq> []" by (simp add: q)
  obtain k c where kc: "last (take ?n ?F) = (k, c)" by fastforce
  define xs where "xs = butlast (take ?n ?F)"
  have t: "take ?n ?F = xs @ [(k, c)]" using ne kc by (simp add: xs_def flip: kc)
  then have f: "?F = xs @ (k, c) # drop ?n ?F" using append_take_drop_id [of ?n ?F] by simp
  have "(k, c) \<in> set ?F" by (subst f) simp
  then have "(k, c) \<in> set (rt_chains s)" by simp
  with inv have "map_of (rt_chains s) k = Some c" by (simp add: router_inv_def bt_wf_distinct)
  with inv have k: "ce_name c = k" unfolding router_inv_def by blast
  have up: "p (k', c')" if "p (j, d)" "j < k'" for j d k' c'
    using that by (auto simp: p_def split: option.splits)
  have "filter (\<lambda>(k', _). k < k') (rt_chains s) = drop ?n ?F"
    by (rule sorted_after_take [OF _ f up]) (use inv in \<open>simp_all add: router_inv_def\<close>)
  then have "query_chains s (Some k) (Some m) = map snd (take (unat m) (drop ?n ?F))"
    by (simp add: query_chains_def Let_def)
  moreover have "last (query_chains s start (Some n)) = c" by (simp add: q t)
  moreover have "unat (n + m) = ?n + unat m" using sum by (simp add: unat_plus_no_overflow)
  ultimately show ?thesis by (simp add: q k take_add)
qed

section \<open>A small network\<close>

definition demo_router_env :: router_env where
  "demo_router_env = \<lparr>re_is_chain_registered = \<lambda>c. Some (c = ''axelar''), re_validate_address = Some, re_msg_ids = demo_msg_id_lib\<rparr>"

definition demo_router_msg :: router_instantiate_msg where
  "demo_router_msg = \<lparr>rim_admin_address = ''admin'', rim_governance_address = ''gov'', rim_axelarnet_gateway = ''nexus''\<rparr>"

definition demo_router_start :: router_state where
  "demo_router_start = (case router_instantiate demo_router_env demo_router_msg of Inr (s, _) \<Rightarrow> s)"

definition demo_router_calls :: "router_call list" where
  "demo_router_calls =
     [(demo_router_env, ''gov'', RegisterChain ''xrpl'' ''gw1'' HexTxHash),
      (demo_router_env, ''gov'', RegisterChain ''avalanche'' ''gw2'' HexTxHashAndEventIndex),
      (demo_router_env, ''admin'', FreezeChains [(''avalanche'', Incoming)])]"

definition demo_router :: router_state where
  "demo_router = deliver router_step demo_router_calls demo_router_start"

definition demo_routed_message :: router_message where
  "demo_routed_message =
     \<lparr>msg_cc_id = \<lparr>source_chain = ''xrpl'', message_id = ''0x'' @ replicate 64 CHR ''0''\<rparr>, msg_source_address = ''rA'',
      msg_destination_chain = ''avalanche'', msg_destination_address = ''0xB'', msg_payload_hash = replicate 32 7\<rparr>"

lemma demo_router_instantiate: "\<exists>out. router_instantiate demo_router_env demo_router_msg = Inr (demo_router_start, out)"
  by (simp add: demo_router_start_def router_instantiate_def demo_router_env_def demo_router_msg_def)

lemma demo_router_run: "run router_step demo_router_start demo_router"
  unfolding demo_router_def by (rule run_deliver)

lemma demo_route:
  "\<exists>out. router_execute demo_router_env demo_router ''gw1'' (RouteMessages [demo_routed_message]) = Inr (demo_router, out) \<and>
     rr_messages out = [(''gw2'', [demo_routed_message])]"
proof -
  have "case router_execute demo_router_env demo_router ''gw1'' (RouteMessages [demo_routed_message]) of
      Inl _ \<Rightarrow> False | Inr (s', out) \<Rightarrow> s' = demo_router \<and> rr_messages out = [(''gw2'', [demo_routed_message])]"
    by code_simp
  then show ?thesis by (auto simp: case_Inr_iff)
qed

section \<open>Properties\<close>

text \<open>
  C28: What the router delivers is authentic and complete. In every reachable state, when a gateway's
  messages are routed, routing is enabled; the sender is the gateway of the messages' source chain, which
  is not frozen, and the ids have the format of that chain (or the sender is the gateway of the Axelar
  network); every message is delivered exactly once and in order, and only to the gateway of its
  destination, which is not frozen.\<close>

theorem routed_messages_authentic:
  assumes "router_instantiate env0 msg0 = Inr (s0, out0)" "run router_step s0 s"
    and "router_execute env s sender (RouteMessages msgs) = Inr (s', out)"
  shows "s' = s \<and> rt_killswitch s = Some Disengaged \<and>
    (rt_config s = Some sender \<and>
       (\<forall>m \<in> set msgs. verify_msg_id (re_msg_ids env) (message_id (msg_cc_id m)) HexTxHashAndEventIndex = Inr ()) \<or>
     (\<exists>c. map_of (rt_chains s) (ce_name c) = Some c \<and> ce_gateway c = sender \<and> \<not> incoming_frozen c \<and>
        (\<forall>m \<in> set msgs. source_chain (msg_cc_id m) = ce_name c \<and>
           verify_msg_id (re_msg_ids env) (message_id (msg_cc_id m)) (ce_msg_id_format c) = Inr ()))) \<and>
    concat (map snd (rr_messages out)) = msgs \<and>
    (\<forall>(a, ms) \<in> set (rr_messages out). \<forall>m \<in> set ms.
       case map_of (rt_chains s) (msg_destination_chain m) of
         Some c \<Rightarrow> a = ce_gateway c \<and> \<not> outgoing_frozen c
       | None \<Rightarrow> rt_config s = Some a \<and> re_is_chain_registered env (msg_destination_chain m) = Some True)"
proof -
  have inv: "router_inv s" by (rule router.run_inv [OF assms(2) router_inv_instantiate [OF assms(1)]])
  from assms(3) have s: "s' = s" and r: "route_messages env s sender msgs = Inr out"
    by (auto simp: router_execute_def result_simps)
  from r obtain g where g: "rt_killswitch s = Some Disengaged" "rt_config s = Some g" "validate_msgs env s g sender msgs = Inr msgs"
    "concat (map snd (rr_messages out)) = msgs"
    "\<forall>a ms. (a, ms) \<in> set (rr_messages out) \<longrightarrow> ms \<noteq> [] \<and> (\<exists>d. delivered_to env s a d \<and> (\<forall>m \<in> set ms. msg_destination_chain m = d))"
    by (rule route_messages_Inr)
  have "delivered_to env s a (msg_destination_chain m)" if "(a, ms) \<in> set (rr_messages out)" "m \<in> set ms" for a ms m
  proof -
    from g(5) that(1) obtain d where "delivered_to env s a d" "\<forall>m \<in> set ms. msg_destination_chain m = d" by blast
    with that(2) show ?thesis by simp
  qed
  then show ?thesis using s g(1,2,4) validate_msgs_Inr [OF inv g(3)] unfolding delivered_to_def by blast
qed

theorem routed_messages_authentic_witness:
  "\<exists>c out. router_execute demo_router_env demo_router ''gw1'' (RouteMessages [demo_routed_message]) = Inr (demo_router, out) \<and>
     map_of (rt_chains demo_router) (ce_name c) = Some c \<and> ce_gateway c = ''gw1'' \<and> ce_name c = ''xrpl''"
proof -
  obtain out0 where i: "router_instantiate demo_router_env demo_router_msg = Inr (demo_router_start, out0)"
    using demo_router_instantiate ..
  obtain out where x: "router_execute demo_router_env demo_router ''gw1'' (RouteMessages [demo_routed_message]) = Inr (demo_router, out)"
    using demo_route by blast
  have n: "rt_config demo_router \<noteq> Some ''gw1''" by code_simp
  have "source_chain (msg_cc_id demo_routed_message) = ''xrpl''" by (simp add: demo_routed_message_def)
  with routed_messages_authentic [OF i demo_router_run x] n x show ?thesis by auto
qed

text \<open>
  C31: A gateway belongs to one chain: in every reachable state the lookup of a chain by its gateway
  answers for every address and never aborts, and it finds the only chain that is registered with the gateway.\<close>

theorem gateway_lookup_total:
  assumes "router_instantiate env0 msg0 = Inr (s0, out0)" "run router_step s0 s"
  shows "\<exists>r. index_load_chain_by_gateway s a = Inr r \<and>
    (\<forall>k c. map_of (rt_chains s) k = Some c \<and> ce_gateway c = a \<longleftrightarrow> r = Some c \<and> ce_name c = k)"
proof -
  have inv: "router_inv s" by (rule router.run_inv [OF assms(2) router_inv_instantiate [OF assms(1)]])
  then have d: "distinct (map fst (rt_chains s))" by (simp add: router_inv_def bt_wf_distinct)
  let ?f = "find (\<lambda>(_, c). ce_gateway c = a) (rt_chains s)"
  have "map_of (rt_chains s) k = Some c \<and> ce_gateway c = a \<longleftrightarrow> map_option snd ?f = Some c \<and> ce_name c = k" for k c
  proof (cases ?f)
    case None
    then have "\<forall>(k, c) \<in> set (rt_chains s). ce_gateway c \<noteq> a" by (auto simp: find_None_iff)
    with None show ?thesis using map_of_SomeD [of "rt_chains s" k c] by auto
  next
    case (Some e)
    obtain k' c' where e: "e = (k', c')" by fastforce
    have c': "map_of (rt_chains s) k' = Some c'" "ce_gateway c' = a" using find_gatewayD [OF Some [unfolded e] d] by simp_all
    with inv have "ce_name c' = k'" unfolding router_inv_def by blast
    moreover have "k = k'" if "map_of (rt_chains s) k = Some c" "ce_gateway c = a"
      using that c' inv unfolding router_inv_def by metis
    ultimately show ?thesis using c' Some by (auto simp: e)
  qed
  with index_load_total [OF inv] show ?thesis by blast
qed

theorem gateway_lookup_total_witness:
  "\<exists>c. index_load_chain_by_gateway demo_router ''gw1'' = Inr (Some c) \<and> ce_name c = ''xrpl''"
proof -
  obtain out0 where i: "router_instantiate demo_router_env demo_router_msg = Inr (demo_router_start, out0)"
    using demo_router_instantiate ..
  have "case map_of (rt_chains demo_router) ''xrpl'' of None \<Rightarrow> False | Some c \<Rightarrow> ce_gateway c = ''gw1''" by code_simp
  then obtain c where c: "map_of (rt_chains demo_router) ''xrpl'' = Some c" "ce_gateway c = ''gw1''"
    by (auto split: option.splits)
  with gateway_lookup_total [OF i demo_router_run, of "''gw1''"] show ?thesis by metis
qed



text \<open>
  C33: The pages of the chain query fit together: in every reachable state, the page after a page, started at
  the last chain of it, continues where it ended, without repeating or skipping a chain.\<close>

theorem chain_pages_continue:
  assumes "router_instantiate env0 msg0 = Inr (s0, out0)" "run router_step s0 s"
    and "query_chains s start (Some n) \<noteq> []" "unat n + unat m < 2 ^ 32"
  shows "query_chains s start (Some n) @ query_chains s (Some (ce_name (last (query_chains s start (Some n))))) (Some m) =
    query_chains s start (Some (n + m))"
  by (rule chain_page [OF router.run_inv [OF assms(2) router_inv_instantiate [OF assms(1)]] assms(3,4)])

theorem chain_pages_continue_witness:
  "query_chains demo_router None (Some 1) @
     query_chains demo_router (Some (ce_name (last (query_chains demo_router None (Some 1))))) (Some 1) =
   query_chains demo_router None (Some 2)"
proof -
  obtain out0 where i: "router_instantiate demo_router_env demo_router_msg = Inr (demo_router_start, out0)"
    using demo_router_instantiate ..
  have "query_chains demo_router None (Some 1) \<noteq> []" by code_simp
  with chain_pages_continue [OF i demo_router_run, of None 1 1] show ?thesis by simp
qed

end
