(* ===== verification/Xrpl_Gateway.thy ===== *)
theory Xrpl_Gateway
  imports Router_Api Its_Messages
begin

text \<open>
  The gateway of XRPL (\<open>contracts/xrpl-gateway\<close>): the registry of tokens, the verification and routing of
  messages that come from XRPL, the gas they pay, and the messages that go to XRPL. What the gateway
  asks the voting verifier, the ITS hub and the nexus module, and the functions of \<open>xrpl_types\<close>
  and of the ABI and hexadecimal codecs that only the gateway calls, are records it takes as arguments.
\<close>

section \<open>State\<close>

datatype xrpl_token_or_xrp = TokenXrp | TokenIssued xrpl_token

record gateway_config =
  gc_verifier :: addr
  gc_router :: addr
  gc_its_hub :: addr
  gc_its_hub_chain_name :: chain_name
  gc_chain_name :: chain_name
  gc_xrpl_multisig :: xrpl_account_id
  gc_xrp_token_id :: token_id

record gateway_state =
  gw_config :: "gateway_config option"
  OUTGOING_MESSAGES :: "cross_chain_id \<rightharpoonup> router_message"
  ROUTABLE_MESSAGES_INDEX :: "u32 option"
  XRPL_CURRENCY_TO_REMOTE_TOKEN_ID :: "xrpl_currency \<rightharpoonup> token_id"
  XRPL_TOKEN_TO_LOCAL_TOKEN_ID :: "xrpl_token \<rightharpoonup> token_id"
  TOKEN_ID_TO_XRPL_TOKEN :: "token_id \<rightharpoonup> xrpl_token"
  GAS_ACCRUED :: "token_id \<rightharpoonup> xrpl_payment_amount"
  GAS_COUNTED :: "tx_hash \<rightharpoonup> unit"
  gw_permissions :: permission_state
  gw_killswitch :: killswitch

datatype gateway_state_error =
    GsMessageMismatch cross_chain_id
  | GsMessageNotFound cross_chain_id
  | GsStorage
  | GsTokenNotFound token_id
  | GsTokenIdNotFound xrpl_currency
  | GsTokenIdNotFoundForToken xrpl_token
  | GsPanic string

datatype gateway_error =
    GwDuplicateMessageIds
  | GwExecutionDisabled
  | GwInvalidAddress
  | GwInvalidCrossChainId
  | GwInvalidDecimals u8
  | GwInvalidDestinationAddress
  | GwInvalidDestinationChain chain_name
  | GwInvalidSourceAddress
  | GwInvalidToken gateway_state_error
  | GwInvalidTransferAmount chain_name xrpl_payment_amount
  | GwLocalTokenDeployedIdMismatch xrpl_token token_id token_id
  | GwLocalTokenDeployedMismatch token_id xrpl_token xrpl_token
  | GwMessageStatus
  | GwNexus
  | GwOnlyFromItsHubChain cross_chain_id
  | GwOnlyFromItsHub cross_chain_id
  | GwOutgoingMessages "gateway_state_error list"
  | GwPayloadEncodingFailed
  | GwPayloadHashEmpty
  | GwPayloadHashGivenWithoutPayload bytes
  | GwPayloadHashMismatch bytes bytes
  | GwRemoteTokenDeployedCurrencyMismatch token_id xrpl_currency xrpl_currency
  | GwRemoteTokenDeployedIdMismatch xrpl_currency token_id token_id
  | GwRemoteTokenDeployedIssuerMismatch token_id xrpl_account_id xrpl_account_id
  | GwSaveOutgoingMessage gateway_state_error
  | GwState gateway_state_error
  | GwKillswitch std_error
  | GwTokenInstanceDecimals chain_name token_id
  | GwTokenNotLocal xrpl_token_or_xrp
  | GwUnsupportedIncomingMessage xrpl_message
  | GwXrplToken token_id gateway_state_error
  | GwXrplTokenId xrpl_token gateway_state_error
  | GwFailedToUpdateAdmin
  | GwPermission permission_error
  | GwRouter router_error
  | GwPanic string

type_synonym 'a gateway_result = "gateway_error + gateway_state \<times> 'a"

datatype gateway_event =
    GwVerifying xrpl_message
  | GwAlreadyVerified xrpl_message
  | GwAlreadyRejected xrpl_message
  | GwRoutingIncoming router_message
  | GwUnfitForRouting router_message
  | GwRoutingOutgoing router_message
  | GwContractCalled router_message bytes
  | GwExecutionDisabledEvent
  | GwExecutionEnabledEvent
  | GwInterchainTransfer token_id xrpl_account_id chain_name bytes u256 "bytes option"
  | GwTokenMetadataRegistered u8 bytes
  | GwLinkTokenStarted token_id chain_name u256 bytes bytes "bytes option"
  | GwInterchainTokenDeploymentStarted token_id string string u8 "bytes option" chain_name
  | GwLocalTokenRegistered token_id xrpl_token_or_xrp
  | GwRemoteTokenRegistered token_id xrpl_token

datatype gateway_out =
    OutVerifyMessages addr "xrpl_message list"
  | OutRouteMessages addr "router_message list"

record gateway_response =
  gr_messages :: "gateway_out list"
  gr_events :: "gateway_event list"

abbreviation gateway_events :: "gateway_event list \<Rightarrow> gateway_response" where
  "gateway_events evs \<equiv> \<lparr>gr_messages = [], gr_events = evs\<rparr>"

text \<open>The functions of the crates and the answers of the other contracts; \<open>None\<close> is a failed query.\<close>

record gateway_lib =
  gl_xrpl :: xrpl_lib
  gl_token_is_local :: "xrpl_token \<Rightarrow> xrpl_account_id \<Rightarrow> bool"
  gl_payment_amount_add :: "xrpl_payment_amount \<Rightarrow> xrpl_payment_amount \<Rightarrow> xrpl_error + xrpl_payment_amount"
  gl_scale_to_decimals :: "xrpl_token_amount \<Rightarrow> u8 \<Rightarrow> xrpl_error + u256"
  gl_message_tx_id :: "xrpl_message \<Rightarrow> tx_hash"
  gl_transfer_cc_id :: "xrpl_interchain_transfer_message \<Rightarrow> chain_name \<Rightarrow> cross_chain_id"
  gl_call_cc_id :: "xrpl_call_contract_message \<Rightarrow> chain_name \<Rightarrow> cross_chain_id"
  gl_account_id_to_string :: "xrpl_account_id \<Rightarrow> string"
  gl_xrp_currency :: xrpl_currency
  gl_token_decimals :: "xrpl_token_or_xrp \<Rightarrow> u8"
  gl_token_address :: "xrpl_token_or_xrp \<Rightarrow> bytes"
  gl_token_serialize :: "xrpl_token_or_xrp \<Rightarrow> string"
  gl_abi_encode :: "hub_message \<Rightarrow> bytes"
  gl_from_hex :: "string \<Rightarrow> bytes option"
  gl_hex_tx_hash :: "bytes \<Rightarrow> string"

record gateway_env =
  ge_messages_status :: "xrpl_message list \<Rightarrow> (xrpl_message \<times> verification_status) list option"
  ge_token_instance_decimals :: "addr \<Rightarrow> chain_name \<Rightarrow> token_id \<Rightarrow> u8 option"
  ge_tx_hash_and_nonce :: "(bytes \<times> u64) option"
  ge_validate_address :: "string \<Rightarrow> addr option"

abbreviation keccak :: "gateway_lib \<Rightarrow> bytes \<Rightarrow> bytes" where
  "keccak lib \<equiv> keccak256_digest (gl_xrpl lib)"

section \<open>Token ids\<close>

definition PREFIX_TOKEN_ID :: bytes where "PREFIX_TOKEN_ID = string_bytes ''its-interchain-token-id''"
definition PREFIX_CUSTOM_TOKEN_SALT :: bytes where "PREFIX_CUSTOM_TOKEN_SALT = string_bytes ''custom-token-salt''"
definition TOKEN_FACTORY_DEPLOYER :: bytes where "TOKEN_FACTORY_DEPLOYER = replicate 32 0"

definition token_id_of :: "gateway_lib \<Rightarrow> bytes \<Rightarrow> token_id" where
  "token_id_of lib salt = keccak lib (keccak lib PREFIX_TOKEN_ID @ TOKEN_FACTORY_DEPLOYER @ salt)"

definition linked_token_deploy_salt :: "gateway_lib \<Rightarrow> bytes \<Rightarrow> xrpl_account_id \<Rightarrow> bytes \<Rightarrow> bytes" where
  "linked_token_deploy_salt lib chain_name_hash deployer salt =
     keccak lib (keccak lib PREFIX_CUSTOM_TOKEN_SALT @ chain_name_hash @ deployer @ salt)"

definition linked_token_id :: "gateway_lib \<Rightarrow> bytes \<Rightarrow> xrpl_account_id \<Rightarrow> bytes \<Rightarrow> token_id" where
  "linked_token_id lib chain_name_hash deployer salt =
     token_id_of lib (linked_token_deploy_salt lib chain_name_hash deployer salt)"

definition chain_name_hash_of :: "gateway_lib \<Rightarrow> chain_name \<Rightarrow> bytes" where
  "chain_name_hash_of lib chain_name = keccak lib (string_bytes chain_name)"

definition currency_hash :: "gateway_lib \<Rightarrow> xrpl_currency \<Rightarrow> bytes" where
  "currency_hash lib currency = keccak lib currency"

section \<open>Storage\<close>

definition increment_gas ::
    "gateway_lib \<Rightarrow> gateway_state \<Rightarrow> token_id \<Rightarrow> xrpl_payment_amount \<Rightarrow> gateway_state_error + gateway_state" where
  "increment_gas lib s token_id new_gas =
     rbind (map_err (\<lambda>_. GsStorage)
              (case GAS_ACCRUED s token_id of
                 Some existing_gas \<Rightarrow> gl_payment_amount_add lib existing_gas new_gas
               | None \<Rightarrow> Inr new_gas)) (\<lambda>gas.
     Inr (s\<lparr>GAS_ACCRUED := (GAS_ACCRUED s)(token_id \<mapsto> gas)\<rparr>))"

definition gas_counted :: "gateway_state \<Rightarrow> tx_hash \<Rightarrow> bool" where
  "gas_counted s tx_hash \<longleftrightarrow> GAS_COUNTED s tx_hash \<noteq> None"

definition mark_gas_counted :: "gateway_state \<Rightarrow> tx_hash \<Rightarrow> gateway_state" where
  "mark_gas_counted s tx_hash = s\<lparr>GAS_COUNTED := (GAS_COUNTED s)(tx_hash \<mapsto> ())\<rparr>"

definition count_gas ::
    "gateway_lib \<Rightarrow> gateway_state \<Rightarrow> tx_hash \<Rightarrow> token_id \<Rightarrow> xrpl_payment_amount \<Rightarrow> gateway_state_error + gateway_state" where
  "count_gas lib s tx_id token_id gas =
     (if payment_amount_is_zero (gl_xrpl lib) gas \<or> gas_counted s tx_id then Inr s
      else rbind (increment_gas lib s token_id gas) (\<lambda>s. Inr (mark_gas_counted s tx_id)))"

definition load_remote_token_id :: "gateway_state \<Rightarrow> xrpl_currency \<Rightarrow> gateway_state_error + token_id" where
  "load_remote_token_id s xrpl_currency =
     ok_or (GsTokenIdNotFound xrpl_currency) (XRPL_CURRENCY_TO_REMOTE_TOKEN_ID s xrpl_currency)"

definition load_local_token_id :: "gateway_state \<Rightarrow> xrpl_token \<Rightarrow> gateway_state_error + token_id" where
  "load_local_token_id s xrpl_token =
     ok_or (GsTokenIdNotFoundForToken xrpl_token) (XRPL_TOKEN_TO_LOCAL_TOKEN_ID s xrpl_token)"

definition load_token_id ::
    "gateway_lib \<Rightarrow> gateway_state \<Rightarrow> xrpl_account_id \<Rightarrow> xrpl_token \<Rightarrow> gateway_state_error + token_id" where
  "load_token_id lib s xrpl_multisig token =
     (if token_is_remote (gl_xrpl lib) token xrpl_multisig then load_remote_token_id s (tok_currency token)
      else load_local_token_id s token)"

definition load_xrpl_token :: "gateway_state \<Rightarrow> token_id \<Rightarrow> gateway_state_error + xrpl_token" where
  "load_xrpl_token s token_id = ok_or (GsTokenNotFound token_id) (TOKEN_ID_TO_XRPL_TOKEN s token_id)"

definition load_gateway_config :: "gateway_state \<Rightarrow> gateway_error + gateway_config" where
  "load_gateway_config s = ok_or (GwPanic ''failed to load config'') (gw_config s)"

definition load_outgoing_message :: "gateway_state \<Rightarrow> cross_chain_id \<Rightarrow> gateway_state_error + router_message" where
  "load_outgoing_message s cc_id = ok_or (GsMessageNotFound cc_id) (OUTGOING_MESSAGES s cc_id)"

definition save_outgoing_message ::
    "gateway_lib \<Rightarrow> gateway_state \<Rightarrow> cross_chain_id \<Rightarrow> router_message \<Rightarrow> gateway_state_error + gateway_state" where
  "save_outgoing_message lib s cc_id msg =
     (case OUTGOING_MESSAGES s cc_id of
        Some existing \<Rightarrow>
          if router_message_hash (gl_xrpl lib) msg \<noteq> router_message_hash (gl_xrpl lib) existing
          then Inl (GsMessageMismatch (msg_cc_id msg)) else Inr s
      | None \<Rightarrow> Inr (s\<lparr>OUTGOING_MESSAGES := (OUTGOING_MESSAGES s)(cc_id \<mapsto> msg)\<rparr>))"

definition save_local_token_id :: "gateway_state \<Rightarrow> xrpl_token \<Rightarrow> token_id \<Rightarrow> gateway_state" where
  "save_local_token_id s xrpl_token token_id =
     s\<lparr>XRPL_TOKEN_TO_LOCAL_TOKEN_ID := (XRPL_TOKEN_TO_LOCAL_TOKEN_ID s)(xrpl_token \<mapsto> token_id)\<rparr>"

definition save_remote_token_id :: "gateway_state \<Rightarrow> xrpl_currency \<Rightarrow> token_id \<Rightarrow> gateway_state" where
  "save_remote_token_id s xrpl_currency token_id =
     s\<lparr>XRPL_CURRENCY_TO_REMOTE_TOKEN_ID := (XRPL_CURRENCY_TO_REMOTE_TOKEN_ID s)(xrpl_currency \<mapsto> token_id)\<rparr>"

definition save_xrpl_token :: "gateway_state \<Rightarrow> token_id \<Rightarrow> xrpl_token \<Rightarrow> gateway_state" where
  "save_xrpl_token s token_id xrpl_token =
     s\<lparr>TOKEN_ID_TO_XRPL_TOKEN := (TOKEN_ID_TO_XRPL_TOKEN s)(token_id \<mapsto> xrpl_token)\<rparr>"

definition increment_event_index :: "gateway_state \<Rightarrow> gateway_state_error + gateway_state \<times> u32" where
  "increment_event_index s =
     rbind (map_err (\<lambda>_. GsStorage) (counter_incr (ROUTABLE_MESSAGES_INDEX s))) (\<lambda>i.
     Inr (s\<lparr>ROUTABLE_MESSAGES_INDEX := Some i\<rparr>, i))"

section \<open>Messages from XRPL\<close>

definition MAX_TOKEN_DECIMALS :: u8 where "MAX_TOKEN_DECIMALS = 50"

record message_with_payload =
  mwp_message :: router_message
  mwp_payload :: bytes

record interchain_transfer =
  ict_message_with_payload :: "message_with_payload option"
  ict_token_id :: token_id

record call_contract =
  cac_message_with_payload :: message_with_payload
  cac_gas_token_id :: token_id

definition check_for_duplicates :: "'a list \<Rightarrow> ('a \<Rightarrow> 'i) \<Rightarrow> gateway_error + 'a list" where
  "check_for_duplicates msgs id_extractor =
     (if \<not> distinct (map id_extractor msgs) then Inl GwDuplicateMessageIds else Inr msgs)"

text \<open>The client of the voting verifier asks nothing when there is nothing to ask.\<close>

definition fetch_msgs_status ::
    "gateway_env \<Rightarrow> ('a \<Rightarrow> xrpl_message) \<Rightarrow> 'a list \<Rightarrow> gateway_error + (verification_status \<times> 'a) list" where
  "fetch_msgs_status env into msgs =
     rbind (ok_or GwMessageStatus (if msgs = [] then Some [] else ge_messages_status env (map into msgs))) (\<lambda>statuses.
     Inr (map (\<lambda>((_, status), msg). (status, msg)) (zip statuses msgs)))"

definition group_by_first :: "(verification_status \<times> 'a) list \<Rightarrow> (verification_status \<times> 'a list) list" where
  "group_by_first msgs_with_status =
     map (\<lambda>k. (k, map snd (filter (\<lambda>(k', _). k' = k) msgs_with_status))) (sort (remdups (map fst msgs_with_status)))"

definition group_by_status ::
    "gateway_lib \<Rightarrow> gateway_env \<Rightarrow> ('a \<Rightarrow> xrpl_message) \<Rightarrow> 'a list \<Rightarrow> gateway_error + (verification_status \<times> 'a list) list" where
  "group_by_status lib env into msgs =
     rbind (check_for_duplicates msgs (\<lambda>m. gl_message_tx_id lib (into m))) (\<lambda>msgs.
     rbind (fetch_msgs_status env into msgs) (\<lambda>msgs_status.
     Inr (group_by_first msgs_status)))"

definition filter_verifiable_messages :: "verification_status \<Rightarrow> xrpl_message list \<Rightarrow> xrpl_message list" where
  "filter_verifiable_messages status msgs =
     (case status of Unknown \<Rightarrow> msgs | NotFoundOnSourceChain \<Rightarrow> msgs | FailedToVerify \<Rightarrow> msgs | _ \<Rightarrow> [])"

definition into_verify_events :: "verification_status \<Rightarrow> xrpl_message list \<Rightarrow> gateway_event list" where
  "into_verify_events status msgs =
     (case status of
        Unknown \<Rightarrow> map GwVerifying msgs
      | NotFoundOnSourceChain \<Rightarrow> map GwVerifying msgs
      | FailedToVerify \<Rightarrow> map GwVerifying msgs
      | InProgress \<Rightarrow> map GwVerifying msgs
      | SucceededOnSourceChain \<Rightarrow> map GwAlreadyVerified msgs
      | FailedOnSourceChain \<Rightarrow> map GwAlreadyRejected msgs)"

definition gateway_verify ::
    "gateway_config \<Rightarrow> (verification_status \<times> xrpl_message list) list \<Rightarrow> gateway_out list \<times> gateway_event list" where
  "gateway_verify config msgs_by_status =
     (let msgs = concat (map (\<lambda>(status, msgs). filter_verifiable_messages status msgs) msgs_by_status);
          events = concat (map (\<lambda>(status, msgs). into_verify_events status msgs) msgs_by_status)
      in (if msgs = [] then [] else [OutVerifyMessages (gc_verifier config) msgs], events))"

definition gw_verify_messages ::
    "gateway_lib \<Rightarrow> gateway_env \<Rightarrow> gateway_state \<Rightarrow> gateway_config \<Rightarrow> xrpl_message list \<Rightarrow> gateway_error + gateway_response" where
  "gw_verify_messages lib env s config msgs =
     (if \<not> is_contract_active (gw_killswitch s) then Inl GwExecutionDisabled
      else
        rbind (group_by_status lib env (\<lambda>m. m) msgs) (\<lambda>msgs_by_status.
        case gateway_verify config msgs_by_status of (out, events) \<Rightarrow>
        Inr \<lparr>gr_messages = out, gr_events = events\<rparr>))"

definition gw_payment_amount_to_token_id ::
    "gateway_lib \<Rightarrow> gateway_state \<Rightarrow> gateway_config \<Rightarrow> xrpl_payment_amount \<Rightarrow> gateway_error + token_id" where
  "gw_payment_amount_to_token_id lib s config amount =
     (case amount of
        Drops _ \<Rightarrow> Inr (gc_xrp_token_id config)
      | Issued token _ \<Rightarrow> map_err GwState (load_token_id lib s (gc_xrpl_multisig config) token))"

definition construct_its_hub_message ::
    "gateway_lib \<Rightarrow> gateway_config \<Rightarrow> cross_chain_id \<Rightarrow> bytes \<Rightarrow> gateway_error + router_message" where
  "construct_its_hub_message lib config cc_id payload =
     rbind (map_err (\<lambda>_. GwInvalidSourceAddress)
              (address_try_from (gl_account_id_to_string lib (gc_xrpl_multisig config)))) (\<lambda>source_address.
     rbind (map_err (\<lambda>_. GwInvalidDestinationAddress) (address_try_from (gc_its_hub config))) (\<lambda>destination_address.
     Inr \<lparr>msg_cc_id = cc_id, msg_source_address = source_address,
          msg_destination_chain = gc_its_hub_chain_name config, msg_destination_address = destination_address,
          msg_payload_hash = keccak lib payload\<rparr>))"

definition check_transfer_payload ::
    "gateway_lib \<Rightarrow> xrpl_interchain_transfer_message \<Rightarrow> bytes option \<Rightarrow> gateway_error + unit" where
  "check_transfer_payload lib m payload =
     (case payload of
        None \<Rightarrow>
          (case itm_payload_hash m of
             None \<Rightarrow> Inr () | Some h \<Rightarrow> Inl (GwPayloadHashGivenWithoutPayload h))
      | Some payload \<Rightarrow>
          (case itm_payload_hash m of
             None \<Rightarrow> Inl GwPayloadHashEmpty
           | Some h \<Rightarrow>
               (let payload_hash = keccak lib payload
                in ensure (h = payload_hash) (GwPayloadHashMismatch payload_hash h))))"

definition nonempty_bytes :: "'e \<Rightarrow> bytes \<Rightarrow> 'e + bytes" where
  "nonempty_bytes e b = (if b = [] then Inl e else Inr b)"

definition token_instance_decimals ::
    "gateway_env \<Rightarrow> addr \<Rightarrow> chain_name \<Rightarrow> token_id \<Rightarrow> gateway_error + u8" where
  "token_instance_decimals env its_hub chain_name token_id =
     ok_or (GwTokenInstanceDecimals chain_name token_id) (ge_token_instance_decimals env its_hub chain_name token_id)"

definition transfer_amount_u256 ::
    "gateway_lib \<Rightarrow> gateway_env \<Rightarrow> gateway_config \<Rightarrow> xrpl_interchain_transfer_message \<Rightarrow> token_id \<Rightarrow> gateway_error + u256" where
  "transfer_amount_u256 lib env config m token_id =
     (case itm_transfer_amount m of
        Drops drops \<Rightarrow> Inr (ucast drops)
      | Issued _ token_amount \<Rightarrow>
          rbind (token_instance_decimals env (gc_its_hub config) (gc_chain_name config) token_id) (\<lambda>xrpl_decimals.
          if xrpl_decimals > MAX_TOKEN_DECIMALS then Inl (GwInvalidDecimals xrpl_decimals)
          else map_err (\<lambda>_. GwInvalidTransferAmount (itm_destination_chain m) (itm_transfer_amount m))
                 (gl_scale_to_decimals lib token_amount xrpl_decimals)))"

definition translate_to_interchain_transfer ::
    "gateway_lib \<Rightarrow> gateway_env \<Rightarrow> gateway_state \<Rightarrow> gateway_config \<Rightarrow> xrpl_interchain_transfer_message \<Rightarrow> bytes option \<Rightarrow>
     gateway_error + interchain_transfer \<times> gateway_event option" where
  "translate_to_interchain_transfer lib env s config m payload =
     rbind (check_transfer_payload lib m payload) (\<lambda>_.
     rbind (gw_payment_amount_to_token_id lib s config (itm_transfer_amount m)) (\<lambda>token_id.
     rbind (nonempty_bytes GwInvalidAddress (string_bytes (gl_account_id_to_string lib (itm_source_address m)))) (\<lambda>source_address.
     rbind (ok_or GwInvalidAddress (gl_from_hex lib (itm_destination_address m))) (\<lambda>destination.
     rbind (nonempty_bytes GwInvalidAddress destination) (\<lambda>destination_address.
     rbind (transfer_amount_u256 lib env config m token_id) (\<lambda>amount.
     if amount = 0 then Inr (\<lparr>ict_message_with_payload = None, ict_token_id = token_id\<rparr>, None)
     else
       (let its_msg = \<lparr>it_token_id = token_id, it_source_address = source_address,
                       it_destination_address = destination_address, it_amount = amount, it_data = payload\<rparr>;
            payload = gl_abi_encode lib (SendToHub (itm_destination_chain m) (ItsInterchainTransfer its_msg));
            cc_id = gl_transfer_cc_id lib m (gc_chain_name config)
        in rbind (construct_its_hub_message lib config cc_id payload) (\<lambda>message.
           rbind (nonempty_bytes GwPayloadEncodingFailed payload) (\<lambda>payload.
           Inr (\<lparr>ict_message_with_payload = Some \<lparr>mwp_message = message, mwp_payload = payload\<rparr>, ict_token_id = token_id\<rparr>,
                Some (GwInterchainTransfer token_id (itm_source_address m) (itm_destination_chain m)
                        destination_address amount (itm_payload_hash m))))))))))))"

definition translate_to_call_contract ::
    "gateway_lib \<Rightarrow> gateway_state \<Rightarrow> gateway_config \<Rightarrow> xrpl_call_contract_message \<Rightarrow> bytes \<Rightarrow> gateway_error + call_contract" where
  "translate_to_call_contract lib s config m payload =
     (let payload_hash = keccak lib payload; expected_payload_hash = ccm_payload_hash m in
      rbind (ensure (payload_hash = expected_payload_hash) (GwPayloadHashMismatch expected_payload_hash payload_hash)) (\<lambda>_.
      rbind (gw_payment_amount_to_token_id lib s config (ccm_gas_fee_amount m)) (\<lambda>gas_token_id.
      rbind (map_err GwRouter (normalize (ccm_destination_chain m))) (\<lambda>destination_chain.
      rbind (map_err (\<lambda>_. GwInvalidSourceAddress)
               (address_try_from (gl_account_id_to_string lib (ccm_source_address m)))) (\<lambda>source_address.
      rbind (map_err (\<lambda>_. GwInvalidDestinationAddress) (address_try_from (ccm_destination_address m))) (\<lambda>destination_address.
      Inr \<lparr>cac_message_with_payload =
             \<lparr>mwp_message = \<lparr>msg_cc_id = gl_call_cc_id lib m (gc_chain_name config), msg_source_address = source_address,
                             msg_destination_chain = destination_chain, msg_destination_address = destination_address,
                             msg_payload_hash = ccm_payload_hash m\<rparr>,
              mwp_payload = payload\<rparr>,
           cac_gas_token_id = gas_token_id\<rparr>))))))"

text \<open>A message with the payload the relayer reports for it.\<close>

record with_payload =
  wp_message :: xrpl_message
  wp_payload :: "bytes option"

text \<open>One message of a batch with its status: the state after counting its gas, and the message to route.\<close>

definition route_incoming_message ::
    "gateway_lib \<Rightarrow> gateway_env \<Rightarrow> gateway_config \<Rightarrow> verification_status \<Rightarrow> gateway_state \<Rightarrow> with_payload \<Rightarrow>
     (message_with_payload option \<times> gateway_event option) gateway_result" where
  "route_incoming_message lib env config status s msg =
     (case wp_message msg of
        InterchainTransferMessage m \<Rightarrow>
          rbind (translate_to_interchain_transfer lib env s config m (wp_payload msg)) (\<lambda>(transfer, event).
          rbind (if status = SucceededOnSourceChain
                 then map_err GwState (count_gas lib s (itm_tx_id m) (ict_token_id transfer) (itm_gas_fee_amount m))
                 else Inr s) (\<lambda>s.
          Inr (s, ict_message_with_payload transfer, event)))
      | CallContractMessage m \<Rightarrow>
          rbind (ok_or GwPayloadHashEmpty (wp_payload msg)) (\<lambda>payload.
          rbind (translate_to_call_contract lib s config m payload) (\<lambda>call.
          rbind (if status = SucceededOnSourceChain
                 then map_err GwState (count_gas lib s (ccm_tx_id m) (cac_gas_token_id call) (ccm_gas_fee_amount m))
                 else Inr s) (\<lambda>s.
          Inr (s, Some (cac_message_with_payload call), None))))
      | m \<Rightarrow> Inl (GwUnsupportedIncomingMessage m))"

definition routing_events ::
    "verification_status \<Rightarrow> message_with_payload \<Rightarrow> gateway_event option \<Rightarrow> gateway_event list" where
  "routing_events status m event =
     (if status = SucceededOnSourceChain
      then [GwRoutingIncoming (mwp_message m), GwContractCalled (mwp_message m) (mwp_payload m)] @
           (case event of None \<Rightarrow> [] | Some e \<Rightarrow> [e])
      else [GwUnfitForRouting (mwp_message m)])"

definition filter_routable_messages :: "verification_status \<Rightarrow> router_message list \<Rightarrow> router_message list" where
  "filter_routable_messages status msgs = (if status = SucceededOnSourceChain then msgs else [])"

definition route_incoming_group ::
    "gateway_lib \<Rightarrow> gateway_env \<Rightarrow> gateway_config \<Rightarrow> gateway_state \<times> router_message list \<times> gateway_event list \<Rightarrow>
     verification_status \<times> with_payload list \<Rightarrow> gateway_error + gateway_state \<times> router_message list \<times> gateway_event list" where
  "route_incoming_group lib env config acc batch =
     (case (acc, batch) of ((s, route_msgs, events), (status, msgs)) \<Rightarrow>
        rbind (try_fold (\<lambda>(s, to_route, events) msg.
                 rbind (route_incoming_message lib env config status s msg) (\<lambda>(s, m, event).
                 Inr (case m of
                        None \<Rightarrow> (s, to_route, events)
                      | Some m \<Rightarrow> (s, to_route @ [mwp_message m], events @ routing_events status m event))))
                 (s, [], events) msgs) (\<lambda>(s, to_route, events).
        Inr (s, route_msgs @ filter_routable_messages status to_route, events)))"

definition route_incoming_messages ::
    "gateway_lib \<Rightarrow> gateway_env \<Rightarrow> gateway_state \<Rightarrow> gateway_config \<Rightarrow> with_payload list \<Rightarrow> gateway_response gateway_result" where
  "route_incoming_messages lib env s config msgs_with_payload =
     (if \<not> is_contract_active (gw_killswitch s) then Inl GwExecutionDisabled
      else
        rbind (group_by_status lib env wp_message msgs_with_payload) (\<lambda>msgs_by_status.
        rbind (try_fold (route_incoming_group lib env config) (s, [], []) msgs_by_status) (\<lambda>(s, route_msgs, events).
        Inr (s, \<lparr>gr_messages = (if route_msgs = [] then [] else [OutRouteMessages (gc_router config) route_msgs]),
                 gr_events = events\<rparr>))))"

definition confirm_add_gas_messages ::
    "gateway_lib \<Rightarrow> gateway_env \<Rightarrow> gateway_state \<Rightarrow> gateway_config \<Rightarrow> xrpl_add_gas_message list \<Rightarrow> gateway_response gateway_result" where
  "confirm_add_gas_messages lib env s config messages =
     rbind (group_by_status lib env AddGasMessage messages) (\<lambda>msgs_by_status.
     let successful_msgs = concat (map snd (filter (\<lambda>(status, _). status = SucceededOnSourceChain) msgs_by_status)) in
     rbind (try_fold (\<lambda>s msg.
              rbind (gw_payment_amount_to_token_id lib s config (agm_amount msg)) (\<lambda>token_id.
              map_err GwState (count_gas lib s (agm_tx_id msg) token_id (agm_amount msg)))) s successful_msgs) (\<lambda>s.
     Inr (s, gateway_events [])))"

section \<open>Messages to XRPL\<close>

definition route_outgoing_messages ::
    "gateway_lib \<Rightarrow> gateway_state \<Rightarrow> router_message list \<Rightarrow> addr \<Rightarrow> chain_name \<Rightarrow> gateway_response gateway_result" where
  "route_outgoing_messages lib s verified its_hub its_hub_chain_name =
     rbind (check_for_duplicates verified msg_cc_id) (\<lambda>msgs.
     rbind (try_fold (\<lambda>s msg.
              if msg_source_address msg \<noteq> its_hub then Inl (GwOnlyFromItsHub (msg_cc_id msg))
              else if source_chain (msg_cc_id msg) \<noteq> its_hub_chain_name then Inl (GwOnlyFromItsHubChain (msg_cc_id msg))
              else map_err GwSaveOutgoingMessage (save_outgoing_message lib s (msg_cc_id msg) msg)) s msgs) (\<lambda>s.
     Inr (s, gateway_events (map GwRoutingOutgoing msgs))))"

section \<open>Registering tokens\<close>

definition PREFIX_CROSS_CHAIN_ID :: bytes where "PREFIX_CROSS_CHAIN_ID = string_bytes ''cross-chain-id''"

definition generate_message_id :: "gateway_lib \<Rightarrow> gateway_env \<Rightarrow> gateway_error + bytes" where
  "generate_message_id lib env =
     rbind (ok_or GwNexus (ge_tx_hash_and_nonce env)) (\<lambda>(tx_hash, nonce).
     Inr (keccak lib (keccak lib PREFIX_CROSS_CHAIN_ID @ tx_hash @ be_bytes 8 nonce)))"

definition unique_cross_chain_id :: "gateway_lib \<Rightarrow> gateway_env \<Rightarrow> chain_name \<Rightarrow> gateway_error + cross_chain_id" where
  "unique_cross_chain_id lib env chain_name =
     rbind (generate_message_id lib env) (\<lambda>msg_id.
     map_err (\<lambda>_. GwInvalidCrossChainId) (cross_chain_id_new chain_name (gl_hex_tx_hash lib msg_id)))"

definition route_hub_message ::
    "gateway_lib \<Rightarrow> gateway_env \<Rightarrow> gateway_config \<Rightarrow> hub_message \<Rightarrow> gateway_event \<Rightarrow> gateway_error + gateway_response" where
  "route_hub_message lib env config hub_message event =
     (let payload = gl_abi_encode lib hub_message in
      rbind (unique_cross_chain_id lib env (gc_chain_name config)) (\<lambda>cc_id.
      rbind (construct_its_hub_message lib config cc_id payload) (\<lambda>its_msg.
      Inr \<lparr>gr_messages = [OutRouteMessages (gc_router config) [its_msg]],
           gr_events = [GwRoutingIncoming its_msg, GwContractCalled its_msg payload, event]\<rparr>)))"

definition register_token_metadata ::
    "gateway_lib \<Rightarrow> gateway_env \<Rightarrow> gateway_config \<Rightarrow> xrpl_token_or_xrp \<Rightarrow> gateway_error + gateway_response" where
  "register_token_metadata lib env config xrpl_token =
     (let decimals = gl_token_decimals lib xrpl_token; token_address = gl_token_address lib xrpl_token
      in route_hub_message lib env config
           (RegisterTokenMetadata \<lparr>rm_decimals = decimals, rm_token_address = token_address\<rparr>)
           (GwTokenMetadataRegistered decimals token_address))"

definition register_local_token ::
    "gateway_lib \<Rightarrow> gateway_state \<Rightarrow> gateway_config \<Rightarrow> xrpl_token \<Rightarrow> gateway_response gateway_result" where
  "register_local_token lib s config xrpl_token =
     (if \<not> gl_token_is_local lib xrpl_token (gc_xrpl_multisig config) then Inl (GwTokenNotLocal (TokenIssued xrpl_token))
      else
        (let chain_name_hash = chain_name_hash_of lib (gc_chain_name config);
             salt = currency_hash lib (tok_currency xrpl_token);
             token_id = linked_token_id lib chain_name_hash (tok_issuer xrpl_token) salt
         in rbind (case XRPL_TOKEN_TO_LOCAL_TOKEN_ID s xrpl_token of
                     Some deployed_token_id \<Rightarrow>
                       if deployed_token_id \<noteq> token_id
                       then Inl (GwLocalTokenDeployedIdMismatch xrpl_token deployed_token_id token_id) else Inr (s, False)
                   | None \<Rightarrow> Inr (save_local_token_id s xrpl_token token_id, True)) (\<lambda>(s, is_new_token_id).
            rbind (case TOKEN_ID_TO_XRPL_TOKEN s token_id of
                     Some deployed_xrpl_token \<Rightarrow>
                       if deployed_xrpl_token \<noteq> xrpl_token
                       then Inl (GwLocalTokenDeployedMismatch token_id deployed_xrpl_token xrpl_token) else Inr (s, False)
                   | None \<Rightarrow> Inr (save_xrpl_token s token_id xrpl_token, True)) (\<lambda>(s, is_new_token_registration).
            Inr (s, gateway_events (if is_new_token_id \<and> is_new_token_registration
                                    then [GwLocalTokenRegistered token_id (TokenIssued xrpl_token)] else []))))))"

definition register_remote_token ::
    "gateway_lib \<Rightarrow> gateway_state \<Rightarrow> xrpl_account_id \<Rightarrow> token_id \<Rightarrow> xrpl_currency \<Rightarrow> gateway_response gateway_result" where
  "register_remote_token lib s xrpl_multisig token_id xrpl_currency =
     rbind (case XRPL_CURRENCY_TO_REMOTE_TOKEN_ID s xrpl_currency of
              Some deployed_token_id \<Rightarrow>
                if deployed_token_id \<noteq> token_id
                then Inl (GwRemoteTokenDeployedIdMismatch xrpl_currency deployed_token_id token_id) else Inr (s, False)
            | None \<Rightarrow> Inr (save_remote_token_id s xrpl_currency token_id, True)) (\<lambda>(s, is_new_token_id).
     rbind (case TOKEN_ID_TO_XRPL_TOKEN s token_id of
              Some deployed_xrpl_token \<Rightarrow>
                if tok_currency deployed_xrpl_token \<noteq> xrpl_currency
                then Inl (GwRemoteTokenDeployedCurrencyMismatch token_id (tok_currency deployed_xrpl_token) xrpl_currency)
                else if \<not> token_is_remote (gl_xrpl lib) deployed_xrpl_token xrpl_multisig
                then Inl (GwRemoteTokenDeployedIssuerMismatch token_id (tok_issuer deployed_xrpl_token) xrpl_multisig)
                else Inr (s, False)
            | None \<Rightarrow>
                Inr (save_xrpl_token s token_id \<lparr>tok_issuer = xrpl_multisig, tok_currency = xrpl_currency\<rparr>, True))
       (\<lambda>(s, is_new_token_registration).
     Inr (s, gateway_events (if is_new_token_id \<and> is_new_token_registration
                             then [GwRemoteTokenRegistered token_id \<lparr>tok_issuer = xrpl_multisig, tok_currency = xrpl_currency\<rparr>]
                             else []))))"

record link_token_params =
  ltp_token_manager_type :: u256
  ltp_destination_token_address :: bytes
  ltp_params :: "bytes option"

definition link_token ::
    "gateway_lib \<Rightarrow> gateway_env \<Rightarrow> gateway_state \<Rightarrow> gateway_config \<Rightarrow> token_id \<Rightarrow> chain_name \<Rightarrow> link_token_params \<Rightarrow>
     gateway_error + gateway_response" where
  "link_token lib env s config token_id destination_chain params =
     (if destination_chain = gc_chain_name config then Inl (GwInvalidDestinationChain destination_chain)
      else
        rbind (if token_id = gc_xrp_token_id config then Inr TokenXrp
               else rbind (map_err GwInvalidToken (load_xrpl_token s token_id)) (\<lambda>token. Inr (TokenIssued token))) (\<lambda>xrpl_token.
        rbind (nonempty_bytes (GwInvalidToken GsStorage) (string_bytes (gl_token_serialize lib xrpl_token))) (\<lambda>source_token_address.
        route_hub_message lib env config
          (SendToHub destination_chain (ItsLinkToken
             \<lparr>lt_token_id = token_id, lt_token_manager_type = ltp_token_manager_type params,
              lt_source_token_address = source_token_address,
              lt_destination_token_address = ltp_destination_token_address params, lt_params = ltp_params params\<rparr>))
          (GwLinkTokenStarted token_id destination_chain (ltp_token_manager_type params) source_token_address
             (ltp_destination_token_address params) (ltp_params params)))))"

record token_metadata =
  tmd_name :: string
  tmd_symbol :: string

definition deploy_remote_token ::
    "gateway_lib \<Rightarrow> gateway_env \<Rightarrow> gateway_state \<Rightarrow> gateway_config \<Rightarrow> xrpl_token_or_xrp \<Rightarrow> chain_name \<Rightarrow> token_metadata \<Rightarrow>
     gateway_error + gateway_response" where
  "deploy_remote_token lib env s config token destination_chain token_metadata =
     (if destination_chain = gc_chain_name config then Inl (GwInvalidDestinationChain destination_chain)
      else
        rbind (case token of
                 TokenXrp \<Rightarrow> Inr (gc_xrp_token_id config)
               | TokenIssued xrpl_token \<Rightarrow> map_err GwInvalidToken (load_local_token_id s xrpl_token)) (\<lambda>token_id.
        let destination_decimals = gl_token_decimals lib token in
        route_hub_message lib env config
          (SendToHub destination_chain (ItsDeployInterchainToken
             \<lparr>dt_token_id = token_id, dt_name = tmd_name token_metadata, dt_symbol = tmd_symbol token_metadata,
              dt_decimals = destination_decimals, dt_minter = None\<rparr>))
          (GwInterchainTokenDeploymentStarted token_id (tmd_name token_metadata) (tmd_symbol token_metadata)
             destination_decimals None destination_chain)))"

section \<open>The contract\<close>

definition gw_update_admin :: "gateway_env \<Rightarrow> gateway_state \<Rightarrow> string \<Rightarrow> gateway_response gateway_result" where
  "gw_update_admin env s new_admin_address =
     rbind (ok_or GwFailedToUpdateAdmin (ge_validate_address env new_admin_address)) (\<lambda>new_admin.
     Inr (s\<lparr>gw_permissions := set_admin new_admin (gw_permissions s)\<rparr>, gateway_events []))"

definition gw_disable_execution :: "gateway_state \<Rightarrow> gateway_response gateway_result" where
  "gw_disable_execution s =
     rbind (map_err GwKillswitch (engage GwExecutionDisabledEvent (gw_killswitch s))) (\<lambda>(k, events).
     Inr (s\<lparr>gw_killswitch := k\<rparr>, gateway_events events))"

definition gw_enable_execution :: "gateway_state \<Rightarrow> gateway_response gateway_result" where
  "gw_enable_execution s =
     rbind (map_err GwKillswitch (disengage GwExecutionEnabledEvent (gw_killswitch s))) (\<lambda>(k, events).
     Inr (s\<lparr>gw_killswitch := k\<rparr>, gateway_events events))"

datatype gateway_msg =
    GwRegisterTokenMetadata xrpl_token_or_xrp
  | GwRegisterLocalToken xrpl_token
  | GwRegisterRemoteToken token_id xrpl_currency
  | GwLinkToken token_id chain_name link_token_params
  | GwDeployRemoteToken xrpl_token_or_xrp chain_name token_metadata
  | GwVerifyMessages "xrpl_message list"
  | GwRouteMessages "router_message list"
  | GwRouteIncomingMessages "with_payload list"
  | GwConfirmAddGasMessages "xrpl_add_gas_message list"
  | GwUpdateAdmin string
  | GwEnableExecution
  | GwDisableExecution

definition gateway_permission :: "gateway_config \<Rightarrow> gateway_state \<Rightarrow> addr \<Rightarrow> gateway_msg \<Rightarrow> permission_error + unit" where
  "gateway_permission config s sender msg =
     (case msg of
        GwVerifyMessages _ \<Rightarrow> ensure_permissions (gw_permissions s) sender ([] :: (gateway_error + addr) list) [AnyPermission]
      | GwRouteIncomingMessages _ \<Rightarrow> ensure_permissions (gw_permissions s) sender ([] :: (gateway_error + addr) list) [AnyPermission]
      | GwConfirmAddGasMessages _ \<Rightarrow> ensure_permissions (gw_permissions s) sender ([] :: (gateway_error + addr) list) [AnyPermission]
      | GwRouteMessages _ \<Rightarrow> ensure_permissions (gw_permissions s) sender [Inr (gc_router config) :: gateway_error + addr] []
      | _ \<Rightarrow> ensure_permissions (gw_permissions s) sender ([] :: (gateway_error + addr) list) [Elevated])"

definition gateway_execute ::
    "gateway_lib \<Rightarrow> gateway_env \<Rightarrow> gateway_state \<Rightarrow> addr \<Rightarrow> gateway_msg \<Rightarrow> gateway_response gateway_result" where
  "gateway_execute lib env s sender msg =
     rbind (load_gateway_config s) (\<lambda>config.
     rbind (map_err GwPermission (gateway_permission config s sender msg)) (\<lambda>_.
     let keep = (\<lambda>r. rbind r (\<lambda>out. Inr (s, out))) in
     case msg of
       GwRegisterTokenMetadata xrpl_token \<Rightarrow> keep (register_token_metadata lib env config xrpl_token)
     | GwRegisterLocalToken xrpl_token \<Rightarrow> register_local_token lib s config xrpl_token
     | GwRegisterRemoteToken token_id xrpl_currency \<Rightarrow> register_remote_token lib s (gc_xrpl_multisig config) token_id xrpl_currency
     | GwLinkToken token_id destination_chain params \<Rightarrow> keep (link_token lib env s config token_id destination_chain params)
     | GwDeployRemoteToken xrpl_token destination_chain metadata \<Rightarrow>
         keep (deploy_remote_token lib env s config xrpl_token destination_chain metadata)
     | GwVerifyMessages msgs \<Rightarrow> keep (gw_verify_messages lib env s config msgs)
     | GwRouteMessages msgs \<Rightarrow> route_outgoing_messages lib s msgs (gc_its_hub config) (gc_its_hub_chain_name config)
     | GwRouteIncomingMessages msgs \<Rightarrow> route_incoming_messages lib env s config msgs
     | GwConfirmAddGasMessages msgs \<Rightarrow> confirm_add_gas_messages lib env s config msgs
     | GwUpdateAdmin new_admin_address \<Rightarrow> gw_update_admin env s new_admin_address
     | GwEnableExecution \<Rightarrow> gw_enable_execution s
     | GwDisableExecution \<Rightarrow> gw_disable_execution s))"

definition XRP_ISSUER :: string where "XRP_ISSUER = ''rrrrrrrrrrrrrrrrrrrrrhoLvTp''"

record gateway_instantiate_msg =
  gim_admin_address :: string
  gim_governance_address :: string
  gim_verifier_address :: string
  gim_router_address :: string
  gim_its_hub_address :: string
  gim_its_hub_chain_name :: chain_name
  gim_chain_name :: chain_name
  gim_xrpl_multisig_address :: xrpl_account_id

definition gateway_instantiate ::
    "gateway_lib \<Rightarrow> gateway_env \<Rightarrow> gateway_instantiate_msg \<Rightarrow> gateway_response gateway_result" where
  "gateway_instantiate lib env msg =
     rbind (ok_or GwInvalidAddress (ge_validate_address env (gim_router_address msg))) (\<lambda>router_address.
     rbind (ok_or GwInvalidAddress (ge_validate_address env (gim_verifier_address msg))) (\<lambda>verifier_address.
     rbind (ok_or GwInvalidAddress (ge_validate_address env (gim_its_hub_address msg))) (\<lambda>its_hub.
     rbind (ok_or (GwPanic ''invalid XRP issuer'') (account_id_from_str (gl_xrpl lib) XRP_ISSUER)) (\<lambda>xrp_issuer.
     let xrp_token_id = linked_token_id lib (chain_name_hash_of lib (gim_chain_name msg)) xrp_issuer
                          (currency_hash lib (gl_xrp_currency lib)) in
     rbind (ok_or GwInvalidAddress (ge_validate_address env (gim_admin_address msg))) (\<lambda>admin_address.
     rbind (ok_or GwInvalidAddress (ge_validate_address env (gim_governance_address msg))) (\<lambda>governance_address.
     Inr (\<lparr>gw_config = Some \<lparr>gc_verifier = verifier_address, gc_router = router_address, gc_its_hub = its_hub,
                             gc_its_hub_chain_name = gim_its_hub_chain_name msg, gc_chain_name = gim_chain_name msg,
                             gc_xrpl_multisig = gim_xrpl_multisig_address msg, gc_xrp_token_id = xrp_token_id\<rparr>,
           OUTGOING_MESSAGES = Map.empty, ROUTABLE_MESSAGES_INDEX = None,
           XRPL_CURRENCY_TO_REMOTE_TOKEN_ID = Map.empty, XRPL_TOKEN_TO_LOCAL_TOKEN_ID = Map.empty,
           TOKEN_ID_TO_XRPL_TOKEN = Map.empty, GAS_ACCRUED = Map.empty, GAS_COUNTED = Map.empty,
           gw_permissions = set_governance governance_address (set_admin admin_address \<lparr>admin = None, governance = None\<rparr>),
           gw_killswitch = killswitch_init Disengaged\<rparr>,
          gateway_events [GwLocalTokenRegistered xrp_token_id TokenXrp])))))))"

text \<open>The migration; whether the stored version is the base version is an answer of the crate \<open>cw2\<close>, and \<open>None\<close> its error.\<close>

definition gateway_migrate :: "bool \<Rightarrow> gateway_state \<Rightarrow> gateway_state option" where
  "gateway_migrate is_base_version s =
     (if \<not> is_base_version then None else Some (s\<lparr>gw_killswitch := killswitch_init Disengaged\<rparr>))"

section \<open>Queries\<close>

text \<open>The errors of all messages that are missing are collected.\<close>

definition accumulate_errs ::
    "gateway_state_error list + router_message list \<Rightarrow> gateway_state_error + router_message \<Rightarrow>
     gateway_state_error list + router_message list" where
  "accumulate_errs acc msg =
     (case (acc, msg) of
        (Inr ms, Inr m) \<Rightarrow> Inr (ms @ [m])
      | (Inl errs, Inr _) \<Rightarrow> Inl errs
      | (Inr _, Inl e) \<Rightarrow> Inl [e]
      | (Inl errs, Inl e) \<Rightarrow> Inl (errs @ [e]))"

definition query_outgoing_messages :: "gateway_state \<Rightarrow> cross_chain_id list \<Rightarrow> gateway_error + router_message list" where
  "query_outgoing_messages s cross_chain_ids =
     map_err GwOutgoingMessages (foldl accumulate_errs (Inr []) (map (load_outgoing_message s) cross_chain_ids))"

definition query_xrpl_token :: "gateway_state \<Rightarrow> token_id \<Rightarrow> gateway_error + xrpl_token" where
  "query_xrpl_token s token_id = map_err (GwXrplToken token_id) (load_xrpl_token s token_id)"

definition query_xrp_token_id :: "gateway_state \<Rightarrow> gateway_error + token_id" where
  "query_xrp_token_id s = rbind (load_gateway_config s) (\<lambda>config. Inr (gc_xrp_token_id config))"

definition query_xrpl_token_id :: "gateway_lib \<Rightarrow> gateway_state \<Rightarrow> xrpl_token \<Rightarrow> gateway_error + token_id" where
  "query_xrpl_token_id lib s token =
     rbind (load_gateway_config s) (\<lambda>config.
     map_err (GwXrplTokenId token) (load_token_id lib s (gc_xrpl_multisig config) token))"

definition query_linked_token_id :: "gateway_lib \<Rightarrow> gateway_state \<Rightarrow> xrpl_token \<Rightarrow> gateway_error + token_id" where
  "query_linked_token_id lib s xrpl_token =
     rbind (load_gateway_config s) (\<lambda>config.
     Inr (linked_token_id lib (chain_name_hash_of lib (gc_chain_name config)) (tok_issuer xrpl_token)
            (currency_hash lib (tok_currency xrpl_token))))"

definition query_token_instance_decimals ::
    "gateway_env \<Rightarrow> gateway_state \<Rightarrow> chain_name \<Rightarrow> token_id \<Rightarrow> gateway_error + u8" where
  "query_token_instance_decimals env s chain_name token_id =
     rbind (load_gateway_config s) (\<lambda>config. token_instance_decimals env (gc_its_hub config) chain_name token_id)"

text \<open>The remaining queries show the translations without routing them.\<close>

definition query_interchain_transfer ::
    "gateway_lib \<Rightarrow> gateway_env \<Rightarrow> gateway_state \<Rightarrow> xrpl_interchain_transfer_message \<Rightarrow> bytes option \<Rightarrow>
     gateway_error + interchain_transfer" where
  "query_interchain_transfer lib env s message payload =
     rbind (load_gateway_config s) (\<lambda>config.
     rbind (translate_to_interchain_transfer lib env s config message payload) (\<lambda>(transfer, _). Inr transfer))"

definition query_call_contract ::
    "gateway_lib \<Rightarrow> gateway_state \<Rightarrow> xrpl_call_contract_message \<Rightarrow> bytes \<Rightarrow> gateway_error + call_contract" where
  "query_call_contract lib s message payload =
     rbind (load_gateway_config s) (\<lambda>config. translate_to_call_contract lib s config message payload)"

end
