(* ===== verification/Gateway_Properties.thy ===== *)
theory Gateway_Properties
  imports Xrpl_Gateway Xrpl_Serialize
begin

text \<open>
  What the gateway of XRPL promises in every state it can reach: gas is counted once per transaction, the maps
  of the token registry are inverse to each other, stored outgoing messages come from the ITS hub and never change,
  and what is routed was verified.
\<close>

section \<open>Invariants\<close>

type_synonym gateway_call = "gateway_env \<times> addr \<times> gateway_msg"

definition gateway_step :: "gateway_lib \<Rightarrow> gateway_call \<Rightarrow> gateway_state \<Rightarrow> gateway_error + gateway_state" where
  "gateway_step lib call s = (case call of (env, sender, msg) \<Rightarrow> new_state (gateway_execute lib env s sender msg))"

text \<open>
  The gas that was counted, as a list of transactions with the token and the amount each of them paid: no
  transaction is in it twice, and what is accrued for a token is the sum of its amounts.
\<close>

type_synonym gas_ledger = "(tx_hash \<times> token_id \<times> xrpl_payment_amount) list"

definition paid_in :: "token_id \<Rightarrow> gas_ledger \<Rightarrow> xrpl_payment_amount list" where
  "paid_in t ledger = map (\<lambda>(_, _, gas). gas) (filter (\<lambda>(_, t', _). t' = t) ledger)"

definition accrued :: "gateway_lib \<Rightarrow> xrpl_payment_amount list \<Rightarrow> xrpl_payment_amount option \<Rightarrow> bool" where
  "accrued lib amounts acc \<longleftrightarrow>
     (case amounts of
        [] \<Rightarrow> acc = None
      | g # gs \<Rightarrow> (\<exists>acc'. try_fold (gl_payment_amount_add lib) g gs = Inr acc' \<and> acc = Some acc'))"

definition gas_ledger_ok :: "gateway_lib \<Rightarrow> gateway_state \<Rightarrow> gas_ledger \<Rightarrow> bool" where
  "gas_ledger_ok lib s ledger \<longleftrightarrow>
     distinct (map fst ledger) \<and> fst ` set ledger = dom (GAS_COUNTED s) \<and>
     (\<forall>(_, _, gas) \<in> set ledger. \<not> payment_amount_is_zero (gl_xrpl lib) gas) \<and>
     (\<forall>t. accrued lib (paid_in t ledger) (GAS_ACCRUED s t))"

definition local_token_id :: "gateway_lib \<Rightarrow> gateway_config \<Rightarrow> xrpl_token \<Rightarrow> token_id" where
  "local_token_id lib config tok =
     linked_token_id lib (chain_name_hash_of lib (gc_chain_name config)) (tok_issuer tok) (currency_hash lib (tok_currency tok))"

text \<open>The three maps of the registry agree; \<open>m\<close> is the account of the multisig.\<close>

definition registry_ok :: "gateway_lib \<Rightarrow> gateway_config \<Rightarrow> gateway_state \<Rightarrow> bool" where
  "registry_ok lib config s \<longleftrightarrow>
     (\<forall>tok t. XRPL_TOKEN_TO_LOCAL_TOKEN_ID s tok = Some t \<longrightarrow>
        tok_issuer tok \<noteq> gc_xrpl_multisig config \<and> TOKEN_ID_TO_XRPL_TOKEN s t = Some tok \<and>
        t = local_token_id lib config tok) \<and>
     (\<forall>c t. XRPL_CURRENCY_TO_REMOTE_TOKEN_ID s c = Some t \<longrightarrow>
        TOKEN_ID_TO_XRPL_TOKEN s t = Some \<lparr>tok_issuer = gc_xrpl_multisig config, tok_currency = c\<rparr>) \<and>
     (\<forall>t tok. TOKEN_ID_TO_XRPL_TOKEN s t = Some tok \<longrightarrow>
        (if tok_issuer tok = gc_xrpl_multisig config then XRPL_CURRENCY_TO_REMOTE_TOKEN_ID s (tok_currency tok) = Some t
         else XRPL_TOKEN_TO_LOCAL_TOKEN_ID s tok = Some t))"

definition outgoing_ok :: "gateway_config \<Rightarrow> gateway_state \<Rightarrow> bool" where
  "outgoing_ok config s \<longleftrightarrow>
     (\<forall>cc_id m. OUTGOING_MESSAGES s cc_id = Some m \<longrightarrow>
        msg_cc_id m = cc_id \<and> msg_source_address m = gc_its_hub config \<and> source_chain cc_id = gc_its_hub_chain_name config)"

text \<open>What \<open>XRPLToken::is_local\<close> and \<open>XRPLToken::is_remote\<close> decide: whether the multisig issues the token.\<close>

definition token_laws :: "gateway_lib \<Rightarrow> bool" where
  "token_laws lib \<longleftrightarrow>
     (\<forall>tok m. token_is_remote (gl_xrpl lib) tok m \<longleftrightarrow> tok_issuer tok = m) \<and>
     (\<forall>tok m. gl_token_is_local lib tok m \<longleftrightarrow> tok_issuer tok \<noteq> m)"

definition gateway_inv :: "gateway_lib \<Rightarrow> gateway_state \<Rightarrow> bool" where
  "gateway_inv lib s \<longleftrightarrow>
     (\<exists>config. gw_config s = Some config \<and> outgoing_ok config s \<and> (token_laws lib \<longrightarrow> registry_ok lib config s)) \<and>
     (\<exists>ledger. gas_ledger_ok lib s ledger)"

lemma gateway_inv_cong:
  assumes "gateway_inv lib s" "gw_config s' = gw_config s" "OUTGOING_MESSAGES s' = OUTGOING_MESSAGES s"
    "XRPL_CURRENCY_TO_REMOTE_TOKEN_ID s' = XRPL_CURRENCY_TO_REMOTE_TOKEN_ID s"
    "XRPL_TOKEN_TO_LOCAL_TOKEN_ID s' = XRPL_TOKEN_TO_LOCAL_TOKEN_ID s" "TOKEN_ID_TO_XRPL_TOKEN s' = TOKEN_ID_TO_XRPL_TOKEN s"
    "GAS_ACCRUED s' = GAS_ACCRUED s" "GAS_COUNTED s' = GAS_COUNTED s"
  shows "gateway_inv lib s'"
  using assms(1) unfolding gateway_inv_def outgoing_ok_def registry_ok_def gas_ledger_ok_def assms(2-8) .

subsection \<open>Gas\<close>

lemma paid_in_snoc [simp]:
  "paid_in t (ledger @ [(tx, t', gas)]) = paid_in t ledger @ (if t' = t then [gas] else [])"
  by (simp add: paid_in_def)

lemma accrued_snoc:
  assumes "accrued lib amounts acc" "(case acc of Some g \<Rightarrow> gl_payment_amount_add lib g gas | None \<Rightarrow> Inr gas) = Inr acc'"
  shows "accrued lib (amounts @ [gas]) (Some acc')"
  using assms by (cases amounts) (auto simp: accrued_def try_fold_append result_simps)

lemma count_gas_Inr:
  assumes "count_gas lib s tx t gas = Inr s'"
  shows "s' = s \<or> (GAS_COUNTED s tx = None \<and> \<not> payment_amount_is_zero (gl_xrpl lib) gas \<and>
    (\<exists>acc'. (case GAS_ACCRUED s t of Some g \<Rightarrow> gl_payment_amount_add lib g gas | None \<Rightarrow> Inr gas) = Inr acc' \<and>
       s' = s\<lparr>GAS_ACCRUED := (GAS_ACCRUED s)(t \<mapsto> acc'), GAS_COUNTED := (GAS_COUNTED s)(tx \<mapsto> ())\<rparr>))"
  using assms
  by (cases "GAS_COUNTED s tx") (auto simp: count_gas_def increment_gas_def gas_counted_def mark_gas_counted_def result_simps split: if_splits option.splits)

lemma count_gas_ledger:
  assumes "gas_ledger_ok lib s ledger" "count_gas lib s tx t gas = Inr s'"
  shows "\<exists>ledger. gas_ledger_ok lib s' ledger"
  using count_gas_Inr [OF assms(2)]
proof
  assume "GAS_COUNTED s tx = None \<and> \<not> payment_amount_is_zero (gl_xrpl lib) gas \<and>
    (\<exists>acc'. (case GAS_ACCRUED s t of Some g \<Rightarrow> gl_payment_amount_add lib g gas | None \<Rightarrow> Inr gas) = Inr acc' \<and>
       s' = s\<lparr>GAS_ACCRUED := (GAS_ACCRUED s)(t \<mapsto> acc'), GAS_COUNTED := (GAS_COUNTED s)(tx \<mapsto> ())\<rparr>)"
  then obtain acc' where c: "GAS_COUNTED s tx = None" "\<not> payment_amount_is_zero (gl_xrpl lib) gas"
      "(case GAS_ACCRUED s t of Some g \<Rightarrow> gl_payment_amount_add lib g gas | None \<Rightarrow> Inr gas) = Inr acc'"
      "s' = s\<lparr>GAS_ACCRUED := (GAS_ACCRUED s)(t \<mapsto> acc'), GAS_COUNTED := (GAS_COUNTED s)(tx \<mapsto> ())\<rparr>"
    by blast
  have "accrued lib (paid_in t ledger @ [gas]) (Some acc')"
    using assms(1) c(3) by (intro accrued_snoc) (auto simp: gas_ledger_ok_def)
  then have "gas_ledger_ok lib s' (ledger @ [(tx, t, gas)])"
    using assms(1) c by (auto simp: gas_ledger_ok_def)
  then show ?thesis ..
qed (use assms(1) in auto)

lemma count_gas_keeps:
  assumes "count_gas lib s tx t gas = Inr s'"
  shows "\<exists>A C. s' = s\<lparr>GAS_ACCRUED := A, GAS_COUNTED := C\<rparr>"
  using count_gas_Inr [OF assms]
proof
  assume "s' = s"
  then have "s' = s\<lparr>GAS_ACCRUED := GAS_ACCRUED s, GAS_COUNTED := GAS_COUNTED s\<rparr>" by simp
  then show ?thesis by blast
qed blast

lemma count_gas_inv:
  assumes "gateway_inv lib s" "count_gas lib s tx t gas = Inr s'"
  shows "gateway_inv lib s'"
proof -
  from assms(1) obtain ledger where "gas_ledger_ok lib s ledger" by (auto simp: gateway_inv_def)
  then have "\<exists>ledger. gas_ledger_ok lib s' ledger" using assms(2) by (rule count_gas_ledger)
  moreover from count_gas_keeps [OF assms(2)] obtain A C where "s' = s\<lparr>GAS_ACCRUED := A, GAS_COUNTED := C\<rparr>" by blast
  moreover from this have "outgoing_ok c s' = outgoing_ok c s" "registry_ok lib c s' = registry_ok lib c s" "gw_config s' = gw_config s" for c
    by (simp_all add: outgoing_ok_def registry_ok_def)
  ultimately show ?thesis using assms(1) by (simp only: gateway_inv_def)
qed

lemma route_incoming_message_inv:
  assumes "gateway_inv lib s" "route_incoming_message lib env config status s msg = Inr (s', out)"
  shows "gateway_inv lib s'"
  using assms by (auto simp: route_incoming_message_def result_simps split: xrpl_message.splits if_splits intro: count_gas_inv)

lemma route_incoming_group_inv:
  assumes "gateway_inv lib (fst acc)" "route_incoming_group lib env config acc batch = Inr acc'"
  shows "gateway_inv lib (fst acc')"
proof -
  obtain s route_msgs events status msgs where a: "acc = (s, route_msgs, events)" "batch = (status, msgs)"
    by (cases acc, cases batch) auto
  with assms(2) obtain s' to_route events' where f: "try_fold (\<lambda>(s, to_route, events) msg.
      rbind (route_incoming_message lib env config status s msg) (\<lambda>(s, m, event).
      Inr (case m of None \<Rightarrow> (s, to_route, events)
           | Some m \<Rightarrow> (s, to_route @ [mwp_message m], events @ routing_events status m event)))) (s, [], events) msgs =
      Inr (s', to_route, events')" "fst acc' = s'"
    by (auto simp: route_incoming_group_def result_simps)
  have "gateway_inv lib (fst (s', to_route, events'))"
  proof (rule try_fold_invariant [OF f(1)])
    show "gateway_inv lib (fst (s, [], events))" using assms(1) a by simp
    fix x acc acc'
    assume "gateway_inv lib (fst acc)"
      and "(case acc of (s, to_route, events) \<Rightarrow> \<lambda>msg.
        rbind (route_incoming_message lib env config status s msg) (\<lambda>(s, m, event).
        Inr (case m of None \<Rightarrow> (s, to_route, events)
           | Some m \<Rightarrow> (s, to_route @ [mwp_message m], events @ routing_events status m event)))) x = Inr acc'"
    then show "gateway_inv lib (fst acc')"
      using route_incoming_message_inv [of lib "fst acc" env config status x]
      by (cases acc) (auto simp: rbind_Inr_iff split: option.splits)
  qed
  with f(2) show ?thesis by simp
qed

lemma route_incoming_messages_inv:
  assumes "gateway_inv lib s" "route_incoming_messages lib env s config msgs = Inr (s', out)"
  shows "gateway_inv lib s'"
proof -
  from assms(2) obtain groups route_msgs events where
    f: "try_fold (route_incoming_group lib env config) (s, [], []) groups = Inr (s', route_msgs, events)"
    by (auto simp: route_incoming_messages_def result_simps)
  have "gateway_inv lib (fst (s', route_msgs, events))"
    by (rule try_fold_invariant [OF f]) (use assms(1) in \<open>auto intro: route_incoming_group_inv\<close>)
  then show ?thesis by simp
qed

lemma confirm_add_gas_messages_inv:
  assumes "gateway_inv lib s" "confirm_add_gas_messages lib env s config msgs = Inr (s', out)"
  shows "gateway_inv lib s'"
proof -
  from assms(2) obtain ms :: "xrpl_add_gas_message list" where f: "try_fold (\<lambda>s msg.
      rbind (gw_payment_amount_to_token_id lib s config (agm_amount msg)) (\<lambda>token_id.
      map_err GwState (count_gas lib s (agm_tx_id msg) token_id (agm_amount msg)))) s ms = Inr s'"
    by (auto simp: confirm_add_gas_messages_def Let_def rbind_Inr_iff)
  show ?thesis
    by (rule try_fold_invariant [OF f]) (use assms(1) in \<open>auto simp: result_simps intro: count_gas_inv\<close>)
qed

subsection \<open>Outgoing messages\<close>

lemma save_outgoing_message_Inr:
  "save_outgoing_message lib s cc_id m = Inr s' \<longleftrightarrow>
     (case OUTGOING_MESSAGES s cc_id of
        Some existing \<Rightarrow> router_message_hash (gl_xrpl lib) m = router_message_hash (gl_xrpl lib) existing \<and> s' = s
      | None \<Rightarrow> s' = s\<lparr>OUTGOING_MESSAGES := (OUTGOING_MESSAGES s)(cc_id \<mapsto> m)\<rparr>)"
  by (auto simp: save_outgoing_message_def split: option.splits if_splits)

lemma route_outgoing_messages_effect:
  assumes "route_outgoing_messages lib s msgs its_hub its_chain = Inr (s', out)"
  shows "\<exists>M. s' = s\<lparr>OUTGOING_MESSAGES := M\<rparr> \<and> OUTGOING_MESSAGES s \<subseteq>\<^sub>m M \<and>
    (\<forall>cc_id m. M cc_id = Some m \<longrightarrow> OUTGOING_MESSAGES s cc_id = Some m \<or>
       m \<in> set msgs \<and> msg_cc_id m = cc_id \<and> msg_source_address m = its_hub \<and> source_chain cc_id = its_chain)"
proof -
  let ?f = "\<lambda>s msg.
    if msg_source_address msg \<noteq> its_hub then Inl (GwOnlyFromItsHub (msg_cc_id msg))
    else if source_chain (msg_cc_id msg) \<noteq> its_chain then Inl (GwOnlyFromItsHubChain (msg_cc_id msg))
    else map_err GwSaveOutgoingMessage (save_outgoing_message lib s (msg_cc_id msg) msg)"
  let ?P = "\<lambda>t. \<exists>M. t = s\<lparr>OUTGOING_MESSAGES := M\<rparr> \<and> OUTGOING_MESSAGES s \<subseteq>\<^sub>m M \<and>
    (\<forall>cc_id m. M cc_id = Some m \<longrightarrow> OUTGOING_MESSAGES s cc_id = Some m \<or>
       m \<in> set msgs \<and> msg_cc_id m = cc_id \<and> msg_source_address m = its_hub \<and> source_chain cc_id = its_chain)"
  have f: "try_fold ?f s msgs = Inr s'"
    using assms by (auto simp: route_outgoing_messages_def check_for_duplicates_def result_simps split: if_splits)
  have "?P u" if x: "x \<in> set msgs" and t: "?P t" and u: "?f t x = Inr u" for t x u
  proof -
    from t obtain M where M: "t = s\<lparr>OUTGOING_MESSAGES := M\<rparr>" "OUTGOING_MESSAGES s \<subseteq>\<^sub>m M"
      "\<forall>cc_id m. M cc_id = Some m \<longrightarrow> OUTGOING_MESSAGES s cc_id = Some m \<or>
         m \<in> set msgs \<and> msg_cc_id m = cc_id \<and> msg_source_address m = its_hub \<and> source_chain cc_id = its_chain"
      by blast
    from u have hub: "msg_source_address x = its_hub" "source_chain (msg_cc_id x) = its_chain"
      and sv: "save_outgoing_message lib t (msg_cc_id x) x = Inr u"
      by (auto simp: result_simps)
    show ?thesis
    proof (cases "M (msg_cc_id x)")
      case None
      with sv M(1) have "u = s\<lparr>OUTGOING_MESSAGES := M(msg_cc_id x \<mapsto> x)\<rparr>" by (simp add: save_outgoing_message_Inr)
      moreover have "OUTGOING_MESSAGES s \<subseteq>\<^sub>m M(msg_cc_id x \<mapsto> x)"
        using M(2) None by (auto simp: map_le_def dom_def)
      ultimately show ?thesis using M(3) hub x by (intro exI [of _ "M(msg_cc_id x \<mapsto> x)"]) auto
    next
      case (Some m)
      with sv M(1) have "u = t" by (simp add: save_outgoing_message_Inr)
      with t show ?thesis by simp
    qed
  qed
  then show ?thesis
    by (intro try_fold_invariant [OF f, of ?P]) (auto intro: exI [of _ "OUTGOING_MESSAGES s"])
qed

lemma route_outgoing_messages_inv:
  assumes "gateway_inv lib s" "gw_config s = Some config"
    "route_outgoing_messages lib s msgs (gc_its_hub config) (gc_its_hub_chain_name config) = Inr (s', out)"
  shows "gateway_inv lib s'"
proof -
  from route_outgoing_messages_effect [OF assms(3)] obtain M where M: "s' = s\<lparr>OUTGOING_MESSAGES := M\<rparr>"
    "\<forall>cc_id m. M cc_id = Some m \<longrightarrow> OUTGOING_MESSAGES s cc_id = Some m \<or>
       m \<in> set msgs \<and> msg_cc_id m = cc_id \<and> msg_source_address m = gc_its_hub config \<and>
       source_chain cc_id = gc_its_hub_chain_name config"
    by blast
  from assms(1,2) have "outgoing_ok config s" by (simp add: gateway_inv_def)
  with M have "outgoing_ok config s'" by (auto simp: outgoing_ok_def)
  moreover have "registry_ok lib config s' = registry_ok lib config s" "gas_ledger_ok lib s' = gas_ledger_ok lib s"
    "gw_config s' = gw_config s"
    using M(1) by (auto simp: registry_ok_def gas_ledger_ok_def fun_eq_iff)
  ultimately show ?thesis using assms(1,2) by (simp add: gateway_inv_def)
qed

subsection \<open>The registry\<close>

lemma registry_local:
  "registry_ok lib config s \<Longrightarrow> XRPL_TOKEN_TO_LOCAL_TOKEN_ID s tok = Some t \<Longrightarrow>
     tok_issuer tok \<noteq> gc_xrpl_multisig config \<and> TOKEN_ID_TO_XRPL_TOKEN s t = Some tok \<and> t = local_token_id lib config tok"
  unfolding registry_ok_def by blast

lemma registry_remote:
  "registry_ok lib config s \<Longrightarrow> XRPL_CURRENCY_TO_REMOTE_TOKEN_ID s c = Some t \<Longrightarrow>
     TOKEN_ID_TO_XRPL_TOKEN s t = Some \<lparr>tok_issuer = gc_xrpl_multisig config, tok_currency = c\<rparr>"
  unfolding registry_ok_def by blast

lemma registry_token:
  "registry_ok lib config s \<Longrightarrow> TOKEN_ID_TO_XRPL_TOKEN s t = Some tok \<Longrightarrow>
     (if tok_issuer tok = gc_xrpl_multisig config then XRPL_CURRENCY_TO_REMOTE_TOKEN_ID s (tok_currency tok) = Some t
      else XRPL_TOKEN_TO_LOCAL_TOKEN_ID s tok = Some t)"
  unfolding registry_ok_def by blast

text \<open>A registration either finds the token registered as it is, or enters it into both of its maps.\<close>

lemma register_local_token_effect:
  assumes "register_local_token lib s config tok = Inr (s', out)" "registry_ok lib config s" "token_laws lib"
  defines "t \<equiv> local_token_id lib config tok"
  shows "tok_issuer tok \<noteq> gc_xrpl_multisig config \<and>
    (s' = s \<and> TOKEN_ID_TO_XRPL_TOKEN s t = Some tok \<or>
     TOKEN_ID_TO_XRPL_TOKEN s t = None \<and> XRPL_TOKEN_TO_LOCAL_TOKEN_ID s tok = None \<and>
     s' = s\<lparr>XRPL_TOKEN_TO_LOCAL_TOKEN_ID := (XRPL_TOKEN_TO_LOCAL_TOKEN_ID s)(tok \<mapsto> t),
            TOKEN_ID_TO_XRPL_TOKEN := (TOKEN_ID_TO_XRPL_TOKEN s)(t \<mapsto> tok)\<rparr>)"
proof -
  have l: "gl_token_is_local lib tok (gc_xrpl_multisig config)"
    using assms(1) by (simp add: register_local_token_def split: if_splits)
  then have issuer: "tok_issuer tok \<noteq> gc_xrpl_multisig config" using assms(3) by (simp add: token_laws_def)
  have reg: "rbind (case XRPL_TOKEN_TO_LOCAL_TOKEN_ID s tok of
        Some u \<Rightarrow> if u \<noteq> t then Inl (GwLocalTokenDeployedIdMismatch tok u t) else Inr (s, False)
      | None \<Rightarrow> Inr (save_local_token_id s tok t, True)) (\<lambda>(s, is_new_token_id).
      rbind (case TOKEN_ID_TO_XRPL_TOKEN s t of
          Some tok' \<Rightarrow> if tok' \<noteq> tok then Inl (GwLocalTokenDeployedMismatch t tok' tok) else Inr (s, False)
        | None \<Rightarrow> Inr (save_xrpl_token s t tok, True)) (\<lambda>(s, is_new_token_registration).
      Inr (s, gateway_events (if is_new_token_id \<and> is_new_token_registration
                              then [GwLocalTokenRegistered t (TokenIssued tok)] else [])))) = Inr (s', out)"
    using assms(1) l unfolding register_local_token_def t_def local_token_id_def Let_def by simp
  show ?thesis
  proof (cases "XRPL_TOKEN_TO_LOCAL_TOKEN_ID s tok")
    case None
    then have "TOKEN_ID_TO_XRPL_TOKEN s t \<noteq> Some tok" using registry_token [OF assms(2), of t tok] issuer by auto
    with None issuer reg l show ?thesis
      by (cases "TOKEN_ID_TO_XRPL_TOKEN s t") (simp_all add: save_local_token_id_def save_xrpl_token_def)
  next
    case (Some u)
    with registry_local [OF assms(2) Some] have "u = t" "TOKEN_ID_TO_XRPL_TOKEN s t = Some tok" by (auto simp: t_def)
    with Some issuer reg l show ?thesis by simp
  qed
qed

lemma register_remote_token_effect:
  assumes "register_remote_token lib s (gc_xrpl_multisig config) t c = Inr (s', out)" "registry_ok lib config s" "token_laws lib"
  defines "tok \<equiv> \<lparr>tok_issuer = gc_xrpl_multisig config, tok_currency = c\<rparr>"
  shows "s' = s \<and> TOKEN_ID_TO_XRPL_TOKEN s t = Some tok \<or>
     TOKEN_ID_TO_XRPL_TOKEN s t = None \<and> XRPL_CURRENCY_TO_REMOTE_TOKEN_ID s c = None \<and>
     s' = s\<lparr>XRPL_CURRENCY_TO_REMOTE_TOKEN_ID := (XRPL_CURRENCY_TO_REMOTE_TOKEN_ID s)(c \<mapsto> t),
            TOKEN_ID_TO_XRPL_TOKEN := (TOKEN_ID_TO_XRPL_TOKEN s)(t \<mapsto> tok)\<rparr>"
proof (cases "XRPL_CURRENCY_TO_REMOTE_TOKEN_ID s c")
  case None
  show ?thesis
  proof (cases "TOKEN_ID_TO_XRPL_TOKEN s t")
    case None
    with \<open>XRPL_CURRENCY_TO_REMOTE_TOKEN_ID s c = None\<close> assms(1) show ?thesis
      by (simp add: register_remote_token_def tok_def save_remote_token_id_def save_xrpl_token_def)
  next
    case (Some tok')
    with None assms(1,3) have "tok_currency tok' = c" "tok_issuer tok' = gc_xrpl_multisig config"
      by (simp_all add: register_remote_token_def save_remote_token_id_def token_laws_def if_Inr_iff split: if_splits)
    with registry_token [OF assms(2) Some] have "XRPL_CURRENCY_TO_REMOTE_TOKEN_ID s c = Some t" by simp
    with None show ?thesis by simp
  qed
next
  case (Some u)
  with assms(1) have u: "u = t" by (simp add: register_remote_token_def rbind_Inr_iff split: if_splits)
  with registry_remote [OF assms(2) Some] have "TOKEN_ID_TO_XRPL_TOKEN s t = Some tok" by (simp add: tok_def)
  with Some u assms(1,3) show ?thesis
    by (simp add: register_remote_token_def token_laws_def tok_def)
qed

lemma registry_okI:
  assumes "\<And>tok t. XRPL_TOKEN_TO_LOCAL_TOKEN_ID s tok = Some t \<Longrightarrow>
      tok_issuer tok \<noteq> gc_xrpl_multisig config \<and> TOKEN_ID_TO_XRPL_TOKEN s t = Some tok \<and> t = local_token_id lib config tok"
    and "\<And>c t. XRPL_CURRENCY_TO_REMOTE_TOKEN_ID s c = Some t \<Longrightarrow>
      TOKEN_ID_TO_XRPL_TOKEN s t = Some \<lparr>tok_issuer = gc_xrpl_multisig config, tok_currency = c\<rparr>"
    and "\<And>t tok. TOKEN_ID_TO_XRPL_TOKEN s t = Some tok \<Longrightarrow>
      (if tok_issuer tok = gc_xrpl_multisig config then XRPL_CURRENCY_TO_REMOTE_TOKEN_ID s (tok_currency tok) = Some t
       else XRPL_TOKEN_TO_LOCAL_TOKEN_ID s tok = Some t)"
  shows "registry_ok lib config s"
  unfolding registry_ok_def using assms by blast

lemma registry_ok_local_insert:
  assumes ok: "registry_ok lib config s" and issuer: "tok_issuer tok \<noteq> gc_xrpl_multisig config"
    and new: "TOKEN_ID_TO_XRPL_TOKEN s (local_token_id lib config tok) = None" "XRPL_TOKEN_TO_LOCAL_TOKEN_ID s tok = None"
  shows "registry_ok lib config (s\<lparr>
    XRPL_TOKEN_TO_LOCAL_TOKEN_ID := (XRPL_TOKEN_TO_LOCAL_TOKEN_ID s)(tok \<mapsto> local_token_id lib config tok),
    TOKEN_ID_TO_XRPL_TOKEN := (TOKEN_ID_TO_XRPL_TOKEN s)(local_token_id lib config tok \<mapsto> tok)\<rparr>)"
    (is "registry_ok lib config ?s")
proof (rule registry_okI)
  fix x t assume "XRPL_TOKEN_TO_LOCAL_TOKEN_ID ?s x = Some t"
  then show "tok_issuer x \<noteq> gc_xrpl_multisig config \<and> TOKEN_ID_TO_XRPL_TOKEN ?s t = Some x \<and> t = local_token_id lib config x"
    using registry_local [OF ok, of x t] issuer new(1) by (cases "x = tok") auto
next
  fix c t assume "XRPL_CURRENCY_TO_REMOTE_TOKEN_ID ?s c = Some t"
  then show "TOKEN_ID_TO_XRPL_TOKEN ?s t = Some \<lparr>tok_issuer = gc_xrpl_multisig config, tok_currency = c\<rparr>"
    using registry_remote [OF ok, of c t] new(1) by auto
next
  fix t x assume "TOKEN_ID_TO_XRPL_TOKEN ?s t = Some x"
  then show "if tok_issuer x = gc_xrpl_multisig config then XRPL_CURRENCY_TO_REMOTE_TOKEN_ID ?s (tok_currency x) = Some t
      else XRPL_TOKEN_TO_LOCAL_TOKEN_ID ?s x = Some t"
    using registry_token [OF ok, of t x] issuer new(2) by (cases "t = local_token_id lib config tok") (auto split: if_splits)
qed

lemma registry_ok_remote_insert:
  assumes ok: "registry_ok lib config s"
    and new: "TOKEN_ID_TO_XRPL_TOKEN s t = None" "XRPL_CURRENCY_TO_REMOTE_TOKEN_ID s c = None"
  shows "registry_ok lib config (s\<lparr>
    XRPL_CURRENCY_TO_REMOTE_TOKEN_ID := (XRPL_CURRENCY_TO_REMOTE_TOKEN_ID s)(c \<mapsto> t),
    TOKEN_ID_TO_XRPL_TOKEN := (TOKEN_ID_TO_XRPL_TOKEN s)(t \<mapsto> \<lparr>tok_issuer = gc_xrpl_multisig config, tok_currency = c\<rparr>)\<rparr>)"
    (is "registry_ok lib config ?s")
proof (rule registry_okI)
  fix x u assume "XRPL_TOKEN_TO_LOCAL_TOKEN_ID ?s x = Some u"
  then show "tok_issuer x \<noteq> gc_xrpl_multisig config \<and> TOKEN_ID_TO_XRPL_TOKEN ?s u = Some x \<and> u = local_token_id lib config x"
    using registry_local [OF ok, of x u] new(1) by auto
next
  fix d u assume "XRPL_CURRENCY_TO_REMOTE_TOKEN_ID ?s d = Some u"
  then show "TOKEN_ID_TO_XRPL_TOKEN ?s u = Some \<lparr>tok_issuer = gc_xrpl_multisig config, tok_currency = d\<rparr>"
    using registry_remote [OF ok, of d u] new(1) by (cases "d = c") auto
next
  fix u x assume "TOKEN_ID_TO_XRPL_TOKEN ?s u = Some x"
  then show "if tok_issuer x = gc_xrpl_multisig config then XRPL_CURRENCY_TO_REMOTE_TOKEN_ID ?s (tok_currency x) = Some u
      else XRPL_TOKEN_TO_LOCAL_TOKEN_ID ?s x = Some u"
    using registry_token [OF ok, of u x] new(2) by (cases "u = t") (auto split: if_splits)
qed

text \<open>What a registration leaves alone, whatever the maps of the registry hold.\<close>

definition outside_registry ::
    "gateway_state \<Rightarrow> gateway_config option \<times> (cross_chain_id \<rightharpoonup> router_message) \<times> (token_id \<rightharpoonup> xrpl_payment_amount) \<times> (tx_hash \<rightharpoonup> unit)" where
  "outside_registry s = (gw_config s, OUTGOING_MESSAGES s, GAS_ACCRUED s, GAS_COUNTED s)"

lemma outside_registry_saves [simp]:
  "outside_registry (save_xrpl_token s t tok) = outside_registry s"
  "outside_registry (save_local_token_id s tok t) = outside_registry s"
  "outside_registry (save_remote_token_id s c t) = outside_registry s"
  by (simp_all add: outside_registry_def save_xrpl_token_def save_local_token_id_def save_remote_token_id_def)

lemma case_option_Inr_iff:
  "(case m of None \<Rightarrow> f | Some x \<Rightarrow> g x) = Inr y \<longleftrightarrow> m = None \<and> f = Inr y \<or> (\<exists>x. m = Some x \<and> g x = Inr y)"
  by (cases m) auto

lemma register_local_token_keeps:
  assumes "register_local_token lib s config tok = Inr (s', out)"
  shows "outside_registry s' = outside_registry s"
  using assms unfolding register_local_token_def Let_def
  by (auto simp only: rbind_Inr_iff if_Inr_iff case_option_Inr_iff case_prod_beta fst_conv snd_conv sum.inject prod.inject
      outside_registry_saves)

lemma register_remote_token_keeps:
  assumes "register_remote_token lib s m t c = Inr (s', out)"
  shows "outside_registry s' = outside_registry s"
  using assms unfolding register_remote_token_def
  by (auto simp only: rbind_Inr_iff if_Inr_iff case_option_Inr_iff case_prod_beta fst_conv snd_conv sum.inject prod.inject
      outside_registry_saves)

lemma register_token_inv:
  assumes inv: "gateway_inv lib s" and config: "gw_config s = Some config"
    and reg: "register_local_token lib s config tok = Inr (s', out) \<or>
      register_remote_token lib s (gc_xrpl_multisig config) t c = Inr (s', out)"
  shows "gateway_inv lib s'"
proof -
  from reg have keeps: "outside_registry s' = outside_registry s"
    using register_local_token_keeps register_remote_token_keeps by blast
  then have same: "gw_config s' = gw_config s" "outgoing_ok config s' = outgoing_ok config s" "gas_ledger_ok lib s' = gas_ledger_ok lib s"
    by (simp_all add: outside_registry_def outgoing_ok_def gas_ledger_ok_def [abs_def])
  have "registry_ok lib config s'" if laws: "token_laws lib"
  proof -
    from inv config laws have ok: "registry_ok lib config s" by (auto simp: gateway_inv_def)
    from reg show ?thesis
    proof
      assume "register_local_token lib s config tok = Inr (s', out)"
      from register_local_token_effect [OF this ok laws] ok show ?thesis by (auto intro: registry_ok_local_insert)
    next
      assume "register_remote_token lib s (gc_xrpl_multisig config) t c = Inr (s', out)"
      from register_remote_token_effect [OF this ok laws] ok show ?thesis by (auto intro: registry_ok_remote_insert)
    qed
  qed
  with same inv config show ?thesis by (auto simp: gateway_inv_def)
qed

subsection \<open>Calls\<close>

lemma gateway_execute_Inr:
  assumes "gateway_execute lib env s sender msg = Inr (s', out)"
  obtains config where "gw_config s = Some config" "gateway_permission config s sender msg = Inr ()"
  using assms by (auto simp: gateway_execute_def load_gateway_config_def result_simps)

text \<open>The calls that only answer leave the state as it is.\<close>

definition stateless :: "gateway_msg \<Rightarrow> bool" where
  "stateless msg \<longleftrightarrow>
     (case msg of GwRegisterTokenMetadata _ \<Rightarrow> True | GwLinkToken _ _ _ \<Rightarrow> True | GwDeployRemoteToken _ _ _ \<Rightarrow> True
      | GwVerifyMessages _ \<Rightarrow> True | _ \<Rightarrow> False)"

lemma gateway_execute_stateless:
  assumes "gateway_execute lib env s sender msg = Inr (s', out)" "stateless msg"
  shows "s' = s"
  using assms by (cases msg) (auto simp: gateway_execute_def stateless_def result_simps)

lemma gateway_execute_inv:
  assumes inv: "gateway_inv lib s" and ex: "gateway_execute lib env s sender msg = Inr (s', out)"
  shows "gateway_inv lib s'"
proof -
  from ex obtain config where config: "gw_config s = Some config" by (rule gateway_execute_Inr)
  note ex = ex [unfolded gateway_execute_def load_gateway_config_def config ok_or_simps rbind_simps rbind_Inr_iff Let_def]
  show ?thesis
  proof (cases msg)
    case (GwRegisterLocalToken tok)
    with ex have "register_local_token lib s config tok = Inr (s', out)" by simp
    then show ?thesis by (rule register_token_inv [OF inv config disjI1])
  next
    case (GwRegisterRemoteToken t c)
    with ex have "register_remote_token lib s (gc_xrpl_multisig config) t c = Inr (s', out)" by simp
    then show ?thesis by (rule register_token_inv [OF inv config disjI2])
  next
    case (GwRouteMessages msgs)
    with ex route_outgoing_messages_inv [OF inv config] show ?thesis by auto
  next
    case (GwUpdateAdmin a)
    with ex have "\<exists>p. s' = s\<lparr>gw_permissions := p\<rparr>" by (auto simp: gw_update_admin_def result_simps)
    then show ?thesis using gateway_inv_cong [OF inv] by auto
  next
    case GwEnableExecution
    with ex have "\<exists>k. s' = s\<lparr>gw_killswitch := k\<rparr>" by (auto simp: gw_enable_execution_def result_simps)
    then show ?thesis using gateway_inv_cong [OF inv] by auto
  next
    case GwDisableExecution
    with ex have "\<exists>k. s' = s\<lparr>gw_killswitch := k\<rparr>" by (auto simp: gw_disable_execution_def result_simps)
    then show ?thesis using gateway_inv_cong [OF inv] by auto
  qed (use ex inv in \<open>auto simp: rbind_Inr_iff intro: route_incoming_messages_inv confirm_add_gas_messages_inv\<close>)
qed

interpretation gw: contract_invariant "gateway_step lib" "gateway_inv lib" for lib
  by unfold_locales (auto simp: gateway_step_def result_simps intro: gateway_execute_inv)

lemma gateway_inv_instantiate:
  assumes "gateway_instantiate lib env msg = Inr (s, out)"
  shows "gateway_inv lib s"
proof -
  have "GAS_COUNTED s = Map.empty" "GAS_ACCRUED s = Map.empty" "OUTGOING_MESSAGES s = Map.empty"
    "XRPL_CURRENCY_TO_REMOTE_TOKEN_ID s = Map.empty" "XRPL_TOKEN_TO_LOCAL_TOKEN_ID s = Map.empty" "TOKEN_ID_TO_XRPL_TOKEN s = Map.empty"
    "gw_config s \<noteq> None"
    using assms by (auto simp: gateway_instantiate_def Let_def result_simps)
  moreover from this have "gas_ledger_ok lib s []" by (simp add: gas_ledger_ok_def accrued_def paid_in_def)
  ultimately show ?thesis by (auto simp: gateway_inv_def outgoing_ok_def registry_ok_def)
qed

subsection \<open>What a call may change\<close>

text \<open>Counting gas changes nothing else: the states agree once the gas is cleared.\<close>

definition outside_gas :: "gateway_state \<Rightarrow> gateway_state" where
  "outside_gas s = s\<lparr>GAS_ACCRUED := Map.empty, GAS_COUNTED := Map.empty\<rparr>"

lemma count_gas_outside: "count_gas lib s tx t gas = Inr s' \<Longrightarrow> outside_gas s' = outside_gas s"
  using count_gas_keeps by (fastforce simp: outside_gas_def)

lemma outside_gas_fields:
  assumes "outside_gas s' = outside_gas s"
  shows "gw_config s' = gw_config s" "OUTGOING_MESSAGES s' = OUTGOING_MESSAGES s"
    "XRPL_CURRENCY_TO_REMOTE_TOKEN_ID s' = XRPL_CURRENCY_TO_REMOTE_TOKEN_ID s"
    "XRPL_TOKEN_TO_LOCAL_TOKEN_ID s' = XRPL_TOKEN_TO_LOCAL_TOKEN_ID s" "TOKEN_ID_TO_XRPL_TOKEN s' = TOKEN_ID_TO_XRPL_TOKEN s"
    "gw_permissions s' = gw_permissions s" "gw_killswitch s' = gw_killswitch s"
  using assms by (cases s; cases s'; simp add: outside_gas_def)+

lemma route_incoming_message_outside:
  "route_incoming_message lib env config status s msg = Inr (s', out) \<Longrightarrow> outside_gas s' = outside_gas s"
  by (auto simp: route_incoming_message_def result_simps split: xrpl_message.splits if_splits dest: count_gas_outside)

text \<open>The translation of a message depends on the registry, not on the gas.\<close>

definition translation :: "gateway_lib \<Rightarrow> gateway_env \<Rightarrow> gateway_state \<Rightarrow> gateway_config \<Rightarrow> with_payload \<Rightarrow> router_message option" where
  "translation lib env s config msg =
     (case wp_message msg of
        InterchainTransferMessage m \<Rightarrow>
          (case translate_to_interchain_transfer lib env s config m (wp_payload msg) of
             Inr (transfer, _) \<Rightarrow> map_option mwp_message (ict_message_with_payload transfer) | Inl _ \<Rightarrow> None)
      | CallContractMessage m \<Rightarrow>
          (case wp_payload msg of
             Some payload \<Rightarrow>
               (case translate_to_call_contract lib s config m payload of
                  Inr call \<Rightarrow> Some (mwp_message (cac_message_with_payload call)) | Inl _ \<Rightarrow> None)
           | None \<Rightarrow> None)
      | _ \<Rightarrow> None)"

lemma load_token_id_outside:
  assumes "outside_gas s' = outside_gas s"
  shows "load_token_id lib s' m tok = load_token_id lib s m tok"
  by (simp add: load_token_id_def load_remote_token_id_def load_local_token_id_def outside_gas_fields [OF assms])

lemma translation_outside:
  assumes "outside_gas s' = outside_gas s"
  shows "translation lib env s' config msg = translation lib env s config msg"
proof -
  have "gw_payment_amount_to_token_id lib s' config a = gw_payment_amount_to_token_id lib s config a" for a
    by (simp add: gw_payment_amount_to_token_id_def load_token_id_outside [OF assms] split: xrpl_payment_amount.split)
  then show ?thesis
    unfolding translation_def translate_to_interchain_transfer_def translate_to_call_contract_def by (simp only:)
qed

lemma route_incoming_message_translation:
  assumes "route_incoming_message lib env config status s msg = Inr (s', Some m, event)"
  shows "translation lib env s config msg = Some (mwp_message m)"
  using assms
  by (auto simp: route_incoming_message_def translation_def rbind_Inr_iff ok_or_Inr_iff split: xrpl_message.splits)

definition gas_tx :: "xrpl_message \<Rightarrow> tx_hash option" where
  "gas_tx msg =
     (case msg of InterchainTransferMessage m \<Rightarrow> Some (itm_tx_id m) | CallContractMessage m \<Rightarrow> Some (ccm_tx_id m)
      | AddGasMessage m \<Rightarrow> Some (agm_tx_id m) | _ \<Rightarrow> None)"

lemma gas_tx_add_gas: "gas_tx (AddGasMessage a) = Some (agm_tx_id a)"
  by (simp add: gas_tx_def)

lemma count_gas_tx:
  "count_gas lib s tx t gas = Inr s' \<Longrightarrow> GAS_COUNTED s' x = GAS_COUNTED s x \<or> x = tx"
  using count_gas_Inr [of lib s tx t gas s'] by auto

lemma route_incoming_message_gas:
  assumes "route_incoming_message lib env config status s msg = Inr (s', out)" "GAS_COUNTED s' tx \<noteq> GAS_COUNTED s tx"
  shows "status = SucceededOnSourceChain \<and> gas_tx (wp_message msg) = Some tx"
  using assms
  by (auto simp: route_incoming_message_def gas_tx_def rbind_Inr_iff map_err_Inr_iff split: xrpl_message.splits if_splits
      dest!: count_gas_tx [where x = tx])

subsection \<open>Routing what was verified\<close>

text \<open>The verifier was asked for the whole batch and answered with the status at the place of the message.\<close>

definition reported :: "gateway_env \<Rightarrow> ('a \<Rightarrow> xrpl_message) \<Rightarrow> 'a list \<Rightarrow> verification_status \<Rightarrow> 'a \<Rightarrow> bool" where
  "reported env into msgs status m \<longleftrightarrow>
     (case ge_messages_status env (map into msgs) of
        Some answers \<Rightarrow> (\<exists>i < min (length msgs) (length answers). msgs ! i = m \<and> snd (answers ! i) = status)
      | None \<Rightarrow> False)"

lemma group_by_first_mem:
  "(k, vs) \<in> set (group_by_first ps) \<Longrightarrow> v \<in> set vs \<Longrightarrow> (k, v) \<in> set ps"
  by (auto simp: group_by_first_def)

lemma fetch_msgs_status_mem:
  assumes "fetch_msgs_status env into msgs = Inr ps" "(status, m) \<in> set ps"
  shows "reported env into msgs status m"
proof -
  from assms(2) assms(1) have "msgs \<noteq> []" by (auto simp: fetch_msgs_status_def result_simps)
  with assms(1) obtain answers where a: "ge_messages_status env (map into msgs) = Some answers"
      "ps = map (\<lambda>((_, status), msg). (status, msg)) (zip answers msgs)"
    by (auto simp: fetch_msgs_status_def result_simps)
  with assms(2) obtain i where "i < length ps" "ps ! i = (status, m)" by (auto simp: in_set_conv_nth)
  with a show ?thesis by (auto simp: reported_def split: prod.splits intro!: exI [of _ i])
qed

lemma group_by_status_mem:
  assumes "group_by_status lib env into msgs = Inr groups" "(status, ms) \<in> set groups" "m \<in> set ms"
  shows "reported env into msgs status m"
  using assms
  by (auto simp: group_by_status_def check_for_duplicates_def rbind_Inr_iff split: if_splits
      intro: fetch_msgs_status_mem dest: group_by_first_mem)

definition routing_ok ::
    "gateway_lib \<Rightarrow> gateway_env \<Rightarrow> gateway_config \<Rightarrow> with_payload set \<Rightarrow> gateway_state \<Rightarrow> gateway_state \<Rightarrow> router_message set \<Rightarrow> bool" where
  "routing_ok lib env config verified s s' routed \<longleftrightarrow>
     outside_gas s' = outside_gas s \<and>
     (\<forall>r \<in> routed. \<exists>w \<in> verified. translation lib env s config w = Some r) \<and>
     (\<forall>tx. GAS_COUNTED s' tx \<noteq> GAS_COUNTED s tx \<longrightarrow> (\<exists>w \<in> verified. gas_tx (wp_message w) = Some tx))"

lemma routing_ok_message:
  assumes ok: "routing_ok lib env config verified s t routed" and w: "status = SucceededOnSourceChain \<Longrightarrow> w \<in> verified"
    and r: "route_incoming_message lib env config status t w = Inr (u, m, event)"
  shows "routing_ok lib env config verified s u
    (routed \<union> (if status = SucceededOnSourceChain then mwp_message ` set_option m else {}))"
  unfolding routing_ok_def
proof (intro conjI allI impI)
  have t: "outside_gas t = outside_gas s" using ok by (simp add: routing_ok_def)
  with route_incoming_message_outside [OF r] show "outside_gas u = outside_gas s" by simp
  show "\<forall>r \<in> routed \<union> (if status = SucceededOnSourceChain then mwp_message ` set_option m else {}).
      \<exists>w \<in> verified. translation lib env s config w = Some r"
    using ok w r route_incoming_message_translation [of lib env config status t w u _ event]
    by (auto simp: routing_ok_def translation_outside [OF t])
  fix tx assume "GAS_COUNTED u tx \<noteq> GAS_COUNTED s tx"
  then consider "GAS_COUNTED t tx \<noteq> GAS_COUNTED s tx" | "GAS_COUNTED u tx \<noteq> GAS_COUNTED t tx" by metis
  then show "\<exists>w \<in> verified. gas_tx (wp_message w) = Some tx"
    using ok w route_incoming_message_gas [OF r, of tx] by cases (auto simp: routing_ok_def)
qed

lemma routing_ok_mono: "routing_ok lib env config V s t (A \<union> B) \<Longrightarrow> routing_ok lib env config V s t A"
  by (auto simp: routing_ok_def)

lemma routing_ok_group:
  assumes ok: "routing_ok lib env config verified s (fst acc) (set (fst (snd acc)))"
    and w: "fst batch = SucceededOnSourceChain \<Longrightarrow> set (snd batch) \<subseteq> verified"
    and r: "route_incoming_group lib env config acc batch = Inr acc'"
  shows "routing_ok lib env config verified s (fst acc') (set (fst (snd acc')))"
proof -
  obtain t route_msgs events status msgs where a: "acc = (t, route_msgs, events)" "batch = (status, msgs)"
    by (cases acc, cases batch) auto
  let ?f = "\<lambda>(s, to_route, events) msg.
      rbind (route_incoming_message lib env config status s msg) (\<lambda>(s, m, event).
      Inr (case m of None \<Rightarrow> (s, to_route, events)
           | Some m \<Rightarrow> (s, to_route @ [mwp_message m], events @ routing_events status m event)))"
  from r a obtain t' to_route events' where f: "try_fold ?f (t, [], events) msgs = Inr (t', to_route, events')"
      "acc' = (t', route_msgs @ filter_routable_messages status to_route, events')"
    by (auto simp: route_incoming_group_def result_simps)
  let ?P = "\<lambda>(t, to_route, events :: gateway_event list). routing_ok lib env config verified s t
      (set route_msgs \<union> set (filter_routable_messages status to_route))"
  have "?P (t', to_route, events')"
  proof (rule try_fold_invariant [OF f(1)])
    show "?P (t, [], events)" using ok a by (simp add: filter_routable_messages_def)
    fix x b b'
    assume x: "x \<in> set msgs" and b: "?P b" and step: "?f b x = Inr b'"
    obtain u rs es where bs: "b = (u, rs, es)" by (cases b) auto
    with step obtain u' m e where m: "route_incoming_message lib env config status u x = Inr (u', m, e)"
        "b' = (case m of None \<Rightarrow> (u', rs, es) | Some m \<Rightarrow> (u', rs @ [mwp_message m], es @ routing_events status m e))"
      by (auto simp: rbind_Inr_iff)
    have "routing_ok lib env config verified s u (set route_msgs \<union> set (filter_routable_messages status rs))"
      using b bs by simp
    moreover have "status = SucceededOnSourceChain \<Longrightarrow> x \<in> verified" using w a x by auto
    ultimately have "routing_ok lib env config verified s u' ((set route_msgs \<union> set (filter_routable_messages status rs)) \<union>
        (if status = SucceededOnSourceChain then mwp_message ` set_option m else {}))"
      using m(1) by (rule routing_ok_message)
    then show "?P b'"
      using m(2) by (cases m; cases "status = SucceededOnSourceChain") (simp_all add: filter_routable_messages_def)
  qed
  with f(2) show ?thesis by simp
qed

lemma route_incoming_messages_ok:
  assumes "route_incoming_messages lib env s config msgs = Inr (s', out)"
  shows "\<exists>rs. gr_messages out = (if rs = [] then [] else [OutRouteMessages (gc_router config) rs]) \<and>
    routing_ok lib env config {w. reported env wp_message msgs SucceededOnSourceChain w} s s' (set rs)"
proof -
  from assms obtain groups rs events where g: "group_by_status lib env wp_message msgs = Inr groups"
      "try_fold (route_incoming_group lib env config) (s, [], []) groups = Inr (s', rs, events)"
      "gr_messages out = (if rs = [] then [] else [OutRouteMessages (gc_router config) rs])"
    by (auto simp: route_incoming_messages_def result_simps)
  let ?V = "{w. reported env wp_message msgs SucceededOnSourceChain w}"
  have "routing_ok lib env config ?V s (fst (s', rs, events)) (set (fst (snd (s', rs, events))))"
  proof (rule try_fold_invariant [OF g(2)])
    show "routing_ok lib env config ?V s (fst (s, [], [])) (set (fst (snd (s, [], []))))" by (simp add: routing_ok_def)
    fix acc batch acc'
    assume "batch \<in> set groups"
    then have "(fst batch, snd batch) \<in> set groups" by simp
    then have "fst batch = SucceededOnSourceChain \<Longrightarrow> set (snd batch) \<subseteq> ?V"
      using group_by_status_mem [OF g(1)] by (metis (no_types, lifting) mem_Collect_eq subsetI)
    then show "routing_ok lib env config ?V s (fst acc') (set (fst (snd acc')))"
      if "routing_ok lib env config ?V s (fst acc) (set (fst (snd acc)))" "route_incoming_group lib env config acc batch = Inr acc'"
      using routing_ok_group [OF that(1) _ that(2)] by blast
  qed
  with g(3) show ?thesis by auto
qed

subsection \<open>Who may change what\<close>

definition registry :: "gateway_state \<Rightarrow> (xrpl_currency \<rightharpoonup> token_id) \<times> (xrpl_token \<rightharpoonup> token_id) \<times> (token_id \<rightharpoonup> xrpl_token)" where
  "registry s = (XRPL_CURRENCY_TO_REMOTE_TOKEN_ID s, XRPL_TOKEN_TO_LOCAL_TOKEN_ID s, TOKEN_ID_TO_XRPL_TOKEN s)"

text \<open>The effect of a call, by the fields it may touch.\<close>

definition call_effect :: "gateway_env \<Rightarrow> gateway_config \<Rightarrow> addr \<Rightarrow> gateway_msg \<Rightarrow> gateway_state \<Rightarrow> gateway_state \<Rightarrow> bool" where
  "call_effect env config sender msg s s' \<longleftrightarrow>
     gw_config s' = gw_config s \<and> OUTGOING_MESSAGES s \<subseteq>\<^sub>m OUTGOING_MESSAGES s' \<and>
     (OUTGOING_MESSAGES s' \<noteq> OUTGOING_MESSAGES s \<longrightarrow> sender = gc_router config) \<and>
     ((registry s', gw_permissions s', gw_killswitch s') \<noteq> (registry s, gw_permissions s, gw_killswitch s) \<longrightarrow>
        is_elevated (gw_permissions s) sender) \<and>
     (\<forall>tx. GAS_COUNTED s' tx \<noteq> GAS_COUNTED s tx \<longrightarrow>
        (\<exists>m. gas_tx m = Some tx \<and>
           (case msg of
              GwRouteIncomingMessages ms \<Rightarrow> (\<exists>w. wp_message w = m \<and> reported env wp_message ms SucceededOnSourceChain w)
            | GwConfirmAddGasMessages ms \<Rightarrow> (\<exists>a. AddGasMessage a = m \<and> reported env AddGasMessage ms SucceededOnSourceChain a)
            | _ \<Rightarrow> False)))"

lemma confirm_add_gas_messages_effect:
  assumes "confirm_add_gas_messages lib env s config msgs = Inr (s', out)"
  shows "outside_gas s' = outside_gas s \<and>
    (\<forall>tx. GAS_COUNTED s' tx \<noteq> GAS_COUNTED s tx \<longrightarrow>
       (\<exists>a. agm_tx_id a = tx \<and> reported env AddGasMessage msgs SucceededOnSourceChain a))"
proof -
  let ?f = "\<lambda>s msg. rbind (gw_payment_amount_to_token_id lib s config (agm_amount msg)) (\<lambda>token_id.
      map_err GwState (count_gas lib s (agm_tx_id msg) token_id (agm_amount msg)))"
  from assms obtain groups where g: "group_by_status lib env AddGasMessage msgs = Inr groups"
      "try_fold ?f s (concat (map snd (filter (\<lambda>(status, _). status = SucceededOnSourceChain) groups))) = Inr s'"
    by (auto simp: confirm_add_gas_messages_def Let_def rbind_Inr_iff)
  show ?thesis
  proof (rule try_fold_invariant [OF g(2)])
    fix t u a
    assume a: "a \<in> set (concat (map snd (filter (\<lambda>(status, _). status = SucceededOnSourceChain) groups)))"
      and t: "outside_gas t = outside_gas s \<and> (\<forall>tx. GAS_COUNTED t tx \<noteq> GAS_COUNTED s tx \<longrightarrow>
         (\<exists>a. agm_tx_id a = tx \<and> reported env AddGasMessage msgs SucceededOnSourceChain a))"
      and step: "?f t a = Inr u"
    from step obtain id where c: "count_gas lib t (agm_tx_id a) id (agm_amount a) = Inr u"
      by (auto simp: rbind_Inr_iff map_err_Inr_iff)
    from a obtain ms where "(SucceededOnSourceChain, ms) \<in> set groups" "a \<in> set ms" by auto
    then have "reported env AddGasMessage msgs SucceededOnSourceChain a" by (rule group_by_status_mem [OF g(1)])
    then show "outside_gas u = outside_gas s \<and> (\<forall>tx. GAS_COUNTED u tx \<noteq> GAS_COUNTED s tx \<longrightarrow>
         (\<exists>a. agm_tx_id a = tx \<and> reported env AddGasMessage msgs SucceededOnSourceChain a))"
      using t count_gas_outside [OF c] count_gas_tx [OF c] by metis
  qed simp
qed

lemma gateway_permission_Inr:
  "gateway_permission config s sender msg = Inr u \<longleftrightarrow>
     (case msg of
        GwVerifyMessages _ \<Rightarrow> True | GwRouteIncomingMessages _ \<Rightarrow> True | GwConfirmAddGasMessages _ \<Rightarrow> True
      | GwRouteMessages _ \<Rightarrow> sender = gc_router config
      | _ \<Rightarrow> is_elevated (gw_permissions s) sender)"
  by (cases msg) (simp_all add: gateway_permission_def ensure_elevated ensure_specific)

lemma call_effect_refl: "call_effect env config sender msg s s"
  by (simp add: call_effect_def)

lemma call_effect_outside_gas:
  assumes "outside_gas s' = outside_gas s"
  shows "registry s' = registry s" "gw_config s' = gw_config s" "OUTGOING_MESSAGES s' = OUTGOING_MESSAGES s"
    "gw_permissions s' = gw_permissions s" "gw_killswitch s' = gw_killswitch s"
  by (simp_all add: registry_def outside_gas_fields [OF assms])

lemma gateway_execute_effect:
  assumes ex: "gateway_execute lib env s sender msg = Inr (s', out)" and config: "gw_config s = Some config"
  shows "call_effect env config sender msg s s'"
proof -
  note ex' = ex [unfolded gateway_execute_def load_gateway_config_def config ok_or_simps rbind_simps rbind_Inr_iff Let_def]
  then have perm: "gateway_permission config s sender msg = Inr ()" by (auto simp: map_err_Inr_iff)
  show ?thesis
  proof (cases msg)
    case (GwRegisterLocalToken tok)
    with ex' have "outside_registry s' = outside_registry s" using register_local_token_keeps by auto
    with perm GwRegisterLocalToken show ?thesis
      by (simp add: call_effect_def gateway_permission_Inr outside_registry_def)
  next
    case (GwRegisterRemoteToken t c)
    with ex' have "outside_registry s' = outside_registry s" using register_remote_token_keeps by auto
    with perm GwRegisterRemoteToken show ?thesis
      by (simp add: call_effect_def gateway_permission_Inr outside_registry_def)
  next
    case (GwRouteMessages msgs)
    with ex' have "route_outgoing_messages lib s msgs (gc_its_hub config) (gc_its_hub_chain_name config) = Inr (s', out)" by simp
    from route_outgoing_messages_effect [OF this] obtain M where "s' = s\<lparr>OUTGOING_MESSAGES := M\<rparr>" "OUTGOING_MESSAGES s \<subseteq>\<^sub>m M"
      by blast
    with perm GwRouteMessages show ?thesis by (simp add: call_effect_def gateway_permission_Inr registry_def)
  next
    case (GwRouteIncomingMessages msgs)
    with ex' have "route_incoming_messages lib env s config msgs = Inr (s', out)" by simp
    from route_incoming_messages_ok [OF this] have o: "outside_gas s' = outside_gas s"
      and "\<forall>tx. GAS_COUNTED s' tx \<noteq> GAS_COUNTED s tx \<longrightarrow>
         (\<exists>w. reported env wp_message msgs SucceededOnSourceChain w \<and> gas_tx (wp_message w) = Some tx)"
      by (auto simp: routing_ok_def)
    with GwRouteIncomingMessages show ?thesis unfolding call_effect_def call_effect_outside_gas [OF o] by simp blast
  next
    case (GwConfirmAddGasMessages msgs)
    with ex' have "confirm_add_gas_messages lib env s config msgs = Inr (s', out)" by simp
    note effect = confirm_add_gas_messages_effect [OF this]
    then have o: "outside_gas s' = outside_gas s" ..
    from effect GwConfirmAddGasMessages show ?thesis
      unfolding call_effect_def call_effect_outside_gas [OF o] by simp (metis gas_tx_add_gas)
  next
    case (GwUpdateAdmin a)
    with ex' have "\<exists>p. s' = s\<lparr>gw_permissions := p\<rparr>" by (auto simp: gw_update_admin_def result_simps)
    with perm GwUpdateAdmin show ?thesis by (auto simp: call_effect_def gateway_permission_Inr registry_def)
  next
    case GwEnableExecution
    with ex' have "\<exists>k. s' = s\<lparr>gw_killswitch := k\<rparr>" by (auto simp: gw_enable_execution_def result_simps)
    with perm GwEnableExecution show ?thesis by (auto simp: call_effect_def gateway_permission_Inr registry_def)
  next
    case GwDisableExecution
    with ex' have "\<exists>k. s' = s\<lparr>gw_killswitch := k\<rparr>" by (auto simp: gw_disable_execution_def result_simps)
    with perm GwDisableExecution show ?thesis by (auto simp: call_effect_def gateway_permission_Inr registry_def)
  qed (use gateway_execute_stateless [OF ex] in \<open>auto simp: stateless_def intro: call_effect_refl\<close>)
qed

text \<open>Along a run the configuration stays and stored messages are never lost or replaced.\<close>

lemma gateway_run_grows:
  assumes "run (gateway_step lib) s s'" "gateway_inv lib s"
  shows "gw_config s' = gw_config s \<and> OUTGOING_MESSAGES s \<subseteq>\<^sub>m OUTGOING_MESSAGES s'"
  using assms
proof (rule gw.run_monotone [where R = "\<lambda>s s'. gw_config s' = gw_config s \<and> OUTGOING_MESSAGES s \<subseteq>\<^sub>m OUTGOING_MESSAGES s'"])
  fix s call s'
  assume "gateway_inv lib s" "gateway_step lib call s = Inr s'"
  then obtain env sender msg out config where "gateway_execute lib env s sender msg = Inr (s', out)" "gw_config s = Some config"
    by (cases call) (auto simp: gateway_step_def new_state_Inr_iff gateway_inv_def)
  from gateway_execute_effect [OF this] show "gw_config s' = gw_config s \<and> OUTGOING_MESSAGES s \<subseteq>\<^sub>m OUTGOING_MESSAGES s'"
    by (simp add: call_effect_def)
qed (auto intro: map_le_trans)

lemma gateway_instantiate_config:
  assumes "gateway_instantiate lib env msg = Inr (s, out)"
  shows "case gw_config s of None \<Rightarrow> False | Some config \<Rightarrow>
    gc_xrpl_multisig config = gim_xrpl_multisig_address msg \<and>
    gc_chain_name config = gim_chain_name msg \<and> gc_its_hub_chain_name config = gim_its_hub_chain_name msg \<and>
    ge_validate_address env (gim_its_hub_address msg) = Some (gc_its_hub config) \<and>
    ge_validate_address env (gim_router_address msg) = Some (gc_router config)"
  using assms by (auto simp: gateway_instantiate_def Let_def result_simps)

lemma gateway_reachable:
  assumes "gateway_instantiate lib env msg = Inr (s0, out)" "run (gateway_step lib) s0 s"
  obtains config where "gateway_inv lib s" "gw_config s = Some config" "gc_xrpl_multisig config = gim_xrpl_multisig_address msg"
    "gc_chain_name config = gim_chain_name msg" "gc_its_hub_chain_name config = gim_its_hub_chain_name msg"
    "ge_validate_address env (gim_its_hub_address msg) = Some (gc_its_hub config)"
    "ge_validate_address env (gim_router_address msg) = Some (gc_router config)"
proof -
  note inv = gateway_inv_instantiate [OF assms(1)]
  obtain config where "gw_config s0 = Some config" using gateway_instantiate_config [OF assms(1)] by (cases "gw_config s0") simp_all
  with gateway_run_grows [OF assms(2) inv] gateway_instantiate_config [OF assms(1)] gw.run_inv [OF assms(2) inv]
  show thesis by (intro that [of config]) simp_all
qed

lemma registry_queries:
  assumes "gateway_inv lib s" and config: "gw_config s = Some config" and laws: "token_laws lib"
  shows "query_xrpl_token_id lib s tok = Inr t \<longleftrightarrow> query_xrpl_token s t = Inr tok"
    "query_xrpl_token_id lib s tok = Inr t \<Longrightarrow> tok_issuer tok \<noteq> gc_xrpl_multisig config \<Longrightarrow> query_linked_token_id lib s tok = Inr t"
proof -
  have ok: "registry_ok lib config s" using assms by (simp add: gateway_inv_def)
  have remote: "token_is_remote (gl_xrpl lib) tok m \<longleftrightarrow> tok_issuer tok = m" for m
    using laws by (simp add: token_laws_def)
  have id: "query_xrpl_token_id lib s tok = Inr t \<longleftrightarrow>
      (if tok_issuer tok = gc_xrpl_multisig config then XRPL_CURRENCY_TO_REMOTE_TOKEN_ID s (tok_currency tok) = Some t
       else XRPL_TOKEN_TO_LOCAL_TOKEN_ID s tok = Some t)"
    by (simp add: query_xrpl_token_id_def load_gateway_config_def config load_token_id_def remote load_remote_token_id_def
        load_local_token_id_def result_simps)
  have tk: "query_xrpl_token s t = Inr tok \<longleftrightarrow> TOKEN_ID_TO_XRPL_TOKEN s t = Some tok"
    by (simp add: query_xrpl_token_def load_xrpl_token_def result_simps)
  show "query_xrpl_token_id lib s tok = Inr t \<longleftrightarrow> query_xrpl_token s t = Inr tok"
    unfolding id tk using registry_local [OF ok, of tok t] registry_remote [OF ok, of "tok_currency tok" t] registry_token [OF ok, of t tok]
    by (cases tok) (auto split: if_splits)
  assume "query_xrpl_token_id lib s tok = Inr t" "tok_issuer tok \<noteq> gc_xrpl_multisig config"
  with id registry_local [OF ok, of tok t] have "t = local_token_id lib config tok" by simp
  then show "query_linked_token_id lib s tok = Inr t"
    by (simp add: query_linked_token_id_def load_gateway_config_def config local_token_id_def)
qed

text \<open>A query for outgoing messages succeeds when all of them are stored.\<close>

lemma accumulate_errs_Inr:
  "foldl accumulate_errs acc rs = Inr ms \<longleftrightarrow> (\<exists>ms' ms''. acc = Inr ms' \<and> rs = map Inr ms'' \<and> ms = ms' @ ms'')"
proof (induction rs arbitrary: acc)
  case (Cons r rs)
  show ?case
    unfolding foldl_Cons Cons.IH by (cases acc; cases r) (auto simp: accumulate_errs_def Cons_eq_map_conv)
qed auto

lemma query_outgoing_messages_Inr:
  "query_outgoing_messages s ids = Inr ms \<longleftrightarrow> list_all2 (\<lambda>i m. OUTGOING_MESSAGES s i = Some m) ids ms"
proof -
  have "map (load_outgoing_message s) ids = map Inr ms \<longleftrightarrow> list_all2 (\<lambda>i m. OUTGOING_MESSAGES s i = Some m) ids ms"
    by (induction ids arbitrary: ms) (auto simp: Cons_eq_map_conv list_all2_Cons1 load_outgoing_message_def result_simps)
  then show ?thesis by (auto simp: query_outgoing_messages_def map_err_Inr_iff accumulate_errs_Inr)
qed

section \<open>A concrete gateway\<close>

definition demo_add :: "xrpl_payment_amount \<Rightarrow> xrpl_payment_amount \<Rightarrow> xrpl_error + xrpl_payment_amount" where
  "demo_add a b =
     (case (a, b) of
        (Drops m, Drops n) \<Rightarrow> Inr (Drops (m + n))
      | (Issued t m, Issued u n) \<Rightarrow>
          if t = u then Inr (Issued t (m\<lparr>ta_mantissa := ta_mantissa m + ta_mantissa n\<rparr>)) else Inl (XRPLError ''token'')
      | _ \<Rightarrow> Inl (XRPLError ''mismatch''))"

definition demo_gateway_lib :: gateway_lib where
  "demo_gateway_lib =
     \<lparr>gl_xrpl = demo_lib\<lparr>account_id_from_str := (\<lambda>_. Some (replicate 20 0)), keccak256_digest := (\<lambda>b. drop (length b - 1) b)\<rparr>,
      gl_token_is_local = (\<lambda>t a. tok_issuer t \<noteq> a), gl_payment_amount_add = demo_add,
      gl_scale_to_decimals = (\<lambda>a _. Inr (ucast (ta_mantissa a))),
      gl_message_tx_id = (\<lambda>m. case m of InterchainTransferMessage x \<Rightarrow> itm_tx_id x | CallContractMessage x \<Rightarrow> ccm_tx_id x
         | AddGasMessage x \<Rightarrow> agm_tx_id x | AddReservesMessage x \<Rightarrow> arm_tx_id x | ProverMessage x \<Rightarrow> pm_tx_id x),
      gl_transfer_cc_id = (\<lambda>m c. \<lparr>source_chain = c, message_id = map (\<lambda>b. char_of (unat b)) (itm_tx_id m)\<rparr>),
      gl_call_cc_id = (\<lambda>m c. \<lparr>source_chain = c, message_id = map (\<lambda>b. char_of (unat b)) (ccm_tx_id m)\<rparr>),
      gl_account_id_to_string = map (\<lambda>b. char_of (unat b)), gl_xrp_currency = replicate 20 0,
      gl_token_decimals = (\<lambda>_. 6), gl_token_address = (\<lambda>_. [7]), gl_token_serialize = (\<lambda>_. ''t''),
      gl_abi_encode = (\<lambda>_. [1]), gl_from_hex = (\<lambda>t. Some (string_bytes t)),
      gl_hex_tx_hash = map (\<lambda>b. char_of (unat b))\<rparr>"

definition demo_gateway_env :: gateway_env where
  "demo_gateway_env =
     \<lparr>ge_messages_status = (\<lambda>ms. Some (map (\<lambda>m. (m, SucceededOnSourceChain)) ms)),
      ge_token_instance_decimals = (\<lambda>_ _ _. Some 6), ge_tx_hash_and_nonce = Some (replicate 32 1, 3),
      ge_validate_address = Some\<rparr>"

definition demo_gateway_msg :: gateway_instantiate_msg where
  "demo_gateway_msg =
     \<lparr>gim_admin_address = ''admin'', gim_governance_address = ''governance'', gim_verifier_address = ''verifier'',
      gim_router_address = ''router'', gim_its_hub_address = ''hub'', gim_its_hub_chain_name = ''axelar'',
      gim_chain_name = ''xrpl'', gim_xrpl_multisig_address = replicate 20 65\<rparr>"

definition demo_gateway_start :: gateway_state where
  "demo_gateway_start = (case gateway_instantiate demo_gateway_lib demo_gateway_env demo_gateway_msg of Inr (s, _) \<Rightarrow> s)"

lemma demo_gateway_instantiate:
  "\<exists>out. gateway_instantiate demo_gateway_lib demo_gateway_env demo_gateway_msg = Inr (demo_gateway_start, out)"
  by (simp add: demo_gateway_start_def gateway_instantiate_def demo_gateway_lib_def demo_gateway_env_def Let_def)

definition demo_local_token :: xrpl_token where
  "demo_local_token = \<lparr>tok_issuer = replicate 20 66, tok_currency = replicate 20 2\<rparr>"

definition demo_hub_message :: router_message where
  "demo_hub_message =
     \<lparr>msg_cc_id = \<lparr>source_chain = ''axelar'', message_id = ''m1''\<rparr>, msg_source_address = ''hub'',
      msg_destination_chain = ''xrpl'', msg_destination_address = ''rA'', msg_payload_hash = [9]\<rparr>"

definition demo_transfer :: xrpl_interchain_transfer_message where
  "demo_transfer =
     \<lparr>itm_tx_id = [49], itm_source_address = replicate 20 67, itm_destination_chain = ''avalanche'',
      itm_destination_address = ''ab'', itm_payload_hash = None, itm_transfer_amount = Drops 100, itm_gas_fee_amount = Drops 5\<rparr>"

definition demo_top_up :: xrpl_add_gas_message where
  "demo_top_up = \<lparr>agm_tx_id = [50], agm_msg_tx_id = [49], agm_amount = Drops 2, agm_source_address = replicate 20 67\<rparr>"

definition demo_gateway_calls :: "gateway_call list" where
  "demo_gateway_calls = map (\<lambda>(sender, msg). (demo_gateway_env, sender, msg))
     [(''admin'', GwRegisterLocalToken demo_local_token),
      (''admin'', GwRegisterRemoteToken (replicate 32 5) (replicate 20 4)),
      (''router'', GwRouteMessages [demo_hub_message]),
      (''relayer'', GwRouteIncomingMessages [\<lparr>wp_message = InterchainTransferMessage demo_transfer, wp_payload = None\<rparr>]),
      (''relayer'', GwRouteIncomingMessages [\<lparr>wp_message = InterchainTransferMessage demo_transfer, wp_payload = None\<rparr>]),
      (''relayer'', GwConfirmAddGasMessages [demo_top_up])]"

definition demo_gateway_state :: gateway_state where
  "demo_gateway_state = deliver (gateway_step demo_gateway_lib) demo_gateway_calls demo_gateway_start"

lemma demo_gateway_run: "run (gateway_step demo_gateway_lib) demo_gateway_start demo_gateway_state"
  unfolding demo_gateway_state_def by (rule run_deliver)

lemma demo_token_laws: "token_laws demo_gateway_lib"
  by (simp add: token_laws_def demo_gateway_lib_def demo_lib_def)

text \<open>What the run left behind, evaluated once.\<close>

definition demo_gateway_check :: "gateway_state \<Rightarrow> bool" where
  "demo_gateway_check s \<longleftrightarrow>
     GAS_COUNTED s [49] \<noteq> None \<and> GAS_ACCRUED s [0] = Some (Drops 7) \<and>
     query_xrpl_token_id demo_gateway_lib s demo_local_token = Inr [2] \<and> query_xrp_token_id s = Inr [0] \<and>
     query_outgoing_messages s [\<lparr>source_chain = ''axelar'', message_id = ''m1''\<rparr>] = Inr [demo_hub_message]"

lemma demo_gateway_checked: "demo_gateway_check demo_gateway_state"
  by code_simp

lemmas demo_gateway_facts = demo_gateway_checked [unfolded demo_gateway_check_def]

section \<open>Properties of the gateway\<close>



text \<open>
  C37: The token registry is a bijection: in every reachable state the query for the id of a token and the
  query for the token of an id are inverse to each other, and a token that another account issues has the id that
  the query for linked ids computes. So no two tokens share an id and no token has two.\<close>

theorem token_registry_inverse:
  assumes "gateway_instantiate lib env msg = Inr (s0, out)" "run (gateway_step lib) s0 s" "token_laws lib"
  shows "(query_xrpl_token_id lib s tok = Inr t \<longleftrightarrow> query_xrpl_token s t = Inr tok) \<and>
    (query_xrpl_token_id lib s tok = Inr t \<and> tok_issuer tok \<noteq> gim_xrpl_multisig_address msg \<longrightarrow>
       query_linked_token_id lib s tok = Inr t)"
proof -
  from assms(1,2) obtain config where inv: "gateway_inv lib s" "gw_config s = Some config"
    and multisig: "gc_xrpl_multisig config = gim_xrpl_multisig_address msg"
    by (rule gateway_reachable)
  with registry_queries [OF inv assms(3), of tok t] show ?thesis by simp
qed

theorem token_registry_inverse_witness:
  "query_xrpl_token_id demo_gateway_lib demo_gateway_state demo_local_token = Inr [2] \<and>
   query_xrpl_token demo_gateway_state [2] = Inr demo_local_token \<and>
   query_linked_token_id demo_gateway_lib demo_gateway_state demo_local_token = Inr [2]"
proof -
  obtain out where i: "gateway_instantiate demo_gateway_lib demo_gateway_env demo_gateway_msg = Inr (demo_gateway_start, out)"
    using demo_gateway_instantiate ..
  have "tok_issuer demo_local_token \<noteq> gim_xrpl_multisig_address demo_gateway_msg"
    by (simp add: demo_local_token_def demo_gateway_msg_def)
  then show ?thesis
    using token_registry_inverse [OF i demo_gateway_run demo_token_laws, of demo_local_token "[2]"] demo_gateway_facts by blast
qed

text \<open>
  C38: A stored outgoing message is final and comes from the hub: what the query for outgoing messages answers in a
  reachable state it answers in every later state, the messages are those asked for, in order, and each was
  sent by the ITS hub from its chain.\<close>

theorem outgoing_messages_final:
  assumes "gateway_instantiate lib env msg = Inr (s0, out)" "run (gateway_step lib) s0 s" "run (gateway_step lib) s s'"
    and "query_outgoing_messages s ids = Inr ms"
  shows "query_outgoing_messages s' ids = Inr ms \<and> map msg_cc_id ms = ids \<and>
    (\<forall>m \<in> set ms. ge_validate_address env (gim_its_hub_address msg) = Some (msg_source_address m) \<and>
       source_chain (msg_cc_id m) = gim_its_hub_chain_name msg)"
proof -
  from assms(1,2) obtain config where inv: "gateway_inv lib s" and config: "gw_config s = Some config"
    and hub: "ge_validate_address env (gim_its_hub_address msg) = Some (gc_its_hub config)"
      "gc_its_hub_chain_name config = gim_its_hub_chain_name msg"
    by (rule gateway_reachable)
  have grows: "OUTGOING_MESSAGES s \<subseteq>\<^sub>m OUTGOING_MESSAGES s'" using gateway_run_grows [OF assms(3) inv] by simp
  have ms: "list_all2 (\<lambda>i m. OUTGOING_MESSAGES s i = Some m) ids ms"
    using assms(4) by (simp add: query_outgoing_messages_Inr)
  then have "list_all2 (\<lambda>i m. OUTGOING_MESSAGES s' i = Some m) ids ms"
    by (rule list_all2_mono) (use grows in \<open>force simp: map_le_def\<close>)
  moreover have "list_all2 (\<lambda>i m. msg_cc_id m = i \<and> msg_source_address m = gc_its_hub config \<and>
      source_chain i = gc_its_hub_chain_name config) ids ms"
    using ms inv config by (elim list_all2_mono) (simp add: gateway_inv_def outgoing_ok_def)
  ultimately show ?thesis
    using hub by (auto simp: query_outgoing_messages_Inr list_all2_conv_all_nth in_set_conv_nth intro!: nth_equalityI)
qed

theorem outgoing_messages_final_witness:
  "query_outgoing_messages demo_gateway_state [\<lparr>source_chain = ''axelar'', message_id = ''m1''\<rparr>] = Inr [demo_hub_message] \<and>
   ge_validate_address demo_gateway_env ''hub'' = Some (msg_source_address demo_hub_message)"
proof -
  obtain out where i: "gateway_instantiate demo_gateway_lib demo_gateway_env demo_gateway_msg = Inr (demo_gateway_start, out)"
    using demo_gateway_instantiate ..
  have q: "query_outgoing_messages demo_gateway_state [\<lparr>source_chain = ''axelar'', message_id = ''m1''\<rparr>] = Inr [demo_hub_message]"
    using demo_gateway_facts by simp
  have "gim_its_hub_address demo_gateway_msg = ''hub''" by (simp add: demo_gateway_msg_def)
  with outgoing_messages_final [OF i demo_gateway_run run_refl q] q show ?thesis by simp
qed

text \<open>
  C39: Who may change the gateway: in every reachable state a call keeps the configuration and every stored
  outgoing message; only the router adds outgoing messages; only the admin or governance changes the token registry,
  the permissions or the killswitch; and gas is counted only for a message of the call that the verifier
  reports as succeeded.\<close>

theorem gateway_authority:
  assumes "gateway_instantiate lib env0 msg0 = Inr (s0, out0)" "run (gateway_step lib) s0 s"
    and "gateway_execute lib env s sender msg = Inr (s', out)"
  shows "gw_config s' = gw_config s \<and> OUTGOING_MESSAGES s \<subseteq>\<^sub>m OUTGOING_MESSAGES s' \<and>
    (OUTGOING_MESSAGES s' \<noteq> OUTGOING_MESSAGES s \<longrightarrow> ge_validate_address env0 (gim_router_address msg0) = Some sender) \<and>
    ((XRPL_CURRENCY_TO_REMOTE_TOKEN_ID s', XRPL_TOKEN_TO_LOCAL_TOKEN_ID s', TOKEN_ID_TO_XRPL_TOKEN s', gw_permissions s', gw_killswitch s') \<noteq>
       (XRPL_CURRENCY_TO_REMOTE_TOKEN_ID s, XRPL_TOKEN_TO_LOCAL_TOKEN_ID s, TOKEN_ID_TO_XRPL_TOKEN s, gw_permissions s, gw_killswitch s) \<longrightarrow>
       admin (gw_permissions s) = Some sender \<or> governance (gw_permissions s) = Some sender) \<and>
    (\<forall>tx. GAS_COUNTED s' tx \<noteq> GAS_COUNTED s tx \<longrightarrow>
       (\<exists>m. gas_tx m = Some tx \<and>
          (case msg of
             GwRouteIncomingMessages ms \<Rightarrow> (\<exists>w. wp_message w = m \<and> reported env wp_message ms SucceededOnSourceChain w)
           | GwConfirmAddGasMessages ms \<Rightarrow> (\<exists>a. AddGasMessage a = m \<and> reported env AddGasMessage ms SucceededOnSourceChain a)
           | _ \<Rightarrow> False)))"
proof -
  from assms(1,2) obtain config where config: "gw_config s = Some config"
    and router: "ge_validate_address env0 (gim_router_address msg0) = Some (gc_router config)"
    by (rule gateway_reachable)
  from gateway_execute_effect [OF assms(3) config] router show ?thesis
    unfolding call_effect_def registry_def by simp
qed

theorem gateway_authority_witness:
  "\<exists>s' out. gateway_execute demo_gateway_lib demo_gateway_env demo_gateway_start ''router'' (GwRouteMessages [demo_hub_message]) = Inr (s', out) \<and>
     OUTGOING_MESSAGES s' \<noteq> OUTGOING_MESSAGES demo_gateway_start \<and> ge_validate_address demo_gateway_env ''router'' = Some ''router''"
proof -
  obtain out where i: "gateway_instantiate demo_gateway_lib demo_gateway_env demo_gateway_msg = Inr (demo_gateway_start, out)"
    using demo_gateway_instantiate ..
  have "case gateway_execute demo_gateway_lib demo_gateway_env demo_gateway_start ''router'' (GwRouteMessages [demo_hub_message]) of
      Inl _ \<Rightarrow> False | Inr (s', _) \<Rightarrow> OUTGOING_MESSAGES s' (msg_cc_id demo_hub_message) \<noteq> None \<and>
        OUTGOING_MESSAGES demo_gateway_start (msg_cc_id demo_hub_message) = None"
    by code_simp
  then obtain s' out' where x: "gateway_execute demo_gateway_lib demo_gateway_env demo_gateway_start ''router''
      (GwRouteMessages [demo_hub_message]) = Inr (s', out')" "OUTGOING_MESSAGES s' \<noteq> OUTGOING_MESSAGES demo_gateway_start"
    by (auto simp: case_Inr_iff) (metis option.distinct(1))
  have "gim_router_address demo_gateway_msg = ''router''" by (simp add: demo_gateway_msg_def)
  with gateway_authority [OF i run_refl x(1)] x show ?thesis by auto
qed

end
