(* ===== verification/Xrpl_System.thy ===== *)
theory Xrpl_System
  imports Xrpl_Bridge Xrpl_Verifier Router_Contract Gateway_Properties
begin

text \<open>
  The contracts together: what the gateway reads from the voting verifier and what the prover reads from
  the gateway are the answers of the models of those contracts, and what the gateway routes is
  delivered to the model of the router.
\<close>

section \<open>Clients\<close>

text \<open>A failed query is an error of the caller, whatever the error was.\<close>

definition answer :: "'e + 'a \<Rightarrow> 'a option" where
  "answer r = (case r of Inl _ \<Rightarrow> None | Inr x \<Rightarrow> Some x)"

lemma answer_Some_iff [simp]: "answer r = Some x \<longleftrightarrow> r = Inr x"
  by (cases r) (auto simp: answer_def)

definition verifier_answers ::
    "xrpl_lib \<Rightarrow> verifier_state \<Rightarrow> u64 \<Rightarrow> xrpl_message list \<Rightarrow> (xrpl_message \<times> verification_status) list option" where
  "verifier_answers lib v height messages = answer (messages_status lib v messages height)"

definition gateway_answers :: "gateway_lib \<Rightarrow> gateway_env \<Rightarrow> gateway_state \<Rightarrow> gateway_client" where
  "gateway_answers lib env s =
     \<lparr>gq_linked_token_id = (\<lambda>token. answer (query_linked_token_id lib s token)),
      gq_xrp_token_id = answer (query_xrp_token_id s),
      gq_xrpl_token = (\<lambda>token_id. answer (query_xrpl_token s token_id)),
      gq_token_instance_decimals = (\<lambda>chain_name token_id. answer (query_token_instance_decimals env s chain_name token_id)),
      gq_outgoing_messages = (\<lambda>ids. answer (query_outgoing_messages s ids))\<rparr>"

section \<open>From XRPL to the router\<close>

lemma messages_status_nth:
  assumes "messages_status lib v ms h = Inr answers" "i < length ms"
  shows "answers ! i = (ms ! i, snd (answers ! i)) \<and> verifier_message_status lib v (ms ! i) h = Inr (snd (answers ! i))"
  using try_map_nth [OF assms(1) [unfolded messages_status_def] assms(2)]
  by (cases "answers ! i") (auto simp: rbind_Inr_iff)

lemma reported_verified:
  assumes "reported env into msgs status m" "ge_messages_status env = verifier_answers lib v h"
  shows "m \<in> set msgs \<and> verifier_message_status lib v (into m) h = Inr status"
proof -
  from assms obtain answers i where i: "verifier_answers lib v h (map into msgs) = Some answers"
      "i < length msgs" "msgs ! i = m" "snd (answers ! i) = status"
    by (auto simp: reported_def split: option.splits)
  then have "messages_status lib v (map into msgs) h = Inr answers"
    by (simp add: verifier_answers_def)
  from messages_status_nth [OF this, of i] i show ?thesis by auto
qed

text \<open>What a routed message is made of.\<close>

lemma routed_translation:
  assumes "gateway_execute lib env s sender (GwRouteIncomingMessages msgs) = Inr (s', out)"
    and "OutRouteMessages a rs \<in> set (gr_messages out)" "r \<in> set rs"
  obtains config w where "gw_config s = Some config" "a = gc_router config"
    "translation lib env s config w = Some r" "reported env wp_message msgs SucceededOnSourceChain w"
proof -
  from assms(1) obtain config where config: "gw_config s = Some config"
    by (rule gateway_execute_Inr)
  with assms(1) have "route_incoming_messages lib env s config msgs = Inr (s', out)"
    by (auto simp: gateway_execute_def load_gateway_config_def result_simps)
  from route_incoming_messages_ok [OF this] obtain rs' where
    rs': "gr_messages out = (if rs' = [] then [] else [OutRouteMessages (gc_router config) rs'])"
    "routing_ok lib env config {w. reported env wp_message msgs SucceededOnSourceChain w} s s' (set rs')"
    by blast
  then have "a = gc_router config" "rs = rs'" using assms(2) by (auto split: if_splits)
  with rs'(2) assms(3) config that show thesis by (auto simp: routing_ok_def)
qed

lemma reported_mem: "reported env into msgs status m \<Longrightarrow> m \<in> set msgs"
  by (auto simp: reported_def split: option.splits)

section \<open>From the gateway through the router\<close>

text \<open>
  What \<open>xrpl_types\<close> promises of the cross-chain id of a message: the chain it was given and the
  hexadecimal text of the transaction's hash.
\<close>

definition cc_id_laws :: "gateway_lib \<Rightarrow> msg_id_lib \<Rightarrow> bool" where
  "cc_id_laws lib mids \<longleftrightarrow>
     (\<forall>m c. gl_transfer_cc_id lib m c = \<lparr>source_chain = c, message_id = hex_tx_hash_to_string mids \<lparr>hth_tx_hash = itm_tx_id m\<rparr>\<rparr>) \<and>
     (\<forall>m c. gl_call_cc_id lib m c = \<lparr>source_chain = c, message_id = hex_tx_hash_to_string mids \<lparr>hth_tx_hash = ccm_tx_id m\<rparr>\<rparr>)"

lemma translation_cc_id:
  assumes "translation lib env s config w = Some r" "cc_id_laws lib mids"
  shows "\<exists>tx. gas_tx (wp_message w) = Some tx \<and>
    msg_cc_id r = \<lparr>source_chain = gc_chain_name config, message_id = hex_tx_hash_to_string mids \<lparr>hth_tx_hash = tx\<rparr>\<rparr>"
  using assms
  by (auto simp: translation_def translate_to_interchain_transfer_def translate_to_call_contract_def cc_id_laws_def
      construct_its_hub_message_def gas_tx_def Let_def result_simps nonempty_bytes_def
      split: xrpl_message.splits sum.splits option.splits if_splits)

lemma load_chain_by_gateway_known:
  assumes "router_inv s" "map_of (rt_chains s) k = Some c" "ce_gateway c = a"
  shows "load_chain_by_gateway s a = Inr c \<and> ce_name c = k"
proof -
  let ?find = "find (\<lambda>(_, c). ce_gateway c = a) (rt_chains s)"
  have d: "distinct (map fst (rt_chains s))" using assms(1) by (simp add: router_inv_def bt_wf_distinct)
  have "(k, c) \<in> set (rt_chains s)" using assms(2) by (rule map_of_SomeD)
  then obtain k' c' where f: "?find = Some (k', c')"
    using assms(3) by (cases ?find) (auto simp: find_None_iff)
  from find_gatewayD [OF f d] have "map_of (rt_chains s) k' = Some c'" "ce_gateway c' = a" by simp_all
  with assms have "k' = k" unfolding router_inv_def by metis
  with \<open>map_of (rt_chains s) k' = Some c'\<close> assms(2) have "c' = c" by simp
  with f show ?thesis
    using assms(1,2) by (simp add: load_chain_by_gateway_def index_load_total router_inv_def)
qed

lemma route_messages_accepted:
  assumes inv: "router_inv s" and active: "rt_killswitch s = Some Disengaged" and config: "rt_config s = Some g" "sender \<noteq> g"
    and chain: "map_of (rt_chains s) k = Some c" "ce_gateway c = sender" "\<not> incoming_frozen c"
    and msgs: "\<And>m. m \<in> set msgs \<Longrightarrow> source_chain (msg_cc_id m) = k \<and>
        verify_msg_id (re_msg_ids env) (message_id (msg_cc_id m)) (ce_msg_id_format c) = Inr ()"
    and dest: "\<And>m. m \<in> set msgs \<Longrightarrow> \<exists>a. destination_gateway env s g (msg_destination_chain m) = Inr a"
  shows "\<exists>out. router_execute env s sender (RouteMessages msgs) = Inr (s, out)"
proof -
  from load_chain_by_gateway_known [OF inv chain(1,2)] have c: "load_chain_by_gateway s sender = Inr c" "ce_name c = k" by simp_all
  have "validate_msgs env s g sender msgs = Inr msgs"
    using c config(2) chain(3) msgs
    by (auto simp: validate_msgs_def list_ex_iff verify_msg_ids_Inr rbind_Inr_iff)
  moreover obtain f where "\<And>m. m \<in> set msgs \<Longrightarrow> destination_gateway env s g (msg_destination_chain m) = Inr (f (msg_destination_chain m))"
  proof
    fix m assume "m \<in> set msgs"
    then show "destination_gateway env s g (msg_destination_chain m) = Inr (projr (destination_gateway env s g (msg_destination_chain m)))"
      using dest by fastforce
  qed
  then have "try_map (\<lambda>(destination_chain, ms). rbind (destination_gateway env s g destination_chain) (\<lambda>gateway. Inr (gateway, ms)))
      (group_runs msg_destination_chain msgs) = Inr (map (\<lambda>(d, ms). (f d, ms)) (group_runs msg_destination_chain msgs))"
  proof (intro try_map_total, clarify)
    fix d ms
    assume f: "\<And>m. m \<in> set msgs \<Longrightarrow> destination_gateway env s g (msg_destination_chain m) = Inr (f (msg_destination_chain m))"
      and d: "(d, ms) \<in> set (group_runs msg_destination_chain msgs)"
    from group_runs_key [OF d] obtain m where m: "m \<in> set ms" "msg_destination_chain m = d" by (cases ms) auto
    have "m \<in> set (concat (map snd (group_runs msg_destination_chain msgs)))" using d m(1) by force
    then have "m \<in> set msgs" unfolding group_runs_concat .
    from f [OF this] m(2) show "rbind (destination_gateway env s g d) (\<lambda>gateway. Inr (gateway, ms)) = Inr (f d, ms)" by simp
  qed
  ultimately have "\<exists>out. route_messages env s sender msgs = Inr out"
    using active config(1) by (simp add: route_messages_def is_contract_active_def load_router_config_def)
  moreover have "router_permissions s sender (RouteMessages msgs) = Inr ()"
    using config c chain(2) by (simp add: router_permissions_def find_gateway_address_def load_router_config_def ensure_specific)
  ultimately show ?thesis by (auto simp: router_execute_def)
qed

section \<open>From the hub to a payment\<close>

text \<open>What a payment the prover starts to sign rests on.\<close>

lemma payment_from_gateway:
  assumes "construct_payment_proof lib env s config cc_id payload = Inr (s', out)" "resp_submessages out \<noteq> []"
  obtains m origin transfer dest amount t tx where
    "Option.bind (gq_outgoing_messages (pe_gateway env) [cc_id]) list_first = Some m"
    "msg_destination_chain m = pc_chain_name config" "msg_payload_hash m = keccak256_digest lib payload"
    "pe_abi_decode env payload = Some (ReceiveFromHub origin (ItsInterchainTransfer transfer))" "it_data transfer = None"
    "Option.bind (from_utf8 (it_destination_address transfer)) (account_id_from_str lib) = Some dest"
    "compute_xrpl_amount lib (pe_gateway env) (pc_chain_name config) (it_token_id transfer) origin (it_amount transfer) = Inr amount"
    "\<not> payment_amount_is_zero lib amount" "issue_payment lib s config dest amount cc_id None = Inr (t, tx)"
proof -
  have "\<exists>origin transfer. pe_abi_decode env payload = Some (ReceiveFromHub origin (ItsInterchainTransfer transfer))"
  proof (cases "pe_abi_decode env payload")
    case None
    with assms(1) show ?thesis by (simp add: construct_payment_proof_def Let_def result_simps)
  next
    case (Some h)
    then show ?thesis
    proof (cases h)
      case (ReceiveFromHub origin m)
      with Some assms(1) show ?thesis
        by (cases m) (simp_all add: construct_payment_proof_def Let_def result_simps)
    qed (use Some assms(1) in \<open>simp_all add: construct_payment_proof_def Let_def result_simps\<close>)
  qed
  then obtain origin transfer where h: "pe_abi_decode env payload = Some (ReceiveFromHub origin (ItsInterchainTransfer transfer))" by blast
  with assms that show thesis by (auto simp: construct_payment_proof_def Let_def result_simps split: if_splits)
qed

lemma ucast_u64_u256:
  assumes "(n :: u256) \<le> ucast (b :: u64)"
  shows "ucast (ucast n :: u64) = n"
proof -
  have b: "unat b < 2 ^ 64" using unsigned_less [of b, where ?'a = nat] by simp
  have "unat (ucast b :: u256) = unat b" using b by (simp add: unsigned_ucast_eq unsigned_take_bit_eq take_bit_nat_eq_self)
  with assms b have n: "unat n < 2 ^ 64" by (simp add: word_le_nat_alt)
  then show ?thesis by (simp add: word_eq_iff_unsigned [where ?'a = nat] unsigned_ucast_eq unsigned_take_bit_eq take_bit_nat_eq_self)
qed

lemma compute_xrpl_amount_token:
  assumes "compute_xrpl_amount lib gateway chain t origin n = Inr amount"
  shows "case amount of
      Drops d \<Rightarrow> gq_xrp_token_id gateway = Some t \<and> ucast d = n
    | Issued tok _ \<Rightarrow> gq_xrpl_token gateway t = Some tok"
  using assms by (auto simp: compute_xrpl_amount_def result_simps not_less ucast_u64_u256 split: if_splits)

section \<open>A concrete system\<close>

text \<open>A transfer that is polled, voted on, routed by the gateway and accepted by the router.\<close>

definition demo_system_lib :: gateway_lib where
  "demo_system_lib = demo_gateway_lib\<lparr>
     gl_transfer_cc_id := (\<lambda>m c. \<lparr>source_chain = c, message_id = hex_tx_hash_to_string demo_msg_id_lib \<lparr>hth_tx_hash = itm_tx_id m\<rparr>\<rparr>),
     gl_call_cc_id := (\<lambda>m c. \<lparr>source_chain = c, message_id = hex_tx_hash_to_string demo_msg_id_lib \<lparr>hth_tx_hash = ccm_tx_id m\<rparr>\<rparr>)\<rparr>"

definition demo_system_transfer :: with_payload where
  "demo_system_transfer =
     \<lparr>wp_message = InterchainTransferMessage (demo_transfer\<lparr>itm_tx_id := replicate 32 171\<rparr>), wp_payload = None\<rparr>"

definition demo_system_votes :: "verifier_call list" where
  "demo_system_votes = map (Pair demo_ver_env)
     [(5, ''relayer'', VerifyMessages [wp_message demo_system_transfer]), (6, ''val1'', CastVote 1 [SucceededOnChain]),
      (6, ''val3'', CastVote 1 [SucceededOnChain])]"

definition demo_system_voted :: verifier_state where
  "demo_system_voted = deliver (verifier_step (gl_xrpl demo_system_lib)) demo_system_votes demo_ver_start"

lemma demo_system_run:
  "run (only verifier_call_ok (verifier_step (gl_xrpl demo_system_lib))) demo_ver_start demo_system_voted"
  unfolding demo_system_voted_def by (rule run_only) (auto simp: demo_system_votes_def intro!: demo_ver_ok)

definition demo_system_env :: gateway_env where
  "demo_system_env = demo_gateway_env\<lparr>ge_messages_status := verifier_answers (gl_xrpl demo_system_lib) demo_system_voted 7\<rparr>"

text \<open>What the gateway sends to the router for it.\<close>

definition demo_system_routed :: router_message where
  "demo_system_routed =
     \<lparr>msg_cc_id = \<lparr>source_chain = ''xrpl'', message_id = hex_tx_hash_to_string demo_msg_id_lib \<lparr>hth_tx_hash = replicate 32 171\<rparr>\<rparr>,
      msg_source_address = replicate 20 (CHR ''A''), msg_destination_chain = ''axelar'', msg_destination_address = ''hub'',
      msg_payload_hash = [1]\<rparr>"

lemma demo_system_route:
  "\<exists>s' out. gateway_execute demo_system_lib demo_system_env demo_gateway_start ''relayer'' (GwRouteIncomingMessages [demo_system_transfer])
      = Inr (s', out) \<and> gr_messages out = [OutRouteMessages ''router'' [demo_system_routed]]"
proof -
  have "case gateway_execute demo_system_lib demo_system_env demo_gateway_start ''relayer'' (GwRouteIncomingMessages [demo_system_transfer]) of
      Inl _ \<Rightarrow> False | Inr (_, out) \<Rightarrow> gr_messages out = [OutRouteMessages ''router'' [demo_system_routed]]"
    by code_simp
  then show ?thesis by (auto simp: case_Inr_iff)
qed

lemma demo_system_router:
  "rt_killswitch demo_router = Some Disengaged \<and> rt_config demo_router = Some ''nexus'' \<and> map_of (rt_chains demo_router) ''axelar'' = None"
  by code_simp

lemma demo_system_endpoint:
  obtains e where "map_of (rt_chains demo_router) ''xrpl'' = Some e" "ce_gateway e = ''gw1''" "\<not> incoming_frozen e"
    "ce_msg_id_format e = HexTxHash"
proof -
  have "case map_of (rt_chains demo_router) ''xrpl'' of None \<Rightarrow> False
      | Some e \<Rightarrow> ce_gateway e = ''gw1'' \<and> \<not> incoming_frozen e \<and> ce_msg_id_format e = HexTxHash"
    by code_simp
  with that show thesis by (auto split: option.splits)
qed

text \<open>A prover that reads the gateway of the previous section and pays for the message it stored.\<close>

definition demo_system_prover_env :: prover_env where
  "demo_system_prover_env = demo_prover_env\<lparr>
     pe_abi_decode := (\<lambda>_. Some (ReceiveFromHub ''avalanche'' (ItsInterchainTransfer
       \<lparr>it_token_id = [0], it_source_address = [1], it_destination_address = replicate 20 65, it_amount = 77, it_data = None\<rparr>)))\<rparr>"

definition demo_system_gateway :: gateway_client where
  "demo_system_gateway = gateway_answers demo_gateway_lib demo_gateway_env demo_gateway_state"

lemma demo_system_gateway_queries:
  "gq_outgoing_messages demo_system_gateway [demo_cc] = Some [demo_hub_message]" "gq_xrp_token_id demo_system_gateway = Some [0]"
  using demo_gateway_facts by (simp_all add: demo_system_gateway_def gateway_answers_def demo_cc_def)

lemma demo_system_payment:
  "\<exists>vs s' out. construct_payment_proof demo_bridge_lib (demo_system_prover_env\<lparr>pe_gateway := demo_system_gateway\<rparr>)
     (demo_prover\<lparr>CURRENT_VERIFIER_SET := Some vs\<rparr>) demo_config demo_cc [9] = Inr (s', out) \<and> resp_submessages out \<noteq> []"
proof -
  obtain vs x where x: "verifier_set_try_from demo_bridge_lib vs = Inr x" by (rule demo_first_set)
  let ?s = "demo_prover\<lparr>CURRENT_VERIFIER_SET := Some vs\<rparr>" and ?env = "demo_system_prover_env\<lparr>pe_gateway := demo_system_gateway\<rparr>"
  obtain s' where i: "issue_payment demo_bridge_lib ?s demo_config (replicate 20 65) (Drops 77) demo_cc None = Inr (s', demo_tts)"
      "CURRENT_VERIFIER_SET s' = Some vs"
    by (rule demo_issue_payment)
  have amount: "compute_xrpl_amount demo_bridge_lib demo_system_gateway ''xrpl'' [0] ''avalanche'' 77 = Inr (Drops 77)"
    by (simp add: compute_xrpl_amount_def demo_system_gateway_queries demo_bridge_lib_def demo_lib_def)
  have dest: "Option.bind (from_utf8 (replicate 20 65)) (account_id_from_str demo_bridge_lib) = Some (replicate 20 65)"
    by code_simp
  have c: "is_contract_active (KILLSWITCH ?s)" "ensure_payment_open ?env ?s demo_cc = Inr ()"
    "pc_chain_name demo_config = ''xrpl''" "keccak256_digest demo_bridge_lib [9] = [9]"
    "payment_amount_is_zero demo_bridge_lib (Drops 77) = False" "msg_destination_chain demo_hub_message = ''xrpl''"
    "msg_payload_hash demo_hub_message = [9]"
    by (simp_all add: demo_prover_def is_contract_active_def ensure_payment_open_def demo_config_def demo_bridge_lib_def demo_lib_def
        demo_hub_message_def)
  have "case serialize_tx_to_sign demo_bridge_lib demo_tts of Inl _ \<Rightarrow> False | Inr _ \<Rightarrow> True"
    by code_simp
  then obtain bytes where ser: "serialize_tx_to_sign demo_bridge_lib demo_tts = Inr bytes" by (auto simp: case_Inr_iff)
  then have "\<exists>sub. start_signing_session demo_bridge_lib s' demo_config demo_tts (pe_contract_address ?env) None
      = Inr (s'\<lparr>REPLY_UNSIGNED_TX_HASH := Some (tts_unsigned_tx_hash demo_tts)\<rparr>, sub)"
    using i(2) x by (simp add: start_signing_session_def)
  then obtain t sub where sub: "start_signing_session demo_bridge_lib s' demo_config demo_tts (pe_contract_address ?env) None = Inr (t, sub)"
    by blast
  have "construct_payment_proof demo_bridge_lib ?env ?s demo_config demo_cc [9] = Inr (t, response\<lparr>resp_submessages := [sub]\<rparr>)"
    using c dest amount i(1) sub demo_system_gateway_queries(1)
    by (simp add: construct_payment_proof_def demo_system_prover_env_def list_first_def)
  then show ?thesis by (intro exI [of _ vs] exI) auto
qed

end
