(* ===== verification/Spec2Isabelle.thy ===== *)
theory Spec2Isabelle
  imports Xrpl_Serialize_Unique Xrpl_System
begin

text \<open>
  Verification of the Axelar Amplifier contracts for XRPL.
\<close>

section \<open>Properties of the contracts together\<close>

text \<open>
  C2: What enters the network from XRPL was seen by a majority: every message the gateway sends to the router,
  when it reads the statuses from a reachable verifier that was set up with a majority threshold, is the translation of
  a message of the call that the verifier has in a poll, and the votes recorded for that message as succeeded weigh more
  than half of the snapshot of the poll.\<close>

theorem incoming_backed_by_majority:
  assumes "verifier_instantiate venv vmsg = Inr (v0, vout)" "is_majority (vim_voting_threshold vmsg)" "vim_block_expiry vmsg \<noteq> 0"
    and "run (only verifier_call_ok (verifier_step (gl_xrpl lib))) v0 v"
    and "ge_messages_status env = verifier_answers (gl_xrpl lib) v height"
    and "gateway_execute lib env s sender (GwRouteIncomingMessages msgs) = Inr (s', out)"
    and "OutRouteMessages router rs \<in> set (gr_messages out)" "r \<in> set rs"
  shows "\<exists>w \<in> set msgs. \<exists>config c. gw_config s = Some config \<and> router = gc_router config \<and>
    translation lib env s config w = Some r \<and>
    map_of (ver_poll_messages v) (message_hash (gl_xrpl lib) (wp_message w)) = Some c \<and> pn_content c = wp_message w \<and>
    backed v c SucceededOnChain"
proof -
  from assms(6-8) obtain config w where w: "gw_config s = Some config" "router = gc_router config"
    "translation lib env s config w = Some r" "reported env wp_message msgs SucceededOnSourceChain w"
    by (rule routed_translation)
  have "verifier_inv (gl_xrpl lib) v" by (rule ver.run_inv [OF assms(4) verifier_inv_instantiate [OF assms(1-3)]])
  moreover have "verifier_message_status (gl_xrpl lib) v (wp_message w) height = Inr (outcome (Some SucceededOnChain) False)"
    using reported_verified [OF w(4) assms(5)] by (simp add: outcome_def)
  ultimately obtain c where "map_of (ver_poll_messages v) (message_hash (gl_xrpl lib) (wp_message w)) = Some c"
    "pn_content c = wp_message w" "backed v c SucceededOnChain"
    using decision_backed by blast
  with w reported_mem [OF w(4)] show ?thesis by blast
qed

theorem incoming_backed_by_majority_witness:
  "\<exists>s' out c. gateway_execute demo_system_lib demo_system_env demo_gateway_start ''relayer'' (GwRouteIncomingMessages [demo_system_transfer])
      = Inr (s', out) \<and> gr_messages out = [OutRouteMessages ''router'' [demo_system_routed]] \<and>
     pn_content c = wp_message demo_system_transfer \<and> backed demo_system_voted c SucceededOnChain"
proof -
  obtain vout where i: "verifier_instantiate demo_ver_env demo_ver_msg = Inr (demo_ver_start, vout)"
    using demo_ver_instantiate by blast
  obtain s' out where x: "gateway_execute demo_system_lib demo_system_env demo_gateway_start ''relayer''
      (GwRouteIncomingMessages [demo_system_transfer]) = Inr (s', out)" "gr_messages out = [OutRouteMessages ''router'' [demo_system_routed]]"
    using demo_system_route by blast
  have e: "ge_messages_status demo_system_env = verifier_answers (gl_xrpl demo_system_lib) demo_system_voted 7"
    by (simp add: demo_system_env_def)
  have m: "OutRouteMessages ''router'' [demo_system_routed] \<in> set (gr_messages out)" using x(2) by simp
  have "\<exists>w \<in> set [demo_system_transfer]. \<exists>c. pn_content c = wp_message w \<and> backed demo_system_voted c SucceededOnChain"
    using incoming_backed_by_majority [OF i demo_ver_params demo_system_run e x(1) m, of demo_system_routed] by auto
  with x show ?thesis by auto
qed



text \<open>
  C40: The router takes what the gateway gives: if a reachable router that is not disabled has the gateway registered
  under the gateway's chain name, with transaction hashes as message ids and not frozen, and knows where to deliver the
  destination chains, then it accepts every batch of messages that the gateway routes.\<close>

theorem gateway_messages_accepted:
  assumes "router_instantiate renv0 rmsg = Inr (r0, rout0)" "run router_step r0 rt"
    and "rt_killswitch rt = Some Disengaged" "rt_config rt = Some axelarnet_gateway" "gateway \<noteq> axelarnet_gateway"
    and "gw_config s = Some config" "map_of (rt_chains rt) (gc_chain_name config) = Some c" "ce_gateway c = gateway"
      "\<not> incoming_frozen c" "ce_msg_id_format c = HexTxHash"
    and "msg_id_laws (re_msg_ids renv)" "cc_id_laws lib (re_msg_ids renv)"
    and "\<forall>w \<in> set msgs. \<forall>tx. gas_tx (wp_message w) = Some tx \<longrightarrow> length tx = 32"
    and "gateway_execute lib env s sender (GwRouteIncomingMessages msgs) = Inr (s', out)"
    and "OutRouteMessages router rs \<in> set (gr_messages out)"
    and "\<forall>r \<in> set rs. \<exists>a. destination_gateway renv rt axelarnet_gateway (msg_destination_chain r) = Inr a"
  shows "\<exists>rout. router_execute renv rt gateway (RouteMessages rs) = Inr (rt, rout)"
proof (rule route_messages_accepted [OF _ assms(3,4,5,7,8,9)])
  show "router_inv rt" by (rule router.run_inv [OF assms(2) router_inv_instantiate [OF assms(1)]])
  show "\<exists>a. destination_gateway renv rt axelarnet_gateway (msg_destination_chain r) = Inr a" if "r \<in> set rs" for r
    using assms(16) that by blast
  fix r assume "r \<in> set rs"
  with assms(14,15) obtain config' w where "gw_config s = Some config'" "translation lib env s config' w = Some r"
    "reported env wp_message msgs SucceededOnSourceChain w"
    by (rule routed_translation)
  then have w: "translation lib env s config w = Some r" "w \<in> set msgs" using assms(6) reported_mem by fastforce+
  from translation_cc_id [OF w(1) assms(12)] obtain tx where tx: "gas_tx (wp_message w) = Some tx"
    "msg_cc_id r = \<lparr>source_chain = gc_chain_name config, message_id = hex_tx_hash_to_string (re_msg_ids renv) \<lparr>hth_tx_hash = tx\<rparr>\<rparr>"
    by blast
  with assms(13) w(2) have "length tx = 32" by blast
  then have "hex_tx_hash_from_str (re_msg_ids renv) (hex_tx_hash_to_string (re_msg_ids renv) \<lparr>hth_tx_hash = tx\<rparr>) = Inr \<lparr>hth_tx_hash = tx\<rparr>"
    using complete_id.print_parse [OF hex_tx_hash_complete [OF assms(11)]] by simp
  with tx show "source_chain (msg_cc_id r) = gc_chain_name config \<and>
      verify_msg_id (re_msg_ids renv) (message_id (msg_cc_id r)) (ce_msg_id_format c) = Inr ()"
    by (simp add: assms(10) verify_msg_id_def)
qed

theorem gateway_messages_accepted_witness:
  "\<exists>s' out rout. gateway_execute demo_system_lib demo_system_env demo_gateway_start ''relayer'' (GwRouteIncomingMessages [demo_system_transfer])
      = Inr (s', out) \<and> gr_messages out = [OutRouteMessages ''router'' [demo_system_routed]] \<and>
     router_execute demo_router_env demo_router ''gw1'' (RouteMessages [demo_system_routed]) = Inr (demo_router, rout)"
proof -
  obtain rout0 where i: "router_instantiate demo_router_env demo_router_msg = Inr (demo_router_start, rout0)"
    using demo_router_instantiate ..
  obtain s' out where x: "gateway_execute demo_system_lib demo_system_env demo_gateway_start ''relayer''
      (GwRouteIncomingMessages [demo_system_transfer]) = Inr (s', out)" "gr_messages out = [OutRouteMessages ''router'' [demo_system_routed]]"
    using demo_system_route by blast
  obtain config where c: "gw_config demo_gateway_start = Some config" "gc_chain_name config = ''xrpl''"
    by (auto simp: demo_gateway_start_def gateway_instantiate_def demo_gateway_lib_def demo_gateway_env_def demo_gateway_msg_def Let_def)
  obtain e where e: "map_of (rt_chains demo_router) (gc_chain_name config) = Some e" "ce_gateway e = ''gw1''" "\<not> incoming_frozen e"
      "ce_msg_id_format e = HexTxHash"
    unfolding c(2) by (rule demo_system_endpoint)
  have r: "rt_killswitch demo_router = Some Disengaged" "rt_config demo_router = Some ''nexus''" "''gw1'' \<noteq> ''nexus''"
    using demo_system_router by simp_all
  have "\<exists>rout. router_execute demo_router_env demo_router ''gw1'' (RouteMessages [demo_system_routed]) = Inr (demo_router, rout)"
  proof (rule gateway_messages_accepted [OF i demo_router_run r c(1) e _ _ _ x(1)])
    show "msg_id_laws (re_msg_ids demo_router_env)" by (simp add: demo_router_env_def demo_msg_id_laws)
    show "cc_id_laws demo_system_lib (re_msg_ids demo_router_env)"
      by (simp add: cc_id_laws_def demo_system_lib_def demo_router_env_def)
    show "\<forall>w \<in> set [demo_system_transfer]. \<forall>tx. gas_tx (wp_message w) = Some tx \<longrightarrow> length tx = 32"
      by (simp add: gas_tx_def demo_system_transfer_def)
    show "OutRouteMessages ''router'' [demo_system_routed] \<in> set (gr_messages out)" using x(2) by simp
    show "\<forall>m \<in> set [demo_system_routed]. \<exists>a. destination_gateway demo_router_env demo_router ''nexus'' (msg_destination_chain m) = Inr a"
      using demo_system_router by (simp add: demo_system_routed_def destination_gateway_def load_chain_by_chain_name_def demo_router_env_def)
  qed
  with x show ?thesis by blast
qed

end
